(* ===== verification/Prelude.thy ===== *)
theory Prelude
  imports Main "HOL-Library.Word"
begin

text \<open>
  Shared vocabulary of the development: the names of the machine types the sources use
  (\<open>uint8_t\<close>, \<open>uint32_t\<close>, \<open>uint64_t\<close>, byte strings for \<open>Slice\<close> and \<open>std::string\<close>), the
  \<open>Status\<close> values every fallible routine returns, and the lemmas on words, bytes and lists that
  several components rest on.  The collection \<open>byte_simps\<close> holds the rewrite rules that turn
  machine arithmetic on bytes into arithmetic on natural numbers.
\<close>

unbundle bit_operations_syntax

section \<open>Machine types\<close>

type_synonym byte = "8 word"
type_synonym u32 = "32 word"
type_synonym u64 = "64 word"
type_synonym bytes = "byte list"

named_theorems byte_simps \<open>machine arithmetic on bytes as arithmetic on nat\<close>

section \<open>Status values\<close>

text \<open>\<open>Status::Code\<close> of include/rocksdb/status.h; a \<open>Status\<close> carries a code and a message.\<close>

datatype Code =
    kOk | kNotFound | kCorruption | kNotSupported | kInvalidArgument | kIOError
  | kMergeInProgress | kIncomplete | kShutdownInProgress | kTimedOut | kAborted | kBusy
  | kExpired | kTryAgain

datatype Status = Status (code: Code) (getState: string)

definition OK :: Status where
  "OK = Status kOk []"

definition ok :: "Status \<Rightarrow> bool" where
  "ok s \<longleftrightarrow> code s = kOk"

definition IsShutdownInProgress :: "Status \<Rightarrow> bool" where
  "IsShutdownInProgress s \<longleftrightarrow> code s = kShutdownInProgress"

definition Corruption :: "string \<Rightarrow> Status" where
  "Corruption m = Status kCorruption m"

definition NotSupported :: "string \<Rightarrow> Status" where
  "NotSupported m = Status kNotSupported m"

definition InvalidArgument :: "string \<Rightarrow> Status" where
  "InvalidArgument m = Status kInvalidArgument m"

definition ShutdownInProgress :: Status where
  "ShutdownInProgress = Status kShutdownInProgress []"

definition NotFound :: Status where
  "NotFound = Status kNotFound []"

definition MergeInProgress :: Status where
  "MergeInProgress = Status kMergeInProgress []"

definition IsMergeInProgress :: "Status \<Rightarrow> bool" where
  "IsMergeInProgress s \<longleftrightarrow> code s = kMergeInProgress"

lemma ok_simps [simp]:
  "ok OK"
  "\<not> ok (Corruption m)"
  "\<not> ok (NotSupported m)"
  "\<not> ok (InvalidArgument m)"
  "\<not> ok ShutdownInProgress"
  "\<not> ok NotFound"
  "\<not> ok MergeInProgress"
  by (simp_all add: ok_def OK_def Corruption_def NotSupported_def InvalidArgument_def
      ShutdownInProgress_def NotFound_def MergeInProgress_def)

lemma IsMergeInProgress_simps [simp]:
  "IsMergeInProgress MergeInProgress"
  "\<not> IsMergeInProgress OK"
  "\<not> IsMergeInProgress NotFound"
  by (simp_all add: IsMergeInProgress_def MergeInProgress_def OK_def NotFound_def)

lemma IsShutdownInProgress_simps [simp]:
  "IsShutdownInProgress ShutdownInProgress"
  "\<not> IsShutdownInProgress OK"
  by (simp_all add: IsShutdownInProgress_def ShutdownInProgress_def OK_def)

section \<open>Words\<close>

lemma unat_bound: "unat (w :: 'a::len word) < 2 ^ LENGTH('a)"
  by simp

lemma bit_unat: "bit w n \<longleftrightarrow> odd (unat w div 2 ^ n)" for w :: "'a::len word"
  by (simp add: bit_iff_odd[of "unat w" n, symmetric] bit_unsigned_iff)

lemma take_bit_unat: "take_bit LENGTH('a) (unat w) = unat w" for w :: "'a::len word"
  by (simp add: take_bit_nat_eq_self)

lemma unat_drop_bit [byte_simps]: "unat (drop_bit n w) = unat w div 2 ^ n" for w :: "'a::len word"
  by (simp only: unsigned_drop_bit_eq take_bit_unat) (simp only: drop_bit_eq_div)

lemma or_push_bit_eq_add:
  fixes r w :: "'a::len word"
  assumes "unat r < 2 ^ s"
  shows "r OR push_bit s w = r + push_bit s w"
proof -
  have "\<not> bit r n" if "s \<le> n" for n
  proof -
    have "unat r div 2 ^ n = 0"
      using assms that by (meson div_less less_le_trans one_le_numeral power_increasing)
    then show ?thesis by (simp add: bit_unat)
  qed
  then have "r AND push_bit s w = 0"
    by (auto simp: bit_eq_iff bit_simps)
  then show ?thesis
    by (simp add: disjunctive_add_eq_or)
qed

lemma or_push_bit_of_nat:
  "unat r < 2 ^ s \<Longrightarrow> r OR push_bit s (word_of_nat n) = r + word_of_nat (n * 2 ^ s)"
  for r :: "'a::len word"
  by (simp add: or_push_bit_eq_add) (simp add: push_bit_eq_mult)

lemma ucast_byte_of_nat [byte_simps]:
  "(ucast (word_of_nat n :: byte) :: 'a::len word) = word_of_nat (n mod 256)"
  by (simp add: unsigned_of_nat take_bit_eq_mod)

lemma unat_byte_of_nat [byte_simps]: "unat (word_of_nat n :: byte) = n mod 256"
  by (simp add: unsigned_of_nat take_bit_eq_mod)

lemma unat_ucast_byte [byte_simps]: "unat (ucast w :: byte) = unat w mod 256" for w :: "'a::len word"
  by (simp add: unsigned_ucast_eq take_bit_eq_mod)

lemma unat_ucast_mod: "unat (ucast w :: 'b::len word) = unat w mod 2 ^ LENGTH('b)" for w :: "'a::len word"
  by (simp add: unsigned_ucast_eq take_bit_eq_mod)

lemma unat_take_bit: "unat (take_bit n w) = unat w mod 2 ^ n" for w :: "'a::len word"
  by (simp only: unsigned_take_bit_eq) (simp only: take_bit_eq_mod)

lemma unat_of_nat_le: "unat (word_of_nat n :: 'a::len word) \<le> n"
  by (simp add: unat_of_nat)

lemma unat_add_le: "unat (a + b) \<le> unat a + unat b" for a b :: "'a::len word"
  by (simp add: unat_word_ariths)

lemma unat_ucast_byte_up [byte_simps]:
  fixes b :: byte
  assumes "8 \<le> LENGTH('a)"
  shows "unat (ucast b :: 'a::len word) = unat b"
proof -
  have "unat b < 2 ^ LENGTH('a)"
    using unat_bound[of b] power_increasing[OF assms, of "2::nat"] by simp
  then show ?thesis
    by (simp only: unsigned_ucast_eq take_bit_nat_eq_self)
qed

lemma and_127_eq [byte_simps]: "w AND 127 = word_of_nat (unat w mod 128)" for w :: "'a::len word"
proof -
  have "w AND 127 = take_bit 7 w"
    by (simp add: take_bit_eq_mask mask_eq_exp_minus_1)
  also have "\<dots> = word_of_nat (unat (take_bit 7 w))"
    by simp
  also have "\<dots> = word_of_nat (unat w mod 128)"
    by (simp only: unsigned_take_bit_eq) (simp add: take_bit_eq_mod)
  finally show ?thesis .
qed

lemma bit_128: "bit (128 :: 'a::len word) n = (n = 7 \<and> 7 < LENGTH('a))"
proof -
  have e: "(128 :: 'a word) = 2 ^ 7" by simp
  show ?thesis
    unfolding e bit_exp_iff by (auto simp: possible_bit_word)
qed

lemma and_128_eq [byte_simps]: "w AND 128 = 0 \<longleftrightarrow> even (unat w div 128)" for w :: "'a::len word"
  using and_exp_eq_0_iff_not_bit[of w 7] by (simp add: bit_unat)

lemma ucast_and_255 [byte_simps]: "ucast (x AND 255) = (ucast x :: byte)" for x :: "'a::len word"
proof -
  have e: "(255 :: 'a word) = mask 8"
    by (simp add: mask_eq_exp_minus_1)
  show ?thesis
    unfolding e by (rule bit_word_eqI) (auto simp: bit_simps dest: bit_imp_le_length)
qed

end
