(* ===== verification/Coding.thy ===== *)
theory Coding
  imports Prelude
begin

text \<open>
  The byte encodings of util/coding.h and util/coding.cc: fixed-width little-endian integers,
  variable-length integers (seven bits per byte, the high bit marking continuation) and
  length-prefixed strings.  A \<open>char*\<close> destination becomes the list of bytes written; a \<open>Slice*\<close>
  input that a routine advances becomes an argument and a component of the result, with \<open>None\<close>
  for the routines' \<open>false\<close> or \<open>nullptr\<close>.

  The interface locale \<open>codec\<close> states what a pair of a writer and a reader promises its clients;
  every encoding of this theory is an interpretation of it.
\<close>

unbundle bit_operations_syntax

section \<open>Fixed-width integers\<close>

text \<open>\<open>port::kLittleEndian\<close>; the encodings below do not depend on it
  (\<open>EncodeFixed32_portable\<close>, \<open>EncodeFixed64_portable\<close>).\<close>

definition kLittleEndian :: bool where
  "kLittleEndian = True"

text \<open>The bytes of an object in memory order, as \<open>memcpy\<close> sees them.\<close>

definition object_bytes :: "nat \<Rightarrow> 'a::len word \<Rightarrow> bytes" where
  "object_bytes n v =
     (let le = map (\<lambda>i. ucast (drop_bit (8 * i) v)) [0..<n] in if kLittleEndian then le else rev le)"

definition object_of_bytes :: "bytes \<Rightarrow> 'a::len word" where
  "object_of_bytes bs =
     foldr (\<lambda>b acc. ucast b OR push_bit 8 acc) (if kLittleEndian then bs else rev bs) 0"

definition EncodeFixed32 :: "u32 \<Rightarrow> bytes" where
  "EncodeFixed32 value =
     (if kLittleEndian then object_bytes 4 value
      else [ucast (value AND 0xff), ucast (drop_bit 8 value AND 0xff),
            ucast (drop_bit 16 value AND 0xff), ucast (drop_bit 24 value AND 0xff)])"

definition EncodeFixed64 :: "u64 \<Rightarrow> bytes" where
  "EncodeFixed64 value =
     (if kLittleEndian then object_bytes 8 value
      else [ucast (value AND 0xff), ucast (drop_bit 8 value AND 0xff),
            ucast (drop_bit 16 value AND 0xff), ucast (drop_bit 24 value AND 0xff),
            ucast (drop_bit 32 value AND 0xff), ucast (drop_bit 40 value AND 0xff),
            ucast (drop_bit 48 value AND 0xff), ucast (drop_bit 56 value AND 0xff)])"

text \<open>The decoders read four and eight bytes without a bounds check; callers guarantee them.\<close>

definition DecodeFixed32 :: "bytes \<Rightarrow> u32" where
  "DecodeFixed32 ptr =
     (if kLittleEndian then object_of_bytes (take 4 ptr)
      else ucast (ptr ! 0) OR push_bit 8 (ucast (ptr ! 1)) OR push_bit 16 (ucast (ptr ! 2))
           OR push_bit 24 (ucast (ptr ! 3)))"

definition DecodeFixed64 :: "bytes \<Rightarrow> u64" where
  "DecodeFixed64 ptr =
     (if kLittleEndian then object_of_bytes (take 8 ptr)
      else (let lo = ucast (DecodeFixed32 ptr); hi = ucast (DecodeFixed32 (drop 4 ptr))
            in push_bit 32 hi OR lo))"

definition PutFixed32 :: "bytes \<Rightarrow> u32 \<Rightarrow> bytes" where
  "PutFixed32 dst value =
     (if kLittleEndian then dst @ object_bytes 4 value else dst @ EncodeFixed32 value)"

definition PutFixed64 :: "bytes \<Rightarrow> u64 \<Rightarrow> bytes" where
  "PutFixed64 dst value =
     (if kLittleEndian then dst @ object_bytes 8 value else dst @ EncodeFixed64 value)"

definition GetFixed64 :: "bytes \<Rightarrow> (u64 \<times> bytes) option" where
  "GetFixed64 input =
     (if length input < 8 then None else Some (DecodeFixed64 input, drop 8 input))"

definition GetFixed32 :: "bytes \<Rightarrow> (u32 \<times> bytes) option" where
  "GetFixed32 input =
     (if length input < 4 then None else Some (DecodeFixed32 input, drop 4 input))"

definition EndianTransform :: "u64 \<Rightarrow> nat \<Rightarrow> u64" where
  "EndianTransform input sz =
     fold (\<lambda>i ret_val. ret_val OR push_bit (8 * (sz - i - 1)) (ucast (object_bytes 8 input ! i)))
       [0..<sz] 0"

section \<open>Variable-length integers\<close>

definition EncodeVarint32 :: "u32 \<Rightarrow> bytes" where
  "EncodeVarint32 v =
     (let B = 128 in
      if v < 2 ^ 7 then [ucast v]
      else if v < 2 ^ 14 then [ucast (v OR B), ucast (drop_bit 7 v)]
      else if v < 2 ^ 21 then
        [ucast (v OR B), ucast (drop_bit 7 v OR B), ucast (drop_bit 14 v)]
      else if v < 2 ^ 28 then
        [ucast (v OR B), ucast (drop_bit 7 v OR B), ucast (drop_bit 14 v OR B),
         ucast (drop_bit 21 v)]
      else
        [ucast (v OR B), ucast (drop_bit 7 v OR B), ucast (drop_bit 14 v OR B),
         ucast (drop_bit 21 v OR B), ucast (drop_bit 28 v)])"

lemma drop_bit_7_decreases: "128 \<le> v \<Longrightarrow> unat (drop_bit 7 v) < unat v" for v :: u64
  by (simp add: unat_drop_bit word_le_nat_alt)

function EncodeVarint64 :: "u64 \<Rightarrow> bytes" where
  "EncodeVarint64 v =
     (let B = 128 in
      if B \<le> v then ucast ((v AND (B - 1)) OR B) # EncodeVarint64 (drop_bit 7 v) else [ucast v])"
  by pat_completeness auto
termination
  by (relation "measure unat") (auto simp: drop_bit_7_decreases)

declare EncodeVarint64.simps [simp del]

text \<open>The loop of \<open>VarintLength\<close>, with \<open>len\<close> its counter.\<close>

function VarintLength_loop :: "u64 \<Rightarrow> nat \<Rightarrow> nat" where
  "VarintLength_loop v len =
     (if 128 \<le> v then VarintLength_loop (drop_bit 7 v) (len + 1) else len)"
  by pat_completeness auto
termination
  by (relation "measure (\<lambda>(v, len). unat v)") (auto simp: drop_bit_7_decreases)

declare VarintLength_loop.simps [simp del]

definition VarintLength :: "u64 \<Rightarrow> nat" where
  "VarintLength v = VarintLength_loop v 1"

fun GetVarint32PtrFallback_loop :: "nat \<Rightarrow> u32 \<Rightarrow> bytes \<Rightarrow> (u32 \<times> bytes) option" where
  "GetVarint32PtrFallback_loop shift res [] = None"
| "GetVarint32PtrFallback_loop shift res (b # p) =
     (if shift \<le> 28 then
        (let byte = ucast b in
         if byte AND 128 \<noteq> 0
         then GetVarint32PtrFallback_loop (shift + 7) (res OR push_bit shift (byte AND 127)) p
         else Some (res OR push_bit shift byte, p))
      else None)"

definition GetVarint32PtrFallback :: "bytes \<Rightarrow> (u32 \<times> bytes) option" where
  "GetVarint32PtrFallback p = GetVarint32PtrFallback_loop 0 0 p"

definition GetVarint32Ptr :: "bytes \<Rightarrow> (u32 \<times> bytes) option" where
  "GetVarint32Ptr p =
     (case p of
        b # q \<Rightarrow>
          (let res = ucast b in
           if res AND 128 = 0 then Some (res, q) else GetVarint32PtrFallback p)
      | [] \<Rightarrow> GetVarint32PtrFallback p)"

fun GetVarint64Ptr_loop :: "nat \<Rightarrow> u64 \<Rightarrow> bytes \<Rightarrow> (u64 \<times> bytes) option" where
  "GetVarint64Ptr_loop shift res [] = None"
| "GetVarint64Ptr_loop shift res (b # p) =
     (if shift \<le> 63 then
        (let byte = ucast b in
         if byte AND 128 \<noteq> 0
         then GetVarint64Ptr_loop (shift + 7) (res OR push_bit shift (byte AND 127)) p
         else Some (res OR push_bit shift byte, p))
      else None)"

definition GetVarint64Ptr :: "bytes \<Rightarrow> (u64 \<times> bytes) option" where
  "GetVarint64Ptr p = GetVarint64Ptr_loop 0 0 p"

definition PutVarint32 :: "bytes \<Rightarrow> u32 \<Rightarrow> bytes" where
  "PutVarint32 dst v = dst @ EncodeVarint32 v"

definition PutVarint32Varint32 :: "bytes \<Rightarrow> u32 \<Rightarrow> u32 \<Rightarrow> bytes" where
  "PutVarint32Varint32 dst v1 v2 = dst @ EncodeVarint32 v1 @ EncodeVarint32 v2"

definition PutVarint32Varint32Varint32 :: "bytes \<Rightarrow> u32 \<Rightarrow> u32 \<Rightarrow> u32 \<Rightarrow> bytes" where
  "PutVarint32Varint32Varint32 dst v1 v2 v3 =
     dst @ EncodeVarint32 v1 @ EncodeVarint32 v2 @ EncodeVarint32 v3"

definition PutVarint64 :: "bytes \<Rightarrow> u64 \<Rightarrow> bytes" where
  "PutVarint64 dst v = dst @ EncodeVarint64 v"

definition PutVarint64Varint64 :: "bytes \<Rightarrow> u64 \<Rightarrow> u64 \<Rightarrow> bytes" where
  "PutVarint64Varint64 dst v1 v2 = dst @ EncodeVarint64 v1 @ EncodeVarint64 v2"

definition PutVarint32Varint64 :: "bytes \<Rightarrow> u32 \<Rightarrow> u64 \<Rightarrow> bytes" where
  "PutVarint32Varint64 dst v1 v2 = dst @ EncodeVarint32 v1 @ EncodeVarint64 v2"

definition PutVarint32Varint32Varint64 :: "bytes \<Rightarrow> u32 \<Rightarrow> u32 \<Rightarrow> u64 \<Rightarrow> bytes" where
  "PutVarint32Varint32Varint64 dst v1 v2 v3 =
     dst @ EncodeVarint32 v1 @ EncodeVarint32 v2 @ EncodeVarint64 v3"

definition GetVarint32 :: "bytes \<Rightarrow> (u32 \<times> bytes) option" where
  "GetVarint32 input = GetVarint32Ptr input"

definition GetVarint64 :: "bytes \<Rightarrow> (u64 \<times> bytes) option" where
  "GetVarint64 input = GetVarint64Ptr input"

section \<open>Length-prefixed strings\<close>

definition PutLengthPrefixedSlice :: "bytes \<Rightarrow> bytes \<Rightarrow> bytes" where
  "PutLengthPrefixedSlice dst v = PutVarint32 dst (word_of_nat (length v)) @ v"

definition PutLengthPrefixedSliceParts :: "bytes \<Rightarrow> bytes list \<Rightarrow> bytes" where
  "PutLengthPrefixedSliceParts dst parts =
     (let total_bytes = fold (\<lambda>part n. n + length part) parts 0
      in fold (\<lambda>part d. d @ part) parts (PutVarint32 dst (word_of_nat total_bytes)))"

definition GetLengthPrefixedSlice :: "bytes \<Rightarrow> (bytes \<times> bytes) option" where
  "GetLengthPrefixedSlice input =
     (case GetVarint32 input of
        Some (len, rest) \<Rightarrow>
          (if unat len \<le> length rest then Some (take (unat len) rest, drop (unat len) rest) else None)
      | None \<Rightarrow> None)"

text \<open>The loop of \<open>GetSliceUntil\<close> counts the bytes before the delimiter.\<close>

fun GetSliceUntil_len :: "bytes \<Rightarrow> byte \<Rightarrow> nat" where
  "GetSliceUntil_len [] delimiter = 0"
| "GetSliceUntil_len (b # bs) delimiter =
     (if b \<noteq> delimiter then Suc (GetSliceUntil_len bs delimiter) else 0)"

definition GetSliceUntil :: "bytes \<Rightarrow> byte \<Rightarrow> bytes \<times> bytes" where
  "GetSliceUntil sl delimiter =
     (let len = GetSliceUntil_len sl delimiter
      in (take len sl, drop (len + (if len < length sl then 1 else 0)) sl))"

section \<open>The encodings as functions of the number encoded\<close>

text \<open>Reference encodings on natural numbers: base 256 with a fixed number of digits, and
  base 128 with the continuation bit.\<close>

fun fixed_spec :: "nat \<Rightarrow> nat \<Rightarrow> bytes" where
  "fixed_spec 0 n = []"
| "fixed_spec (Suc k) n = word_of_nat (n mod 256) # fixed_spec k (n div 256)"

fun varint_spec :: "nat \<Rightarrow> bytes" where
  "varint_spec n =
     (if n < 128 then [word_of_nat n] else word_of_nat (n mod 128 + 128) # varint_spec (n div 128))"

declare varint_spec.simps [simp del]

lemma varint_spec_unroll:
  "n < 128 \<Longrightarrow> varint_spec n = [word_of_nat n]"
  "128 \<le> n \<Longrightarrow> varint_spec n = word_of_nat (n mod 128 + 128) # varint_spec (n div 128)"
  by (simp_all add: varint_spec.simps[of n])

lemma length_fixed_spec [simp]: "length (fixed_spec k n) = k"
  by (induction k n rule: fixed_spec.induct) auto

lemma ucast_drop_bit_byte: "(ucast (drop_bit k v) :: byte) = word_of_nat (unat v div 2 ^ k mod 256)"
  for v :: "'a::len word"
  by (simp only: word_unat_eq_iff unat_ucast_byte unat_drop_bit unat_byte_of_nat mod_mod_trivial)

lemma object_bytes_eq: "object_bytes k v = fixed_spec k (unat v)"
  for v :: "'a::len word"
proof -
  have "map (\<lambda>i. ucast (drop_bit (8 * i) v)) [j..<j + k] = fixed_spec k (unat v div 256 ^ j)" for j
  proof (induction k arbitrary: j)
    case (Suc k)
    have "map (\<lambda>i. ucast (drop_bit (8 * i) v)) [j..<j + Suc k] =
        ucast (drop_bit (8 * j) v) # map (\<lambda>i. ucast (drop_bit (8 * i) v)) [Suc j..<Suc j + k]"
      by (simp add: upt_rec)
    also have "\<dots> = word_of_nat (unat v div 256 ^ j mod 256) # fixed_spec k (unat v div 256 ^ Suc j)"
      using Suc.IH[of "Suc j"] by (simp add: ucast_drop_bit_byte power_mult)
    also have "unat v div 256 ^ Suc j = unat v div 256 ^ j div 256"
      by (simp add: div_mult2_eq[symmetric] mult.commute)
    finally show ?case by simp
  qed simp
  from this[of 0] show ?thesis
    by (simp add: object_bytes_def kLittleEndian_def)
qed

lemma EncodeFixed32_eq: "EncodeFixed32 v = fixed_spec 4 (unat v)"
  by (simp add: EncodeFixed32_def kLittleEndian_def object_bytes_eq)

lemma EncodeFixed64_eq: "EncodeFixed64 v = fixed_spec 8 (unat v)"
  by (simp add: EncodeFixed64_def kLittleEndian_def object_bytes_eq)

lemma object_of_bytes_fixed_spec:
  "object_of_bytes (fixed_spec k n) = (word_of_nat (n mod 256 ^ k) :: 'a::len word)"
proof -
  have "foldr (\<lambda>b acc. ucast b OR push_bit 8 acc) (fixed_spec k n) 0
      = (word_of_nat (n mod 256 ^ k) :: 'a word)"
  proof (induction k n rule: fixed_spec.induct)
    case (2 k n)
    let ?b = "word_of_nat (n mod 256) :: 'a word"
    have "unat ?b < 2 ^ 8"
      by (rule le_less_trans[OF unat_of_nat_le]) simp
    then have "?b OR push_bit 8 (word_of_nat (n div 256 mod 256 ^ k)) =
        word_of_nat (n mod 256 + 256 * (n div 256 mod 256 ^ k))"
      by (simp only: or_push_bit_of_nat of_nat_add mult.commute) simp
    with 2 show ?case
      by (simp add: ucast_byte_of_nat mod_mult2_eq)
  qed simp
  then show ?thesis
    by (simp add: object_of_bytes_def kLittleEndian_def)
qed

lemma DecodeFixed32_Encode [simp]: "DecodeFixed32 (EncodeFixed32 v @ r) = v"
  by (simp add: DecodeFixed32_def EncodeFixed32_eq kLittleEndian_def object_of_bytes_fixed_spec
      unat_bound[of v, simplified])

lemma DecodeFixed64_Encode [simp]: "DecodeFixed64 (EncodeFixed64 v @ r) = v"
  by (simp add: DecodeFixed64_def EncodeFixed64_eq kLittleEndian_def object_of_bytes_fixed_spec
      unat_bound[of v, simplified])

lemma length_EncodeFixed [simp]: "length (EncodeFixed32 v) = 4" "length (EncodeFixed64 w) = 8"
  by (simp_all add: EncodeFixed32_eq EncodeFixed64_eq)

lemma low_byte: "(ucast (v AND 0xff) :: byte) = ucast v" for v :: "'a::len word"
proof -
  have "(0xff :: 'a word) = mask 8"
    by (simp add: mask_eq_exp_minus_1)
  moreover have "(ucast (v AND mask 8) :: byte) = ucast v"
    by (rule bit_word_eqI) (auto simp: bit_simps dest: bit_imp_le_length)
  ultimately show ?thesis
    by simp
qed

text \<open>What the other branch of the encoders writes, on a machine that is not little-endian, is the same.\<close>

lemma EncodeFixed32_portable:
  "EncodeFixed32 value =
     [ucast (value AND 0xff), ucast (drop_bit 8 value AND 0xff),
      ucast (drop_bit 16 value AND 0xff), ucast (drop_bit 24 value AND 0xff)]"
  by (simp add: EncodeFixed32_def kLittleEndian_def object_bytes_def low_byte upt_rec)

lemma EncodeFixed64_portable:
  "EncodeFixed64 value =
     [ucast (value AND 0xff), ucast (drop_bit 8 value AND 0xff),
      ucast (drop_bit 16 value AND 0xff), ucast (drop_bit 24 value AND 0xff),
      ucast (drop_bit 32 value AND 0xff), ucast (drop_bit 40 value AND 0xff),
      ucast (drop_bit 48 value AND 0xff), ucast (drop_bit 56 value AND 0xff)]"
  by (simp add: EncodeFixed64_def kLittleEndian_def object_bytes_def low_byte upt_rec)

lemma fixed_spec_surj: "\<exists>n<256 ^ length bs. fixed_spec (length bs) n = bs"
proof (induction bs)
  case (Cons b bs)
  then obtain n where n: "n < 256 ^ length bs" "fixed_spec (length bs) n = bs"
    by blast
  have "unat b < 256"
    using unat_bound [of b] by simp
  then have "fixed_spec (length (b # bs)) (unat b + 256 * n) = b # bs"
    using n by simp
  moreover have "unat b + 256 * n < 256 * (n + 1)"
    using \<open>unat b < 256\<close> by simp
  then have "unat b + 256 * n < 256 ^ length (b # bs)"
    using n(1) mult_le_mono2 [of "n + 1" "256 ^ length bs" 256] by simp
  ultimately show ?case
    by blast
qed simp

lemma EncodeFixed32_Decode: "length d = 4 \<Longrightarrow> EncodeFixed32 (DecodeFixed32 d) = d"
proof -
  assume l: "length d = 4"
  then obtain n where n: "n < 256 ^ 4" "fixed_spec 4 n = d"
    using fixed_spec_surj [of d] by auto
  have "DecodeFixed32 d = word_of_nat n"
    using n l object_of_bytes_fixed_spec [where k = 4 and n = n and 'a = 32]
    by (simp add: DecodeFixed32_def kLittleEndian_def)
  then show ?thesis
    using n by (simp add: EncodeFixed32_eq unat_of_nat)
qed

lemma EncodeFixed64_Decode: "length d = 8 \<Longrightarrow> EncodeFixed64 (DecodeFixed64 d) = d"
proof -
  assume l: "length d = 8"
  then obtain n where n: "n < 256 ^ 8" "fixed_spec 8 n = d"
    using fixed_spec_surj [of d] by auto
  have "DecodeFixed64 d = word_of_nat n"
    using n l object_of_bytes_fixed_spec [where k = 8 and n = n and 'a = 64]
    by (simp add: DecodeFixed64_def kLittleEndian_def)
  then show ?thesis
    using n by (simp add: EncodeFixed64_eq unat_of_nat)
qed

text \<open>The two varint readers are one loop at two widths; \<open>last_shift\<close> is the last shift it tries.\<close>

fun varint_loop :: "nat \<Rightarrow> nat \<Rightarrow> 'a::len word \<Rightarrow> bytes \<Rightarrow> ('a word \<times> bytes) option" where
  "varint_loop last_shift s r [] = None"
| "varint_loop last_shift s r (b # p) =
     (if s \<le> last_shift then
        (if 128 \<le> unat b
         then varint_loop last_shift (s + 7) (r OR push_bit s (word_of_nat (unat b mod 128))) p
         else Some (r OR push_bit s (word_of_nat (unat b)), p))
      else None)"

lemma byte_and_128: "((ucast b :: 'a::len word) AND 128 \<noteq> 0) = (128 \<le> unat b)"
  if "8 \<le> LENGTH('a)" for b :: byte
proof -
  have "unat b < 256" using unat_bound[of b] by simp
  then have "unat b div 128 = (if 128 \<le> unat b then 1 else 0)"
    by (auto intro!: div_nat_eqI)
  then show ?thesis
    using that by (simp add: and_128_eq unat_ucast_byte_up)
qed

lemma GetVarint32PtrFallback_loop_eq:
  "GetVarint32PtrFallback_loop s r p = varint_loop 28 s r p"
  by (induction s r p rule: GetVarint32PtrFallback_loop.induct)
    (auto simp: byte_and_128 and_127_eq unat_ucast_byte_up Let_def)

lemma GetVarint64Ptr_loop_eq:
  "GetVarint64Ptr_loop s r p = varint_loop 63 s r p"
  by (induction s r p rule: GetVarint64Ptr_loop.induct)
    (auto simp: byte_and_128 and_127_eq unat_ucast_byte_up Let_def)

lemma varint_loop_spec:
  fixes r :: "'a::len word"
  assumes shifts: "\<And>t. 7 dvd t \<Longrightarrow> t < LENGTH('a) \<Longrightarrow> t \<le> last_shift"
    and "n * 2 ^ s < 2 ^ LENGTH('a)" "7 dvd s" "s \<le> last_shift" "unat r < 2 ^ s"
  shows "varint_loop last_shift s r (varint_spec n @ rest) = Some (r + word_of_nat (n * 2 ^ s), rest)"
  using assms(2-)
proof (induction n arbitrary: s r rule: varint_spec.induct)
  case (1 n)
  show ?case
  proof (cases "n < 128")
    case True
    with "1.prems" show ?thesis
      by (simp add: varint_spec_unroll unat_byte_of_nat or_push_bit_of_nat)
  next
    case False
    let ?r = "r OR push_bit s (word_of_nat (n mod 128))"
    have r: "?r = r + word_of_nat (n mod 128 * 2 ^ s)"
      using 1 by (simp add: or_push_bit_of_nat)
    have "unat ?r \<le> unat r + n mod 128 * 2 ^ s"
      unfolding r by (meson add_left_mono le_trans unat_of_nat_le unat_add_le)
    also have "\<dots> < 2 ^ s + 127 * 2 ^ s"
      using 1 by (intro add_less_le_mono mult_le_mono1) auto
    also have "\<dots> = 2 ^ (s + 7)" by (simp add: power_add)
    finally have r_less: "unat ?r < 2 ^ (s + 7)" .
    have "2 ^ (s + 7) \<le> n * 2 ^ s" using False by (simp add: power_add)
    then have "(2::nat) ^ (s + 7) < 2 ^ LENGTH('a)" using 1 by linarith
    then have s7: "s + 7 \<le> last_shift" "7 dvd s + 7"
      using 1 shifts[of "s + 7"] by simp_all
    have "n div 128 * 2 ^ (s + 7) \<le> n * 2 ^ s" by (simp add: power_add)
    with 1 have less: "n div 128 * 2 ^ (s + 7) < 2 ^ LENGTH('a)" by linarith
    have "n mod 128 * 2 ^ s + n div 128 * 2 ^ (s + 7) = (n mod 128 + n div 128 * 128) * 2 ^ s"
      by (simp only: power_add add_mult_distrib mult.assoc) simp
    then have sum: "n mod 128 * 2 ^ s + n div 128 * 2 ^ (s + 7) = n * 2 ^ s"
      by (simp only: mod_div_mult_eq)
    have "varint_loop last_shift s r (varint_spec n @ rest) =
        varint_loop last_shift (s + 7) ?r (varint_spec (n div 128) @ rest)"
      using False "1.prems"(3) by (simp add: varint_spec_unroll unat_byte_of_nat del: of_nat_add)
    also have "\<dots> = Some (?r + word_of_nat (n div 128 * 2 ^ (s + 7)), rest)"
      by (rule "1.IH"[OF False less s7(2) s7(1) r_less])
    also have "?r + word_of_nat (n div 128 * 2 ^ (s + 7)) = r + word_of_nat (n * 2 ^ s)"
      unfolding r sum[symmetric] of_nat_add by (simp only: add.assoc)
    finally show ?thesis .
  qed
qed

lemma ucast_or_128: "(ucast (v OR 128) :: byte) = word_of_nat (unat v mod 128 + 128)"
  if "8 \<le> LENGTH('a)" for v :: "'a::len word"
proof -
  have "(ucast (v OR 128) :: byte) = (ucast v AND mask 7) OR push_bit 7 1"
    by (rule bit_word_eqI) (use that in \<open>simp only: bit_simps bit_128\<close>, auto)
  also have "\<dots> = (ucast v AND 127) OR push_bit 7 (word_of_nat 1)"
    by (simp add: mask_eq_exp_minus_1)
  also have "\<dots> = word_of_nat (unat v mod 256 mod 128) OR push_bit 7 (word_of_nat 1)"
    by (simp only: and_127_eq unat_ucast_byte)
  also have "\<dots> = word_of_nat (unat v mod 256 mod 128 + 1 * 2 ^ 7)"
    by (subst or_push_bit_of_nat) (simp_all add: unat_byte_of_nat mod_mod_cancel)
  also have "unat v mod 256 mod 128 + 1 * 2 ^ 7 = unat v mod 128 + 128"
    by (simp add: mod_mod_cancel)
  finally show ?thesis .
qed

lemma ucast_and_127_or_128:
  "(ucast ((v AND 127) OR 128) :: byte) = word_of_nat (unat v mod 128 + 128)" for v :: u64
  by (simp add: ucast_or_128 and_127_eq unat_of_nat)

lemma ucast_small: "unat v < 128 \<Longrightarrow> (ucast v :: byte) = word_of_nat (unat v)" for v :: "'a::len word"
  by simp

lemma EncodeVarint64_eq: "EncodeVarint64 v = varint_spec (unat v)"
proof (induction v rule: EncodeVarint64.induct)
  case (1 v)
  then show ?case
    by (simp add: EncodeVarint64.simps[of v] varint_spec.simps[of "unat v"] ucast_and_127_or_128
        unat_drop_bit word_le_nat_alt Let_def)
qed

lemma EncodeVarint32_eq: "EncodeVarint32 v = varint_spec (unat v)"
proof -
  have "unat v < 2 ^ 32" using unat_bound[of v] by simp
  then show ?thesis
    by (simp add: EncodeVarint32_def Let_def word_less_nat_alt varint_spec_unroll ucast_or_128
        ucast_drop_bit_byte unat_drop_bit div_mult2_eq[symmetric])
qed

lemma VarintLength_loop_eq: "VarintLength_loop v len + 1 = len + length (EncodeVarint64 v)"
proof (induction v len rule: VarintLength_loop.induct)
  case (1 v len)
  then show ?case
    by (simp add: VarintLength_loop.simps[of v len] EncodeVarint64.simps[of v] Let_def)
qed

lemma VarintLength_eq: "VarintLength v = length (EncodeVarint64 v)"
  using VarintLength_loop_eq[of v 1] by (simp add: VarintLength_def)

section \<open>The interface of an encoding\<close>

text \<open>
  What a writer \<open>put\<close> and a reader \<open>get\<close> promise each other: on the values it accepts, the
  reader returns what was written and leaves what followed it.
\<close>

locale codec =
  fixes put :: "'a \<Rightarrow> bytes" and get :: "bytes \<Rightarrow> ('a \<times> bytes) option" and accepts :: "'a \<Rightarrow> bool"
  assumes get_put: "accepts x \<Longrightarrow> get (put x @ rest) = Some (x, rest)"
begin

lemma get_put_only: "accepts x \<Longrightarrow> get (put x) = Some (x, [])"
  using get_put[of x "[]"] by simp

lemma put_unique:
  assumes "accepts x" "accepts y" "put x @ r = put y @ s"
  shows "x = y \<and> r = s"
proof -
  have "Some (x, r) = Some (y, s)"
    by (simp only: get_put[OF assms(1), symmetric] get_put[OF assms(2), symmetric] assms(3))
  then show ?thesis by simp
qed

end

lemma GetVarint32_spec: "n < 2 ^ 32 \<Longrightarrow> GetVarint32 (varint_spec n @ rest) = Some (word_of_nat n, rest)"
proof -
  assume n: "n < 2 ^ 32"
  have t: "t \<le> 28" if "7 dvd t" "t < LENGTH(32)" for t
    using that by (simp, presburger)
  have "GetVarint32PtrFallback (varint_spec n @ rest) = Some (word_of_nat n, rest)"
    using varint_loop_spec[of 28 n 0 "0 :: u32" rest] n t
    by (simp add: GetVarint32PtrFallback_def GetVarint32PtrFallback_loop_eq)
  moreover have "GetVarint32Ptr p = GetVarint32PtrFallback p" for p
    by (cases p) (simp_all add: GetVarint32Ptr_def GetVarint32PtrFallback_def Let_def)
  ultimately show ?thesis
    by (simp add: GetVarint32_def)
qed

lemma GetVarint64_spec: "n < 2 ^ 64 \<Longrightarrow> GetVarint64 (varint_spec n @ rest) = Some (word_of_nat n, rest)"
  using varint_loop_spec[of 63 n 0 "0 :: u64" rest]
  by (simp add: GetVarint64_def GetVarint64Ptr_def GetVarint64Ptr_loop_eq)

interpretation fixed32: codec "PutFixed32 []" GetFixed32 "\<lambda>_. True"
  by unfold_locales (simp add: PutFixed32_def GetFixed32_def object_bytes_eq EncodeFixed32_eq[symmetric])

interpretation fixed64: codec "PutFixed64 []" GetFixed64 "\<lambda>_. True"
  by unfold_locales (simp add: PutFixed64_def GetFixed64_def object_bytes_eq EncodeFixed64_eq[symmetric])

interpretation varint32: codec "PutVarint32 []" GetVarint32 "\<lambda>_. True"
  using unat_bound[where ?'a = 32]
  by unfold_locales (simp add: PutVarint32_def EncodeVarint32_eq GetVarint32_spec)

interpretation varint64: codec "PutVarint64 []" GetVarint64 "\<lambda>_. True"
  using unat_bound[where ?'a = 64]
  by unfold_locales (simp add: PutVarint64_def EncodeVarint64_eq GetVarint64_spec)

lemma length_prefixed_get_put:
  assumes "length v < 2 ^ 32"
  shows "GetLengthPrefixedSlice (PutLengthPrefixedSlice [] v @ rest) = Some (v, rest)"
  using assms
  by (simp add: GetLengthPrefixedSlice_def PutLengthPrefixedSlice_def varint32.get_put unat_of_nat)

interpretation slices: codec "PutLengthPrefixedSlice []" GetLengthPrefixedSlice
    "\<lambda>v. length v < 2 ^ 32"
  by unfold_locales (rule length_prefixed_get_put)

lemma put_appends:
  "PutFixed32 dst a = dst @ PutFixed32 [] a"
  "PutFixed64 dst b = dst @ PutFixed64 [] b"
  "PutVarint32 dst a = dst @ PutVarint32 [] a"
  "PutVarint64 dst b = dst @ PutVarint64 [] b"
  "PutLengthPrefixedSlice dst v = dst @ PutLengthPrefixedSlice [] v"
  by (simp_all add: PutFixed32_def PutFixed64_def PutVarint32_def PutVarint64_def
      PutLengthPrefixedSlice_def)

lemma PutLengthPrefixedSliceParts_eq:
  "PutLengthPrefixedSliceParts dst parts = PutLengthPrefixedSlice dst (concat parts)"
proof -
  have "fold (\<lambda>part n. n + length part) parts n = n + length (concat parts)" for n
    by (induction parts arbitrary: n) auto
  moreover have "fold (\<lambda>part d. d @ part) parts d = d @ concat parts" for d
    by (induction parts arbitrary: d) auto
  ultimately show ?thesis
    by (simp add: PutLengthPrefixedSliceParts_def PutLengthPrefixedSlice_def)
qed

lemma length_varint_spec: "n < 128 ^ Suc k \<Longrightarrow> length (varint_spec n) \<le> Suc k"
proof (induction k arbitrary: n)
  case 0
  then show ?case by (simp add: varint_spec_unroll)
next
  case (Suc k)
  show ?case
  proof (cases "n < 128")
    case True
    then show ?thesis by (simp add: varint_spec_unroll)
  next
    case False
    have "n div 128 < 128 ^ Suc k"
      using Suc.prems by (simp add: less_mult_imp_div_less mult.commute)
    with False Suc.IH show ?thesis by (simp add: varint_spec_unroll)
  qed
qed

lemma length_EncodeVarint: "length (EncodeVarint32 v) \<le> 5" "length (EncodeVarint64 w) \<le> 10"
proof -
  show "length (EncodeVarint32 v) \<le> 5"
    using length_varint_spec[of "unat v" 4] unat_bound[of v] by (simp add: EncodeVarint32_eq)
  show "length (EncodeVarint64 w) \<le> 10"
    using length_varint_spec[of "unat w" 9] unat_bound[of w] by (simp add: EncodeVarint64_eq)
qed

lemma unat_ucast_32_64: "unat (ucast v :: u64) = unat v" for v :: u32
  using unat_bound[of v] by (simp add: unsigned_ucast_eq take_bit_nat_eq_self)

section \<open>What the readers consume\<close>

lemma GetVarint32_shorter: "GetVarint32 input = Some (v, rest) \<Longrightarrow> length rest < length input"
proof -
  have loop: "GetVarint32PtrFallback_loop shift r p = Some (v, rest) \<Longrightarrow> length rest < length p" for shift r p
    by (induction shift r p rule: GetVarint32PtrFallback_loop.induct) (auto simp: Let_def split: if_splits)
  assume "GetVarint32 input = Some (v, rest)"
  then show ?thesis
    by (auto simp: GetVarint32_def GetVarint32Ptr_def GetVarint32PtrFallback_def Let_def split: if_splits list.splits
        dest!: loop)
qed

lemma GetVarint64_shorter: "GetVarint64 input = Some (v, rest) \<Longrightarrow> length rest < length input"
proof -
  have loop: "GetVarint64Ptr_loop shift r p = Some (v, rest) \<Longrightarrow> length rest < length p" for shift r p
    by (induction shift r p rule: GetVarint64Ptr_loop.induct) (auto simp: Let_def split: if_splits)
  assume "GetVarint64 input = Some (v, rest)"
  then show ?thesis
    using loop by (auto simp: GetVarint64_def GetVarint64Ptr_def)
qed

lemma GetLengthPrefixedSlice_shorter: "GetLengthPrefixedSlice input = Some (v, rest) \<Longrightarrow> length rest < length input"
  by (auto simp: GetLengthPrefixedSlice_def split: option.splits if_splits dest!: GetVarint32_shorter)

text \<open>The strings whose length a 32-bit prefix can hold.\<close>

definition short :: "bytes \<Rightarrow> bool" where
  "short b \<longleftrightarrow> length b < 2 ^ 32"

lemma GetLengthPrefixedSlice_short: "GetLengthPrefixedSlice input = Some (v, rest) \<Longrightarrow> short v"
proof -
  assume "GetLengthPrefixedSlice input = Some (v, rest)"
  then obtain len :: u32 and b where "v = take (unat len) b"
    by (auto simp: GetLengthPrefixedSlice_def split: option.splits if_splits)
  then show ?thesis
    using unsigned_less [where 'a = nat, of len] by (simp add: short_def)
qed

lemma get_varint [simp]:
  "GetVarint32 (EncodeVarint32 v @ rest) = Some (v, rest)" "GetVarint64 (EncodeVarint64 w @ rest) = Some (w, rest)"
  using varint32.get_put [of v rest] varint64.get_put [of w rest] by (simp_all add: PutVarint32_def PutVarint64_def)

lemma get_slice [simp]:
  "short v \<Longrightarrow> GetLengthPrefixedSlice (EncodeVarint32 (word_of_nat (length v)) @ v @ rest) = Some (v, rest)"
  by (simp add: GetLengthPrefixedSlice_def short_def unat_of_nat take_bit_nat_eq_self)

section \<open>Properties\<close>

text \<open>C40: Every integer written by one of the four \<open>Put\<close> routines is read back by the matching
  \<open>Get\<close> routine, which also leaves the slice exactly past the bytes that were written.\<close>

theorem coding_roundtrip:
  "GetFixed32 (PutFixed32 [] a @ r) = Some (a, r) \<and> GetFixed64 (PutFixed64 [] b @ r) = Some (b, r)
   \<and> GetVarint32 (PutVarint32 [] a @ r) = Some (a, r)
   \<and> GetVarint64 (PutVarint64 [] b @ r) = Some (b, r)"
  by (simp add: fixed32.get_put fixed64.get_put varint32.get_put varint64.get_put)

text \<open>The varint writers stay inside the buffers their callers provide (five and ten bytes),
  \<open>VarintLength\<close> predicts the length of the encoding, and the unrolled 32-bit writer and the
  64-bit loop produce the same bytes.\<close>

theorem varint_buffers:
  "length (EncodeVarint32 v) \<le> 5 \<and> length (EncodeVarint64 w) \<le> 10
   \<and> VarintLength w = length (EncodeVarint64 w) \<and> EncodeVarint64 (ucast v) = EncodeVarint32 v"
  by (intro conjI length_EncodeVarint VarintLength_eq)
    (simp only: EncodeVarint64_eq EncodeVarint32_eq unat_ucast_32_64)

text \<open>A length-prefixed string of less than 4 GiB is read back whole, whether it was appended
  as one slice or in parts.\<close>

theorem length_prefixed_roundtrip:
  assumes "length (concat parts) < 2 ^ 32"
  shows "GetLengthPrefixedSlice (PutLengthPrefixedSliceParts [] parts @ rest)
      = Some (concat parts, rest)"
  using assms by (simp add: PutLengthPrefixedSliceParts_eq slices.get_put)

theorem length_prefixed_roundtrip_witness:
  "GetLengthPrefixedSlice (PutLengthPrefixedSliceParts [] [[1, 2], [3]] @ [9]) = Some ([1, 2, 3], [9])"
  using length_prefixed_roundtrip[of "[[1, 2], [3]]" "[9]"] by simp

end
