(* ===== verification/Comparator.thy ===== *)
theory Comparator
  imports Coding
begin

text \<open>
  Key order (include/rocksdb/slice.h, util/comparator.cc): the bytewise comparator and its
  reverse, with the two routines that shorten keys for index blocks.  The locales
  \<open>comparator_order\<close> and \<open>comparator\<close> state what include/rocksdb/comparator.h asks of a comparator;
  the reverse comparator only satisfies the first.
\<close>

section \<open>Slices\<close>

text \<open>The C library only promises the sign of \<open>memcmp\<close>.\<close>

fun memcmp :: "bytes \<Rightarrow> bytes \<Rightarrow> nat \<Rightarrow> int" where
  "memcmp (a # as) (b # bs) (Suc n) = (if a < b then -1 else if b < a then 1 else memcmp as bs n)"
| "memcmp _ _ _ = 0"

definition Slice_compare :: "bytes \<Rightarrow> bytes \<Rightarrow> int" where
  "Slice_compare a b =
     (let min_len = (if length a < length b then length a else length b);
          r = memcmp a b min_len
      in if r = 0 then (if length a < length b then -1 else if length b < length a then 1 else r) else r)"

text \<open>The loop shared by \<open>difference_offset\<close> and \<open>FindShortestSeparator\<close>.\<close>

fun difference_offset :: "bytes \<Rightarrow> bytes \<Rightarrow> nat" where
  "difference_offset (a # as) (b # bs) = (if a = b then Suc (difference_offset as bs) else 0)"
| "difference_offset _ _ = 0"

section \<open>The bytewise comparator\<close>

definition BytewiseComparator_Compare :: "bytes \<Rightarrow> bytes \<Rightarrow> int" where
  "BytewiseComparator_Compare a b = Slice_compare a b"

definition BytewiseComparator_Equal :: "bytes \<Rightarrow> bytes \<Rightarrow> bool" where
  "BytewiseComparator_Equal a b \<longleftrightarrow> a = b"

text \<open>
  Looks for the first byte from \<open>i\<close> on that is not 0xff, increments it and cuts the string after
  it; the loop of both routines.
\<close>

function bump_from :: "bytes \<Rightarrow> nat \<Rightarrow> bytes" where
  "bump_from s i =
     (if i < length s then
        (if s ! i < 0xff then take (i + 1) (s[i := s ! i + 1]) else bump_from s (i + 1))
      else s)"
  by pat_completeness auto
termination
  by (relation "measure (\<lambda>(s, i). length s - i)") auto

declare bump_from.simps [simp del]

definition FindShortestSeparator :: "bytes \<Rightarrow> bytes \<Rightarrow> bytes" where
  "FindShortestSeparator start limit =
     (let min_length = min (length start) (length limit);
          diff_index = difference_offset start limit
      in if min_length \<le> diff_index then start
         else
           (let start_byte = start ! diff_index; limit_byte = limit ! diff_index
            in if limit_byte \<le> start_byte then start
               else if diff_index < length limit - 1 \<or> unat start_byte + 1 < unat limit_byte
               then take (diff_index + 1) (start[diff_index := start ! diff_index + 1])
               else bump_from start (diff_index + 1)))"

definition FindShortSuccessor :: "bytes \<Rightarrow> bytes" where
  "FindShortSuccessor key = bump_from key 0"

definition ReverseBytewiseComparator_Compare :: "bytes \<Rightarrow> bytes \<Rightarrow> int" where
  "ReverseBytewiseComparator_Compare a b = - Slice_compare a b"

section \<open>What a comparator promises\<close>

text \<open>
  The order and the separator on the keys that satisfy \<open>valid\<close>.  The last law covers equal keys,
  about which the interface says nothing: a separator must not be greater than its start then.
\<close>

locale comparator_order =
  fixes valid :: "bytes \<Rightarrow> bool" and Compare :: "bytes \<Rightarrow> bytes \<Rightarrow> int"
    and Separator :: "bytes \<Rightarrow> bytes \<Rightarrow> bytes" and Successor :: "bytes \<Rightarrow> bytes"
  assumes Compare_refl: "valid a \<Longrightarrow> Compare a a = 0"
    and Compare_flip: "valid a \<Longrightarrow> valid b \<Longrightarrow> Compare a b < 0 \<longleftrightarrow> 0 < Compare b a"
    and Compare_trans: "valid a \<Longrightarrow> valid b \<Longrightarrow> valid c \<Longrightarrow> Compare a b \<le> 0 \<Longrightarrow> Compare b c \<le> 0 \<Longrightarrow> Compare a c \<le> 0"
    and Separator_between: "valid s \<Longrightarrow> valid l \<Longrightarrow> Compare s l < 0 \<Longrightarrow>
      Compare s (Separator s l) \<le> 0 \<and> Compare (Separator s l) l < 0"
    and Separator_equal: "valid s \<Longrightarrow> valid l \<Longrightarrow> Compare s l = 0 \<Longrightarrow> \<not> Compare s (Separator s l) < 0"
    and Successor_valid: "valid k \<Longrightarrow> valid (Successor k)"
    and Separator_valid: "valid s \<Longrightarrow> valid l \<Longrightarrow> valid (Separator s l)"
begin

lemma Compare_zero_sym: "valid a \<Longrightarrow> valid b \<Longrightarrow> Compare a b = 0 \<longleftrightarrow> Compare b a = 0"
  using Compare_flip [of a b] Compare_flip [of b a] by linarith

lemma Compare_less_trans:
  assumes "valid a" "valid b" "valid c" "Compare a b < 0" "Compare b c \<le> 0"
  shows "Compare a c < 0"
proof (rule ccontr)
  assume "\<not> Compare a c < 0"
  then have "Compare c a \<le> 0"
    using Compare_flip assms(1,3) by (metis linorder_not_less)
  then have "Compare b a \<le> 0"
    using Compare_trans [OF assms(2,3,1,5)] by simp
  then show False
    using Compare_flip [OF assms(1,2)] assms(4) by simp
qed

lemma Compare_le_less_trans:
  assumes "valid a" "valid b" "valid c" "Compare a b \<le> 0" "Compare b c < 0"
  shows "Compare a c < 0"
proof (rule ccontr)
  assume "\<not> Compare a c < 0"
  then have "Compare c a \<le> 0"
    using Compare_flip assms(1,3) by (metis linorder_not_less)
  then have "Compare c b \<le> 0"
    using Compare_trans [OF assms(3,1,2)] assms(4) by simp
  then show False
    using Compare_flip [OF assms(2,3)] assms(5) by simp
qed

end

locale comparator = comparator_order +
  assumes Successor_ge: "valid k \<Longrightarrow> Compare k (Successor k) \<le> 0"

section \<open>The lexicographic order\<close>

fun lex_compare :: "bytes \<Rightarrow> bytes \<Rightarrow> int" where
  "lex_compare [] [] = 0"
| "lex_compare [] (b # bs) = -1"
| "lex_compare (a # as) [] = 1"
| "lex_compare (a # as) (b # bs) = (if a < b then -1 else if b < a then 1 else lex_compare as bs)"

lemma Slice_compare_Cons:
  "Slice_compare (a # as) (b # bs) = (if a < b then -1 else if b < a then 1 else Slice_compare as bs)"
  by (simp add: Slice_compare_def Let_def)

lemma Slice_compare_lex: "Slice_compare a b = lex_compare a b"
proof (induction a b rule: lex_compare.induct)
  case (4 a as b bs)
  then show ?case
    by (auto simp: Slice_compare_Cons)
qed (simp_all add: Slice_compare_def)

lemma lex_compare_refl [simp]: "lex_compare a a = 0"
  by (induction a) auto

lemma lex_compare_zero: "lex_compare a b = 0 \<longleftrightarrow> a = b"
  by (induction a b rule: lex_compare.induct) auto

lemma lex_compare_flip: "lex_compare b a = - lex_compare a b"
  by (induction a b rule: lex_compare.induct) auto

lemma lex_compare_trans: "lex_compare a b \<le> 0 \<Longrightarrow> lex_compare b c \<le> 0 \<Longrightarrow> lex_compare a c \<le> 0"
proof (induction a b arbitrary: c rule: lex_compare.induct)
  case (2 b bs)
  then show ?case by (cases c) auto
next
  case (4 a as b bs)
  then show ?case by (cases c) (auto split: if_splits)
next
  case 1
  then show ?case by (cases c) auto
qed auto

lemma lex_compare_append [simp]: "lex_compare (p @ a) (p @ b) = lex_compare a b"
  by (induction p) auto

lemma lex_compare_prefix: "lex_compare a (a @ b) \<le> 0"
  by (induction a) (cases b; simp)+

lemma difference_offset_le: "difference_offset a b \<le> length a" "difference_offset a b \<le> length b"
  by (induction a b rule: difference_offset.induct) auto

lemma difference_offset_take:
  "take (difference_offset a b) a = take (difference_offset a b) b"
  by (induction a b rule: difference_offset.induct) auto

lemma difference_offset_differ:
  "difference_offset a b < length a \<Longrightarrow> difference_offset a b < length b \<Longrightarrow>
     a ! difference_offset a b \<noteq> b ! difference_offset a b"
  by (induction a b rule: difference_offset.induct) auto

lemma byte_plus_1: "x < 0xff \<Longrightarrow> x < x + 1 \<and> unat (x + 1) = unat x + 1" for x :: byte
proof -
  assume "x < 0xff"
  then have "unat x < 255"
    by (simp add: word_less_nat_alt)
  then have "unat (x + 1) = unat x + 1"
    by (simp add: unat_word_ariths)
  then show ?thesis
    by (simp add: word_less_nat_alt)
qed

lemma bump_at:
  assumes "i < length s" and "s ! i < 0xff"
  shows "lex_compare s (take (i + 1) (s[i := s ! i + 1])) = -1"
proof -
  have "take (i + 1) (s[i := s ! i + 1]) = take i s @ [s ! i + 1]"
    using assms(1) by (simp add: take_Suc_conv_app_nth)
  moreover have "s = take i s @ s ! i # drop (Suc i) s"
    using assms(1) by (simp add: id_take_nth_drop)
  moreover have "lex_compare (take i s @ s ! i # drop (Suc i) s) (take i s @ [s ! i + 1]) = -1"
    using byte_plus_1 [OF assms(2)] by simp
  ultimately show ?thesis
    by metis
qed

lemma bump_from_ge: "lex_compare s (bump_from s i) \<le> 0 \<and> length (bump_from s i) \<le> length s"
proof (induction s i rule: bump_from.induct)
  case (1 s i)
  then show ?case
    using bump_at [of i s] by (simp add: bump_from.simps [of s i])
qed

lemma bump_from_prefix: "i \<le> length s \<Longrightarrow> take i (bump_from s i) = take i s"
proof (induction s i rule: bump_from.induct)
  case (1 s i)
  show ?case
  proof (cases "i < length s \<and> \<not> s ! i < 0xff")
    case True
    then have "take (i + 1) (bump_from s (i + 1)) = take (i + 1) s"
      using 1 by simp
    then have "take i (bump_from s (i + 1)) = take i s"
      by (metis le_add1 min.absorb1 take_take)
    then show ?thesis
      using True by (simp add: bump_from.simps [of s i])
  next
    case False
    then show ?thesis
      by (auto simp: bump_from.simps [of s i])
  qed
qed

text \<open>Two strings that agree before \<open>d\<close> and differ there are ordered by the byte at \<open>d\<close>.\<close>

lemma lex_compare_at:
  assumes "take d a = take d b" and "d < length a" and "d < length b" and "a ! d < b ! d"
  shows "lex_compare a b = -1"
proof -
  have "lex_compare (take d a @ a ! d # drop (Suc d) a) (take d a @ b ! d # drop (Suc d) b) = -1"
    using assms(4) by simp
  then show ?thesis
    by (metis assms(1-3) id_take_nth_drop)
qed

lemma lex_compare_at_less:
  assumes "take d a = take d b" and "d < length a" and "d < length b" and "lex_compare a b < 0"
    and "a ! d \<noteq> b ! d"
  shows "a ! d < b ! d"
proof (rule ccontr)
  assume "\<not> a ! d < b ! d"
  then have "lex_compare b a = -1"
    using lex_compare_at [of d b a] assms by force
  then show False
    using assms(4) lex_compare_flip [of a b] by simp
qed

lemma FindShortestSeparator_between:
  assumes "lex_compare s l < 0"
  shows "lex_compare s (FindShortestSeparator s l) \<le> 0 \<and> lex_compare (FindShortestSeparator s l) l < 0
    \<and> length (FindShortestSeparator s l) \<le> length s"
proof (cases "min (length s) (length l) \<le> difference_offset s l")
  case True
  then show ?thesis
    using assms by (simp add: FindShortestSeparator_def)
next
  case False
  define d where "d = difference_offset s l"
  have d: "d < length s" "d < length l" "take d s = take d l" "s ! d \<noteq> l ! d"
    using False difference_offset_take [of s l] difference_offset_differ [of s l] by (auto simp: d_def)
  have less: "s ! d < l ! d"
    using lex_compare_at_less d assms by blast
  have byte: "s ! d < 0xff"
    using less unsigned_less [where 'a = nat, of "l ! d"] by (simp add: word_less_nat_alt)
  let ?cut = "take (d + 1) (s[d := s ! d + 1])"
  have cut: "?cut = take d s @ [s ! d + 1]"
    using d(1) by (simp add: take_Suc_conv_app_nth)
  have sep: "FindShortestSeparator s l =
      (if d < length l - 1 \<or> unat (s ! d) + 1 < unat (l ! d) then ?cut else bump_from s (d + 1))"
    using False less by (simp add: FindShortestSeparator_def Let_def d_def flip: linorder_not_le)
  show ?thesis
  proof (cases "d < length l - 1 \<or> unat (s ! d) + 1 < unat (l ! d)")
    case True
    have "lex_compare ?cut l < 0"
    proof (cases "unat (s ! d) + 1 < unat (l ! d)")
      case True
      then have "s ! d + 1 < l ! d"
        using byte_plus_1 [OF byte] by (simp add: word_less_nat_alt)
      then show ?thesis
        using lex_compare_at [of d ?cut l] d by (simp add: cut nth_append)
    next
      case False
      then have "s ! d + 1 = l ! d" "d < length l - 1"
        using True less byte_plus_1 [OF byte] by (auto simp: word_less_nat_alt word_unat_eq_iff)
      then have "?cut = take (Suc d) l" "drop (Suc d) l \<noteq> []"
        using d by (auto simp: cut take_Suc_conv_app_nth)
      then have "lex_compare ?cut l \<le> 0" "?cut \<noteq> l"
        using lex_compare_prefix [of "take (Suc d) l" "drop (Suc d) l"] by auto
      then show ?thesis
        using lex_compare_zero [of ?cut l] by linarith
    qed
    then show ?thesis
      using True bump_at [OF d(1) byte] d(1) by (simp add: sep)
  next
    case False
    let ?b = "bump_from s (d + 1)"
    have t: "take (d + 1) ?b = take (d + 1) s"
      using bump_from_prefix d(1) by simp
    have "take d ?b = take d s" "d < length ?b" "?b ! d = s ! d"
      using arg_cong [OF t, of "take d"] arg_cong [OF t, of length] arg_cong [OF t, of "\<lambda>x. x ! d"] d(1)
      by simp_all
    then have "lex_compare ?b l = -1"
      using lex_compare_at [of d ?b l] d less by simp
    then show ?thesis
      using False bump_from_ge [of s "d + 1"] by (simp add: sep)
  qed
qed

lemma FindShortestSeparator_same: "FindShortestSeparator s s = s"
proof -
  have "difference_offset s s = length s"
    by (induction s) auto
  then show ?thesis
    by (simp add: FindShortestSeparator_def)
qed

lemma FindShortestSeparator_noop:
  assumes "0 < lex_compare s l"
  shows "FindShortestSeparator s l = s"
proof (cases "min (length s) (length l) \<le> difference_offset s l")
  case False
  define d where "d = difference_offset s l"
  have d: "d < length s" "d < length l" "take d s = take d l" "s ! d \<noteq> l ! d"
    using False difference_offset_take [of s l] difference_offset_differ [of s l] by (auto simp: d_def)
  have "l ! d < s ! d"
    using lex_compare_at_less [of d l s] d assms lex_compare_flip [of s l] by simp
  then show ?thesis
    using False by (simp add: FindShortestSeparator_def Let_def d_def less_imp_le)
qed (simp add: FindShortestSeparator_def)

section \<open>The comparators of the library\<close>

lemmas comparator_defs = BytewiseComparator_Compare_def ReverseBytewiseComparator_Compare_def
  Slice_compare_lex lex_compare_zero

interpretation bytewise: comparator "\<lambda>_. True" BytewiseComparator_Compare FindShortestSeparator FindShortSuccessor
proof unfold_locales
  show "BytewiseComparator_Compare a c \<le> 0"
    if "BytewiseComparator_Compare a b \<le> 0" "BytewiseComparator_Compare b c \<le> 0" for a b c
    using that lex_compare_trans by (auto simp: comparator_defs)
  show "BytewiseComparator_Compare a b < 0 \<longleftrightarrow> 0 < BytewiseComparator_Compare b a" for a b
    using lex_compare_flip [of a b] by (simp add: comparator_defs)
  show "BytewiseComparator_Compare k (FindShortSuccessor k) \<le> 0" for k
    using bump_from_ge [of k 0] by (simp add: comparator_defs FindShortSuccessor_def)
qed (use FindShortestSeparator_between FindShortestSeparator_same in \<open>auto simp: comparator_defs\<close>)

interpretation reverse_bytewise: comparator_order "\<lambda>_. True" ReverseBytewiseComparator_Compare FindShortestSeparator
  FindShortSuccessor
proof unfold_locales
  show "ReverseBytewiseComparator_Compare a c \<le> 0"
    if "ReverseBytewiseComparator_Compare a b \<le> 0" "ReverseBytewiseComparator_Compare b c \<le> 0" for a b c
    using that lex_compare_trans [of c b a] lex_compare_flip [of a b] lex_compare_flip [of b c]
      lex_compare_flip [of a c] by (simp add: comparator_defs)
  show "ReverseBytewiseComparator_Compare a b < 0 \<longleftrightarrow> 0 < ReverseBytewiseComparator_Compare b a" for a b
    using lex_compare_flip [of a b] by (simp add: comparator_defs)
qed (use FindShortestSeparator_noop FindShortestSeparator_same in \<open>auto simp: comparator_defs\<close>)

text \<open>
  C38: The bytewise comparator is a total order on keys that agrees with equality, its separator of two
  keys lies between them (from the first, inclusive, to the second) and is no longer than the
  first, and its successor is not smaller than the key and no longer.
\<close>
theorem BytewiseComparator_correct:
  "(BytewiseComparator_Compare a b = 0 \<longleftrightarrow> BytewiseComparator_Equal a b)
   \<and> (BytewiseComparator_Compare a b < 0 \<longleftrightarrow> 0 < BytewiseComparator_Compare b a)
   \<and> (BytewiseComparator_Compare a b \<le> 0 \<and> BytewiseComparator_Compare b c \<le> 0
        \<longrightarrow> BytewiseComparator_Compare a c \<le> 0)
   \<and> (BytewiseComparator_Compare a b < 0 \<longrightarrow>
        BytewiseComparator_Compare a (FindShortestSeparator a b) \<le> 0
        \<and> BytewiseComparator_Compare (FindShortestSeparator a b) b < 0
        \<and> length (FindShortestSeparator a b) \<le> length a)
   \<and> BytewiseComparator_Compare a (FindShortSuccessor a) \<le> 0
   \<and> length (FindShortSuccessor a) \<le> length a"
  using bytewise.Compare_flip [of a b] bytewise.Compare_trans [of a b c] bytewise.Successor_ge [of a]
    FindShortestSeparator_between [of a b] bump_from_ge [of a 0]
  by (auto simp: comparator_defs BytewiseComparator_Equal_def FindShortSuccessor_def)

theorem BytewiseComparator_correct_witness:
  "BytewiseComparator_Compare [1, 2, 3] (FindShortestSeparator [1, 2, 3] [1, 9]) \<le> 0
   \<and> BytewiseComparator_Compare (FindShortestSeparator [1, 2, 3] [1, 9]) [1, 9] < 0"
proof -
  have "BytewiseComparator_Compare [1, 2, 3] [1, 9] < 0"
    by (simp add: comparator_defs)
  with BytewiseComparator_correct [of "[1, 2, 3]" "[1, 9]" "[]"] show ?thesis
    by simp
qed

text \<open>
  C39: \<open>ReverseBytewiseComparator\<close> inherits \<open>FindShortSuccessor\<close> from the bytewise comparator: for every
  key that has a byte below 0xff the result comes strictly before the key in its own order.
\<close>
theorem Reverse_FindShortSuccessor_wrong:
  assumes "\<exists>x\<in>set k. x < 0xff"
  shows "ReverseBytewiseComparator_Compare (FindShortSuccessor k) k < 0"
proof -
  have "lex_compare k (bump_from k i) < 0" if "\<exists>j. i \<le> j \<and> j < length k \<and> k ! j < 0xff" for i
    using that
  proof (induction k i rule: bump_from.induct)
    case (1 s i)
    then show ?case
    proof (cases "s ! i < 0xff")
      case False
      then have "\<exists>j. i + 1 \<le> j \<and> j < length s \<and> s ! j < 0xff"
        using 1(2) by (metis Suc_eq_plus1 le_antisym not_less_eq_eq)
      then show ?thesis
        using 1 False by (auto simp: bump_from.simps [of s i])
    qed (use bump_at [of i s] in \<open>auto simp: bump_from.simps [of s i]\<close>)
  qed
  moreover have "\<exists>j. 0 \<le> j \<and> j < length k \<and> k ! j < 0xff"
    using assms by (auto simp: in_set_conv_nth)
  ultimately have "lex_compare k (bump_from k 0) < 0"
    by blast
  then show ?thesis
    using lex_compare_flip [of k "bump_from k 0"] by (simp add: comparator_defs FindShortSuccessor_def)
qed

theorem Reverse_FindShortSuccessor_wrong_witness:
  "ReverseBytewiseComparator_Compare (FindShortSuccessor [97, 98]) [97, 98] < 0"
  by (rule Reverse_FindShortSuccessor_wrong) simp

end
