(* ===== verification/Dbformat.thy ===== *)
theory Dbformat
  imports Comparator
begin

text \<open>
  Internal keys (db/dbformat.h, db/dbformat.cc): a user key followed by eight bytes that pack a
  sequence number and a value type, their order, lookup keys, range tombstones, and the key buffer
  \<open>IterKey\<close> of the iterators.  The internal-key order over any user comparator is again a
  comparator, proved once in the locale \<open>comparator_order\<close>.
\<close>

section \<open>Value types\<close>

text \<open>The enumeration over \<open>unsigned char\<close>; a cast from a byte may give a value without a name.\<close>

type_synonym ValueType = byte

abbreviation kTypeDeletion :: ValueType where "kTypeDeletion \<equiv> 0x0"
abbreviation kTypeValue :: ValueType where "kTypeValue \<equiv> 0x1"
abbreviation kTypeMerge :: ValueType where "kTypeMerge \<equiv> 0x2"
abbreviation kTypeLogData :: ValueType where "kTypeLogData \<equiv> 0x3"
abbreviation kTypeColumnFamilyDeletion :: ValueType where "kTypeColumnFamilyDeletion \<equiv> 0x4"
abbreviation kTypeColumnFamilyValue :: ValueType where "kTypeColumnFamilyValue \<equiv> 0x5"
abbreviation kTypeColumnFamilyMerge :: ValueType where "kTypeColumnFamilyMerge \<equiv> 0x6"
abbreviation kTypeSingleDeletion :: ValueType where "kTypeSingleDeletion \<equiv> 0x7"
abbreviation kTypeColumnFamilySingleDeletion :: ValueType where "kTypeColumnFamilySingleDeletion \<equiv> 0x8"
abbreviation kTypeBeginPrepareXID :: ValueType where "kTypeBeginPrepareXID \<equiv> 0x9"
abbreviation kTypeEndPrepareXID :: ValueType where "kTypeEndPrepareXID \<equiv> 0xA"
abbreviation kTypeCommitXID :: ValueType where "kTypeCommitXID \<equiv> 0xB"
abbreviation kTypeRollbackXID :: ValueType where "kTypeRollbackXID \<equiv> 0xC"
abbreviation kTypeNoop :: ValueType where "kTypeNoop \<equiv> 0xD"
abbreviation kTypeColumnFamilyRangeDeletion :: ValueType where "kTypeColumnFamilyRangeDeletion \<equiv> 0xE"
abbreviation kTypeRangeDeletion :: ValueType where "kTypeRangeDeletion \<equiv> 0xF"
abbreviation kMaxValue :: ValueType where "kMaxValue \<equiv> 0x7F"

abbreviation kValueTypeForSeek :: ValueType where "kValueTypeForSeek \<equiv> kTypeSingleDeletion"
abbreviation kValueTypeForSeekForPrev :: ValueType where "kValueTypeForSeekForPrev \<equiv> kTypeDeletion"

definition IsValueType :: "ValueType \<Rightarrow> bool" where
  "IsValueType t \<longleftrightarrow> t \<le> kTypeMerge \<or> t = kTypeSingleDeletion"

definition IsExtendedValueType :: "ValueType \<Rightarrow> bool" where
  "IsExtendedValueType t \<longleftrightarrow> IsValueType t \<or> t = kTypeRangeDeletion"

definition kMaxSequenceNumber :: u64 where
  "kMaxSequenceNumber = push_bit 56 1 - 1"

section \<open>Internal keys\<close>

record ParsedInternalKey =
  user_key :: bytes
  sequence :: u64
  value_type :: ValueType

definition InternalKeyEncodingLength :: "ParsedInternalKey \<Rightarrow> nat" where
  "InternalKeyEncodingLength key = length (user_key key) + 8"

definition PackSequenceAndType :: "u64 \<Rightarrow> ValueType \<Rightarrow> u64" where
  "PackSequenceAndType seq t = push_bit 8 seq OR ucast t"

definition UnPackSequenceAndType :: "u64 \<Rightarrow> u64 \<times> ValueType" where
  "UnPackSequenceAndType packed = (drop_bit 8 packed, ucast (packed AND 0xff))"

definition AppendInternalKey :: "bytes \<Rightarrow> ParsedInternalKey \<Rightarrow> bytes" where
  "AppendInternalKey result key =
     PutFixed64 (result @ user_key key) (PackSequenceAndType (sequence key) (value_type key))"

definition AppendInternalKeyFooter :: "bytes \<Rightarrow> u64 \<Rightarrow> ValueType \<Rightarrow> bytes" where
  "AppendInternalKeyFooter result s t = PutFixed64 result (PackSequenceAndType s t)"

text \<open>The last eight bytes as a number; the routines below assert or check that there are eight.\<close>

definition internal_key_num :: "bytes \<Rightarrow> u64" where
  "internal_key_num internal_key = DecodeFixed64 (drop (length internal_key - 8) internal_key)"

definition ExtractUserKey :: "bytes \<Rightarrow> bytes" where
  "ExtractUserKey internal_key = take (length internal_key - 8) internal_key"

definition ExtractValueType :: "bytes \<Rightarrow> ValueType" where
  "ExtractValueType internal_key = ucast (internal_key_num internal_key AND 0xff)"

definition GetInternalKeySeqno :: "bytes \<Rightarrow> u64" where
  "GetInternalKeySeqno internal_key = drop_bit 8 (internal_key_num internal_key)"

definition ParseInternalKey :: "bytes \<Rightarrow> ParsedInternalKey option" where
  "ParseInternalKey internal_key =
     (let n = length internal_key
      in if n < 8 then None
         else
           (let num = internal_key_num internal_key;
                result = \<lparr>user_key = take (n - 8) internal_key, sequence = drop_bit 8 num,
                          value_type = ucast (num AND 0xff)\<rparr>
            in if IsExtendedValueType (value_type result) then Some result else None))"

definition UpdateInternalKey :: "bytes \<Rightarrow> u64 \<Rightarrow> ValueType \<Rightarrow> bytes" where
  "UpdateInternalKey ikey seq t =
     take (length ikey - 8) ikey @ EncodeFixed64 (push_bit 8 seq OR ucast t)"

text \<open>The class \<open>InternalKey\<close> by its string \<open>rep_\<close>.\<close>

definition InternalKey :: "bytes \<Rightarrow> u64 \<Rightarrow> ValueType \<Rightarrow> bytes" where
  "InternalKey u s t = AppendInternalKey [] \<lparr>user_key = u, sequence = s, value_type = t\<rparr>"

definition SetMaxPossibleForUserKey :: "bytes \<Rightarrow> bytes \<Rightarrow> bytes" where
  "SetMaxPossibleForUserKey rep u =
     AppendInternalKey rep \<lparr>user_key = u, sequence = kMaxSequenceNumber, value_type = kValueTypeForSeek\<rparr>"

definition SetMinPossibleForUserKey :: "bytes \<Rightarrow> bytes \<Rightarrow> bytes" where
  "SetMinPossibleForUserKey rep u =
     AppendInternalKey rep \<lparr>user_key = u, sequence = 0, value_type = 0\<rparr>"

definition InternalKey_Valid :: "bytes \<Rightarrow> bool" where
  "InternalKey_Valid rep \<longleftrightarrow> ParseInternalKey rep \<noteq> None"

definition ConvertFromUserKey :: "bytes \<Rightarrow> u64 \<Rightarrow> ValueType \<Rightarrow> bytes" where
  "ConvertFromUserKey rep s t = AppendInternalKeyFooter rep s t"

section \<open>The internal-key comparator\<close>

definition InternalKeyComparator_Compare :: "(bytes \<Rightarrow> bytes \<Rightarrow> int) \<Rightarrow> bytes \<Rightarrow> bytes \<Rightarrow> int" where
  "InternalKeyComparator_Compare user_Compare akey bkey =
     (let r = user_Compare (ExtractUserKey akey) (ExtractUserKey bkey)
      in if r = 0 then
           (let anum = internal_key_num akey; bnum = internal_key_num bkey
            in if bnum < anum then -1 else if anum < bnum then 1 else r)
         else r)"

definition InternalKeyComparator_CompareParsed ::
    "(bytes \<Rightarrow> bytes \<Rightarrow> int) \<Rightarrow> ParsedInternalKey \<Rightarrow> ParsedInternalKey \<Rightarrow> int" where
  "InternalKeyComparator_CompareParsed user_Compare a b =
     (let r = user_Compare (user_key a) (user_key b)
      in if r = 0 then
           (if sequence b < sequence a then -1
            else if sequence a < sequence b then 1
            else if value_type b < value_type a then -1
            else if value_type a < value_type b then 1
            else r)
         else r)"

definition InternalKeyComparator_FindShortestSeparator ::
    "(bytes \<Rightarrow> bytes \<Rightarrow> int) \<Rightarrow> (bytes \<Rightarrow> bytes \<Rightarrow> bytes) \<Rightarrow> bytes \<Rightarrow> bytes \<Rightarrow> bytes" where
  "InternalKeyComparator_FindShortestSeparator user_Compare user_Separator start limit =
     (let user_start = ExtractUserKey start; user_limit = ExtractUserKey limit;
          tmp = user_Separator user_start user_limit
      in if length tmp \<le> length user_start \<and> user_Compare user_start tmp < 0
         then PutFixed64 tmp (PackSequenceAndType kMaxSequenceNumber kValueTypeForSeek)
         else start)"

definition InternalKeyComparator_FindShortSuccessor ::
    "(bytes \<Rightarrow> bytes \<Rightarrow> int) \<Rightarrow> (bytes \<Rightarrow> bytes) \<Rightarrow> bytes \<Rightarrow> bytes" where
  "InternalKeyComparator_FindShortSuccessor user_Compare user_Successor key =
     (let user_k = ExtractUserKey key; tmp = user_Successor user_k
      in if length tmp \<le> length user_k \<and> user_Compare user_k tmp < 0
         then PutFixed64 tmp (PackSequenceAndType kMaxSequenceNumber kValueTypeForSeek)
         else key)"

section \<open>Lookup keys and range tombstones\<close>

text \<open>The array a \<open>LookupKey\<close> builds, and where the internal key starts in it.\<close>

record LookupKey =
  lk_start :: bytes
  kstart :: nat

definition new_LookupKey :: "bytes \<Rightarrow> u64 \<Rightarrow> LookupKey" where
  "new_LookupKey u s =
     (let len = EncodeVarint32 (word_of_nat (length u + 8))
      in \<lparr>lk_start = len @ u @ EncodeFixed64 (PackSequenceAndType s kValueTypeForSeek),
          kstart = length len\<rparr>)"

definition memtable_key :: "LookupKey \<Rightarrow> bytes" where
  "memtable_key k = lk_start k"

definition lookup_internal_key :: "LookupKey \<Rightarrow> bytes" where
  "lookup_internal_key k = drop (kstart k) (lk_start k)"

definition lookup_user_key :: "LookupKey \<Rightarrow> bytes" where
  "lookup_user_key k = take (length (lk_start k) - kstart k - 8) (drop (kstart k) (lk_start k))"

record RangeTombstone =
  start_key :: bytes
  end_key :: bytes
  tombstone_seq :: u64

definition RangeTombstone_of :: "ParsedInternalKey \<Rightarrow> bytes \<Rightarrow> RangeTombstone" where
  "RangeTombstone_of parsed_key value =
     \<lparr>start_key = user_key parsed_key, end_key = value, tombstone_seq = sequence parsed_key\<rparr>"

definition RangeTombstone_Serialize :: "RangeTombstone \<Rightarrow> bytes \<times> bytes" where
  "RangeTombstone_Serialize r = (InternalKey (start_key r) (tombstone_seq r) kTypeRangeDeletion, end_key r)"

definition SerializeEndKey :: "RangeTombstone \<Rightarrow> bytes" where
  "SerializeEndKey r = InternalKey (end_key r) (tombstone_seq r) kTypeRangeDeletion"

section \<open>The key buffer of an iterator\<close>

text \<open>
  An \<open>IterKey\<close> keeps its key in its own buffer or points to memory of somebody else.  The buffer is
  \<open>ik_buf\<close>, of length \<open>buf_size_\<close>; bytes of a new buffer that have not been written are zero here.
\<close>

datatype key_place = InBuf | Pinned bytes

record IterKey =
  ik_buf :: bytes
  ik_key :: key_place
  key_size :: nat
  is_user_key :: bool

definition memcpy :: "bytes \<Rightarrow> nat \<Rightarrow> bytes \<Rightarrow> bytes" where
  "memcpy dst off src = take off dst @ src @ drop (off + length src) dst"

definition new_IterKey :: IterKey where
  "new_IterKey = \<lparr>ik_buf = replicate 32 0, ik_key = InBuf, key_size = 0, is_user_key = True\<rparr>"

definition IterKey_data :: "IterKey \<Rightarrow> bytes" where
  "IterKey_data k = (case ik_key k of InBuf \<Rightarrow> ik_buf k | Pinned b \<Rightarrow> b)"

definition GetInternalKey :: "IterKey \<Rightarrow> bytes" where
  "GetInternalKey k = take (key_size k) (IterKey_data k)"

definition GetUserKey :: "IterKey \<Rightarrow> bytes" where
  "GetUserKey k =
     (if is_user_key k then take (key_size k) (IterKey_data k)
      else take (key_size k - 8) (IterKey_data k))"

definition IsKeyPinned :: "IterKey \<Rightarrow> bool" where
  "IsKeyPinned k \<longleftrightarrow> ik_key k \<noteq> InBuf"

definition ResetBuffer :: "IterKey \<Rightarrow> IterKey" where
  "ResetBuffer k = k\<lparr>ik_buf := replicate 32 0, key_size := 0\<rparr>"

definition EnlargeBufferIfNeeded :: "nat \<Rightarrow> IterKey \<Rightarrow> IterKey" where
  "EnlargeBufferIfNeeded n k =
     (if length (ik_buf k) < n then (ResetBuffer k)\<lparr>ik_buf := replicate n 0\<rparr> else k)"

definition TrimAppend :: "nat \<Rightarrow> bytes \<Rightarrow> nat \<Rightarrow> IterKey \<Rightarrow> IterKey" where
  "TrimAppend shared_len non_shared_data non_shared_len k =
     (let total_size = shared_len + non_shared_len;
          k = (if IsKeyPinned k then
                 (let k' = EnlargeBufferIfNeeded total_size k
                  in k'\<lparr>ik_buf := memcpy (ik_buf k') 0 (take shared_len (IterKey_data k))\<rparr>)
               else if length (ik_buf k) < total_size then
                 k\<lparr>ik_buf := memcpy (replicate total_size 0) 0 (take shared_len (IterKey_data k))\<rparr>
               else k)
      in k\<lparr>ik_buf := memcpy (ik_buf k) shared_len (take non_shared_len non_shared_data),
           ik_key := InBuf, key_size := total_size\<rparr>)"

definition SetKeyImpl :: "bytes \<Rightarrow> bool \<Rightarrow> IterKey \<Rightarrow> IterKey" where
  "SetKeyImpl key copy k =
     (if copy then
        (let k = EnlargeBufferIfNeeded (length key) k
         in k\<lparr>ik_buf := memcpy (ik_buf k) 0 key, ik_key := InBuf, key_size := length key\<rparr>)
      else k\<lparr>ik_key := Pinned key, key_size := length key\<rparr>)"

definition SetUserKey :: "bytes \<Rightarrow> bool \<Rightarrow> IterKey \<Rightarrow> IterKey" where
  "SetUserKey key copy k = SetKeyImpl key copy (k\<lparr>is_user_key := True\<rparr>)"

definition SetInternalKey :: "bytes \<Rightarrow> bool \<Rightarrow> IterKey \<Rightarrow> IterKey" where
  "SetInternalKey key copy k = SetKeyImpl key copy (k\<lparr>is_user_key := False\<rparr>)"

definition Reserve :: "nat \<Rightarrow> IterKey \<Rightarrow> IterKey" where
  "Reserve n k = (EnlargeBufferIfNeeded n k)\<lparr>key_size := n\<rparr>"

definition OwnKey :: "IterKey \<Rightarrow> IterKey" where
  "OwnKey k =
     (let key = take (key_size k) (IterKey_data k); k = Reserve (key_size k) k
      in k\<lparr>ik_buf := memcpy (ik_buf k) 0 key, ik_key := InBuf\<rparr>)"

definition IterKey_UpdateInternalKey :: "u64 \<Rightarrow> ValueType \<Rightarrow> IterKey \<Rightarrow> IterKey" where
  "IterKey_UpdateInternalKey seq t k =
     k\<lparr>ik_buf := memcpy (ik_buf k) (key_size k - 8) (EncodeFixed64 (push_bit 8 seq OR ucast t))\<rparr>"

definition SetInternalKeyPrefixed :: "bytes \<Rightarrow> bytes \<Rightarrow> u64 \<Rightarrow> ValueType \<Rightarrow> IterKey \<Rightarrow> IterKey" where
  "SetInternalKeyPrefixed key_prefix u s t k =
     (let psize = length key_prefix; usize = length u;
          k = EnlargeBufferIfNeeded (psize + usize + 8) k;
          buf = (if 0 < psize then memcpy (ik_buf k) 0 key_prefix else ik_buf k);
          buf = memcpy buf psize u;
          buf = memcpy buf (usize + psize) (EncodeFixed64 (PackSequenceAndType s t))
      in k\<lparr>ik_buf := buf, ik_key := InBuf, key_size := psize + usize + 8, is_user_key := False\<rparr>)"

definition EncodeLengthPrefixedKey :: "bytes \<Rightarrow> IterKey \<Rightarrow> IterKey" where
  "EncodeLengthPrefixedKey key k =
     (let k = EnlargeBufferIfNeeded (length key + VarintLength (word_of_nat (length key))) k;
          len = EncodeVarint32 (word_of_nat (length key))
      in k\<lparr>ik_buf := memcpy (memcpy (ik_buf k) 0 len) (length len) key, ik_key := InBuf,
           is_user_key := True\<rparr>)"

definition IterKey_inv :: "IterKey \<Rightarrow> bool" where
  "IterKey_inv k \<longleftrightarrow> 32 \<le> length (ik_buf k)
     \<and> (case ik_key k of InBuf \<Rightarrow> key_size k \<le> length (ik_buf k) | Pinned b \<Rightarrow> key_size k = length b)"

section \<open>Packing\<close>

lemma Pack_split: "PackSequenceAndType (drop_bit 8 num) (ucast num) = num"
  by (rule bit_word_eqI) (auto simp: PackSequenceAndType_def bit_simps)

lemma ucast_Pack [simp]: "(ucast (PackSequenceAndType seq t) :: byte) = t"
  by (rule bit_word_eqI) (auto simp: PackSequenceAndType_def bit_simps)

lemma kMaxSequenceNumber_eq: "unat kMaxSequenceNumber = 2 ^ 56 - 1"
  by (simp add: kMaxSequenceNumber_def)

lemma seq_bound: "seq \<le> kMaxSequenceNumber \<longleftrightarrow> unat seq < 2 ^ 56" for seq :: u64
  by (simp add: word_le_nat_alt kMaxSequenceNumber_eq less_eq_Suc_le [symmetric] less_Suc_eq_le [symmetric])

lemma unat_Pack: "seq \<le> kMaxSequenceNumber \<Longrightarrow> unat (PackSequenceAndType seq t) = unat seq * 256 + unat t"
proof -
  assume "seq \<le> kMaxSequenceNumber"
  then have b: "unat seq < 2 ^ 56"
    by (simp add: seq_bound)
  have t: "unat (ucast t :: u64) = unat t" "unat t < 256"
    using unsigned_less [where 'a = nat, of t] by (simp_all add: unsigned_ucast_eq take_bit_nat_eq_self)
  have "push_bit 8 seq + ucast t = push_bit 8 seq OR ucast t"
    by (rule disjunctive_add) (auto simp: bit_simps dest: bit_imp_le_length)
  moreover have "unat (push_bit 8 seq + ucast t) = unat seq * 256 + unat t"
    using b t by (simp add: push_bit_eq_mult unat_word_ariths)
  ultimately show ?thesis
    by (simp add: PackSequenceAndType_def)
qed

lemma drop_bit_Pack: "seq \<le> kMaxSequenceNumber \<Longrightarrow> drop_bit 8 (PackSequenceAndType seq t) = seq"
proof -
  assume "seq \<le> kMaxSequenceNumber"
  then have "unat (drop_bit 8 (PackSequenceAndType seq t)) = (unat seq * 256 + unat t) div 256"
    by (simp add: unat_drop_bit unat_Pack)
  moreover have "unat t < 256"
    using unsigned_less [where 'a = nat, of t] by simp
  ultimately show ?thesis
    by (simp add: word_unat_eq_iff)
qed

lemma drop_bit_le_max: "drop_bit 8 num \<le> kMaxSequenceNumber" for num :: u64
  using unsigned_less [where 'a = nat, of num] by (simp add: seq_bound unat_drop_bit less_mult_imp_div_less)

lemma Pack_less:
  assumes "s \<le> kMaxSequenceNumber" "s' \<le> kMaxSequenceNumber"
  shows "PackSequenceAndType s t < PackSequenceAndType s' t' \<longleftrightarrow> s < s' \<or> s = s' \<and> t < t'"
proof -
  have "unat t < 256" "unat t' < 256"
    using unsigned_less [where 'a = nat, of t] unsigned_less [where 'a = nat, of t'] by simp_all
  then show ?thesis
    by (auto simp: word_less_nat_alt unat_Pack assms word_unat_eq_iff)
qed

lemma PutFixed64_append: "PutFixed64 dst v = dst @ EncodeFixed64 v"
  by (simp add: PutFixed64_def EncodeFixed64_def)

lemma internal_key_parts [simp]:
  "ExtractUserKey (u @ EncodeFixed64 v) = u" "internal_key_num (u @ EncodeFixed64 v) = v"
  "ExtractUserKey (PutFixed64 u v) = u" "internal_key_num (PutFixed64 u v) = v"
  "length (PutFixed64 u v) = length u + 8"
  using DecodeFixed64_Encode [of v "[]"]
  by (simp_all add: ExtractUserKey_def internal_key_num_def PutFixed64_append)

lemma internal_key_split:
  assumes "8 \<le> length k"
  shows "k = ExtractUserKey k @ EncodeFixed64 (internal_key_num k)"
proof -
  have "EncodeFixed64 (DecodeFixed64 d) = d" if "length d = 8" for d
    using that by (rule EncodeFixed64_Decode)
  then have "EncodeFixed64 (internal_key_num k) = drop (length k - 8) k"
    using assms by (simp add: internal_key_num_def)
  then show ?thesis
    by (simp add: ExtractUserKey_def)
qed

section \<open>Parsing\<close>

text \<open>
  Parsing inverts printing: an internal key with an admissible sequence number and value type
  parses back to its parts, every string that parses is the print of the result, and what is
  accepted has an admissible sequence number and type.
\<close>
theorem ParseInternalKey_roundtrip:
  "(sequence k \<le> kMaxSequenceNumber \<and> IsExtendedValueType (value_type k) \<longrightarrow>
      ParseInternalKey (AppendInternalKey [] k) = Some k
      \<and> length (AppendInternalKey [] k) = InternalKeyEncodingLength k)
   \<and> (ParseInternalKey b = Some k \<longrightarrow>
        AppendInternalKey [] k = b \<and> sequence k \<le> kMaxSequenceNumber \<and> IsExtendedValueType (value_type k))"
proof -
  have "ParseInternalKey (AppendInternalKey [] k) = Some k"
    if "sequence k \<le> kMaxSequenceNumber" "IsExtendedValueType (value_type k)"
    using that by (simp add: ParseInternalKey_def AppendInternalKey_def drop_bit_Pack low_byte Let_def
        flip: ExtractUserKey_def [of "PutFixed64 _ _", simplified internal_key_parts])
      (simp add: PutFixed64_append)
  moreover have "AppendInternalKey [] k = b \<and> sequence k \<le> kMaxSequenceNumber \<and> IsExtendedValueType (value_type k)"
    if "ParseInternalKey b = Some k"
  proof -
    have "8 \<le> length b" and k: "user_key k = ExtractUserKey b" "sequence k = drop_bit 8 (internal_key_num b)"
      "value_type k = ucast (internal_key_num b)" "IsExtendedValueType (value_type k)"
      using that by (auto simp: ParseInternalKey_def Let_def low_byte ExtractUserKey_def split: if_splits)
    then show ?thesis
      using internal_key_split [of b] by (simp add: AppendInternalKey_def Pack_split drop_bit_le_max PutFixed64_append)
  qed
  ultimately show ?thesis
    by (simp add: AppendInternalKey_def InternalKeyEncodingLength_def)
qed

theorem ParseInternalKey_roundtrip_witness:
  "ParseInternalKey (AppendInternalKey [] \<lparr>user_key = [107], sequence = 5, value_type = kTypeValue\<rparr>)
     = Some \<lparr>user_key = [107], sequence = 5, value_type = kTypeValue\<rparr>"
  using ParseInternalKey_roundtrip [of "\<lparr>user_key = [107], sequence = 5, value_type = kTypeValue\<rparr>" "[]"]
  by (simp add: IsExtendedValueType_def IsValueType_def kMaxSequenceNumber_def)

section \<open>The order of internal keys\<close>

definition internal_valid :: "(bytes \<Rightarrow> bool) \<Rightarrow> bytes \<Rightarrow> bool" where
  "internal_valid valid k \<longleftrightarrow> 8 \<le> length k \<and> valid (ExtractUserKey k)"

context comparator_order
begin

lemma internal_less:
  assumes "Compare (ExtractUserKey a) (ExtractUserKey b) < 0"
  shows "InternalKeyComparator_Compare Compare a b < 0"
  using assms by (simp add: InternalKeyComparator_Compare_def)

lemma internal_le_iff:
  "InternalKeyComparator_Compare Compare a b \<le> 0 \<longleftrightarrow>
     Compare (ExtractUserKey a) (ExtractUserKey b) < 0
     \<or> Compare (ExtractUserKey a) (ExtractUserKey b) = 0 \<and> internal_key_num b \<le> internal_key_num a"
  by (auto simp: InternalKeyComparator_Compare_def Let_def)

lemma internal_less_iff:
  "InternalKeyComparator_Compare Compare a b < 0 \<longleftrightarrow>
     Compare (ExtractUserKey a) (ExtractUserKey b) < 0
     \<or> Compare (ExtractUserKey a) (ExtractUserKey b) = 0 \<and> internal_key_num b < internal_key_num a"
  by (auto simp: InternalKeyComparator_Compare_def Let_def)

lemma internal_greater_iff:
  "0 < InternalKeyComparator_Compare Compare a b \<longleftrightarrow>
     0 < Compare (ExtractUserKey a) (ExtractUserKey b)
     \<or> Compare (ExtractUserKey a) (ExtractUserKey b) = 0 \<and> internal_key_num a < internal_key_num b"
  by (auto simp: InternalKeyComparator_Compare_def Let_def)

lemma internal_separator:
  assumes "internal_valid valid s" "internal_valid valid l" "InternalKeyComparator_Compare Compare s l < 0"
  shows "InternalKeyComparator_Compare Compare s (InternalKeyComparator_FindShortestSeparator Compare Separator s l) \<le> 0"
    and "InternalKeyComparator_Compare Compare (InternalKeyComparator_FindShortestSeparator Compare Separator s l) l < 0"
proof -
  let ?us = "ExtractUserKey s" and ?ul = "ExtractUserKey l"
  let ?sep = "InternalKeyComparator_FindShortestSeparator Compare Separator s l"
  have v: "valid ?us" "valid ?ul"
    using assms(1,2) by (auto simp: internal_valid_def)
  have "InternalKeyComparator_Compare Compare s ?sep \<le> 0 \<and> InternalKeyComparator_Compare Compare ?sep l < 0"
  proof (cases "length (Separator ?us ?ul) \<le> length ?us \<and> Compare ?us (Separator ?us ?ul) < 0")
    case True
    then have "Compare ?us ?ul < 0"
      using assms(3) Separator_equal [OF v] by (auto simp: internal_less_iff)
    then have "Compare (Separator ?us ?ul) ?ul < 0"
      using Separator_between [OF v] by simp
    then show ?thesis
      using True by (simp add: InternalKeyComparator_FindShortestSeparator_def Let_def internal_le_iff internal_less_iff)
  next
    case False
    then have "?sep = s"
      by (auto simp: InternalKeyComparator_FindShortestSeparator_def Let_def)
    then show ?thesis
      using assms(3) Compare_refl [OF v(1)] by (simp add: internal_le_iff)
  qed
  then show "InternalKeyComparator_Compare Compare s ?sep \<le> 0" "InternalKeyComparator_Compare Compare ?sep l < 0"
    by simp_all
qed

text \<open>The internal-key comparator over a comparator, whatever its \<open>FindShortSuccessor\<close>, is a comparator.\<close>

lemma internal_comparator:
  "comparator (internal_valid valid) (InternalKeyComparator_Compare Compare)
     (InternalKeyComparator_FindShortestSeparator Compare Separator)
     (InternalKeyComparator_FindShortSuccessor Compare Successor)"
proof unfold_locales
  fix a b c
  show "InternalKeyComparator_Compare Compare a a = 0" if "internal_valid valid a"
    using that Compare_refl by (simp add: InternalKeyComparator_Compare_def internal_valid_def)
  show "InternalKeyComparator_Compare Compare a b < 0 \<longleftrightarrow> 0 < InternalKeyComparator_Compare Compare b a"
    if "internal_valid valid a" "internal_valid valid b"
    using that Compare_flip Compare_zero_sym unfolding internal_less_iff internal_greater_iff internal_valid_def
    by metis
  show "InternalKeyComparator_Compare Compare a c \<le> 0"
    if v: "internal_valid valid a" "internal_valid valid b" "internal_valid valid c"
      and le: "InternalKeyComparator_Compare Compare a b \<le> 0" "InternalKeyComparator_Compare Compare b c \<le> 0"
  proof -
    let ?a = "ExtractUserKey a" and ?b = "ExtractUserKey b" and ?c = "ExtractUserKey c"
    have u: "valid ?a" "valid ?b" "valid ?c"
      using v by (auto simp: internal_valid_def)
    show ?thesis
    proof (cases "Compare ?a ?b < 0 \<or> Compare ?b ?c < 0")
      case True
      then have "Compare ?a ?c < 0"
        using le Compare_less_trans [OF u] Compare_le_less_trans [OF u] unfolding internal_le_iff by fastforce
      then show ?thesis
        by (simp add: internal_le_iff)
    next
      case False
      then have "Compare ?a ?b = 0" "Compare ?b ?c = 0" "internal_key_num c \<le> internal_key_num a"
        using le by (auto simp: internal_le_iff)
      moreover from this have "Compare ?a ?c = 0"
        using Compare_trans [OF u] Compare_trans [OF u(3,2,1)] Compare_zero_sym u Compare_flip
        by (metis antisym_conv3 order_refl linorder_not_le)
      ultimately show ?thesis
        by (simp add: internal_le_iff)
    qed
  qed
next
  fix s l
  assume v: "internal_valid valid s" "internal_valid valid l"
  then have u: "valid (ExtractUserKey s)" "valid (ExtractUserKey l)"
    by (auto simp: internal_valid_def)
  show "InternalKeyComparator_Compare Compare s (InternalKeyComparator_FindShortestSeparator Compare Separator s l) \<le> 0
      \<and> InternalKeyComparator_Compare Compare (InternalKeyComparator_FindShortestSeparator Compare Separator s l) l < 0"
    if "InternalKeyComparator_Compare Compare s l < 0"
    using internal_separator [OF v that] by simp
  show "\<not> InternalKeyComparator_Compare Compare s (InternalKeyComparator_FindShortestSeparator Compare Separator s l) < 0"
    if "InternalKeyComparator_Compare Compare s l = 0"
  proof -
    have "Compare (ExtractUserKey s) (ExtractUserKey l) = 0"
      using that by (auto simp: InternalKeyComparator_Compare_def Let_def split: if_splits)
    then show ?thesis
      using Separator_equal [OF u] Compare_refl [OF u(1)]
      by (auto simp: InternalKeyComparator_FindShortestSeparator_def Let_def internal_less_iff)
  qed
  show "internal_valid valid (InternalKeyComparator_FindShortestSeparator Compare Separator s l)"
    using v Separator_valid [OF u] by (auto simp: InternalKeyComparator_FindShortestSeparator_def Let_def internal_valid_def)
next
  fix k
  assume v: "internal_valid valid k"
  then have u: "valid (ExtractUserKey k)"
    by (simp add: internal_valid_def)
  show "internal_valid valid (InternalKeyComparator_FindShortSuccessor Compare Successor k)"
    using v Successor_valid [OF u] by (auto simp: InternalKeyComparator_FindShortSuccessor_def Let_def internal_valid_def)
  show "InternalKeyComparator_Compare Compare k (InternalKeyComparator_FindShortSuccessor Compare Successor k) \<le> 0"
    using Compare_refl [OF u] by (auto simp: InternalKeyComparator_FindShortSuccessor_def Let_def internal_le_iff)
qed

end

interpretation internal_bytewise: comparator "internal_valid (\<lambda>_. True)"
  "InternalKeyComparator_Compare BytewiseComparator_Compare"
  "InternalKeyComparator_FindShortestSeparator BytewiseComparator_Compare FindShortestSeparator"
  "InternalKeyComparator_FindShortSuccessor BytewiseComparator_Compare FindShortSuccessor"
  by (rule bytewise.internal_comparator)

interpretation internal_reverse: comparator "internal_valid (\<lambda>_. True)"
  "InternalKeyComparator_Compare ReverseBytewiseComparator_Compare"
  "InternalKeyComparator_FindShortestSeparator ReverseBytewiseComparator_Compare FindShortestSeparator"
  "InternalKeyComparator_FindShortSuccessor ReverseBytewiseComparator_Compare FindShortSuccessor"
  by (rule reverse_bytewise.internal_comparator)

text \<open>
  The two overloads of the comparison agree: comparing the encodings of two internal keys gives
  the same as comparing their parts, by user key, then newer sequence number first, then greater
  type first.
\<close>
theorem InternalKeyComparator_overloads_agree:
  assumes "sequence a \<le> kMaxSequenceNumber" and "sequence b \<le> kMaxSequenceNumber"
  shows "InternalKeyComparator_Compare user_Compare (AppendInternalKey [] a) (AppendInternalKey [] b)
    = InternalKeyComparator_CompareParsed user_Compare a b"
  using assms by (auto simp: InternalKeyComparator_Compare_def InternalKeyComparator_CompareParsed_def
      AppendInternalKey_def Pack_less Let_def)

theorem InternalKeyComparator_overloads_agree_witness:
  "InternalKeyComparator_Compare BytewiseComparator_Compare
     (AppendInternalKey [] \<lparr>user_key = [1], sequence = 9, value_type = kTypeValue\<rparr>)
     (AppendInternalKey [] \<lparr>user_key = [1], sequence = 8, value_type = kTypeValue\<rparr>) = -1"
  using InternalKeyComparator_overloads_agree [of "\<lparr>user_key = [1], sequence = 9, value_type = kTypeValue\<rparr>"
      "\<lparr>user_key = [1], sequence = 8, value_type = kTypeValue\<rparr>" BytewiseComparator_Compare]
  by (simp add: kMaxSequenceNumber_def InternalKeyComparator_CompareParsed_def comparator_defs)

text \<open>
  C37: The internal-key comparator over the bytewise comparator and over its reverse is a total
  preorder on strings of at least eight bytes; the separator of two keys lies between them and the
  successor of a key is not smaller, although \<open>FindShortSuccessor\<close> of the reverse comparator is
  wrong on its own.
\<close>
theorem InternalKeyComparator_lawful:
  assumes "c = BytewiseComparator_Compare \<or> c = ReverseBytewiseComparator_Compare"
    and "8 \<le> length a" and "8 \<le> length b" and "8 \<le> length d"
  shows "let cmp = InternalKeyComparator_Compare c;
             sep = InternalKeyComparator_FindShortestSeparator c FindShortestSeparator a b;
             succ = InternalKeyComparator_FindShortSuccessor c FindShortSuccessor a
         in (cmp a b < 0 \<longleftrightarrow> 0 < cmp b a) \<and> (cmp a b \<le> 0 \<and> cmp b d \<le> 0 \<longrightarrow> cmp a d \<le> 0)
            \<and> (cmp a b < 0 \<longrightarrow> cmp a sep \<le> 0 \<and> cmp sep b < 0 \<and> 8 \<le> length sep)
            \<and> cmp a succ \<le> 0 \<and> 8 \<le> length succ"
proof -
  have v: "internal_valid (\<lambda>_. True) a" "internal_valid (\<lambda>_. True) b" "internal_valid (\<lambda>_. True) d"
    using assms(2-4) by (simp_all add: internal_valid_def)
  show ?thesis
    using assms(1) v internal_bytewise.Compare_flip [OF v(1,2)] internal_bytewise.Compare_trans [OF v]
      internal_bytewise.Separator_between [OF v(1,2)] internal_bytewise.Separator_valid [OF v(1,2)]
      internal_bytewise.Successor_ge [OF v(1)] internal_bytewise.Successor_valid [OF v(1)]
      internal_reverse.Compare_flip [OF v(1,2)] internal_reverse.Compare_trans [OF v]
      internal_reverse.Separator_between [OF v(1,2)] internal_reverse.Separator_valid [OF v(1,2)]
      internal_reverse.Successor_ge [OF v(1)] internal_reverse.Successor_valid [OF v(1)]
    unfolding Let_def internal_valid_def by blast
qed

theorem InternalKeyComparator_lawful_witness:
  "let cmp = InternalKeyComparator_Compare ReverseBytewiseComparator_Compare; a = InternalKey [5] 3 kTypeValue
   in cmp a (InternalKeyComparator_FindShortSuccessor ReverseBytewiseComparator_Compare FindShortSuccessor a) \<le> 0"
  using InternalKeyComparator_lawful [of ReverseBytewiseComparator_Compare "InternalKey [5] 3 kTypeValue"
      "InternalKey [5] 3 kTypeValue" "InternalKey [5] 3 kTypeValue"]
  by (simp add: Let_def InternalKey_def AppendInternalKey_def)

section \<open>Lookups\<close>

text \<open>
  C31: A lookup key separates the versions of its user key: the key it seeks sorts at or before
  exactly the versions whose sequence number is visible at the snapshot, for every value type a
  memtable or data block stores, so that the first entry found is the newest visible version.
  The array it builds is the length-prefixed internal key.
\<close>
theorem LookupKey_finds_newest_visible:
  assumes "s \<le> kMaxSequenceNumber" and "s' \<le> kMaxSequenceNumber" and "IsValueType t"
    and "BytewiseComparator_Compare u u' = 0" and "length u + 8 < 2 ^ 32"
  shows "(InternalKeyComparator_Compare BytewiseComparator_Compare (lookup_internal_key (new_LookupKey u s))
            (InternalKey u' s' t) \<le> 0 \<longleftrightarrow> s' \<le> s)
    \<and> lookup_user_key (new_LookupKey u s) = u
    \<and> memtable_key (new_LookupKey u s) = PutLengthPrefixedSlice [] (lookup_internal_key (new_LookupKey u s))"
proof -
  have t: "t \<le> kValueTypeForSeek"
    using assms(3) by (auto simp: IsValueType_def word_le_nat_alt)
  have i: "lookup_internal_key (new_LookupKey u s) = PutFixed64 u (PackSequenceAndType s kValueTypeForSeek)"
    by (simp add: lookup_internal_key_def new_LookupKey_def Let_def PutFixed64_append)
  have "PackSequenceAndType s' t \<le> PackSequenceAndType s kValueTypeForSeek \<longleftrightarrow> s' \<le> s"
    using t assms(1,2) Pack_less [of s s' kValueTypeForSeek t] by (auto simp: linorder_not_less [symmetric])
  then show ?thesis
    using assms(4) bytewise.internal_le_iff [of "lookup_internal_key (new_LookupKey u s)" "InternalKey u' s' t"] i
    by (simp add: InternalKey_def AppendInternalKey_def lookup_user_key_def memtable_key_def
        new_LookupKey_def Let_def PutLengthPrefixedSlice_def PutVarint32_def PutFixed64_append)
qed

theorem LookupKey_finds_newest_visible_witness:
  "InternalKeyComparator_Compare BytewiseComparator_Compare (lookup_internal_key (new_LookupKey [7] 4))
     (InternalKey [7] 3 kTypeDeletion) \<le> 0"
  using LookupKey_finds_newest_visible [of 4 3 kTypeDeletion "[7]" "[7]"]
  by (simp add: kMaxSequenceNumber_def IsValueType_def comparator_defs)

text \<open>
  The type used for seeking is not the highest-numbered one, as its comment says it must be: a
  range deletion of the same user key and sequence number sorts before the lookup key, and the key
  that \<open>SetMaxPossibleForUserKey\<close> builds sorts at or before every stored value of the user key,
  where its comment promises a key that is bigger or equal.
\<close>
theorem seek_type_comments_wrong:
  assumes "s \<le> kMaxSequenceNumber" and "IsValueType t"
  shows "InternalKeyComparator_Compare BytewiseComparator_Compare
           (InternalKey u kMaxSequenceNumber kTypeRangeDeletion) (SetMaxPossibleForUserKey [] u) < 0
    \<and> InternalKeyComparator_Compare BytewiseComparator_Compare
           (SetMaxPossibleForUserKey [] u) (InternalKey u s t) \<le> 0
    \<and> InternalKeyComparator_Compare BytewiseComparator_Compare
           (InternalKey u s t) (SetMinPossibleForUserKey [] u) \<le> 0"
proof -
  have t: "t \<le> kValueTypeForSeek" "kTypeDeletion \<le> t"
    using assms(2) by (auto simp: IsValueType_def word_le_nat_alt)
  have "PackSequenceAndType s t \<le> PackSequenceAndType kMaxSequenceNumber kValueTypeForSeek"
    "PackSequenceAndType 0 kTypeDeletion \<le> PackSequenceAndType s t"
    using t assms(1) Pack_less [of kMaxSequenceNumber s kValueTypeForSeek t] Pack_less [of s 0 t kTypeDeletion]
    by (auto simp: linorder_not_less [symmetric])
  then show ?thesis
    unfolding bytewise.internal_le_iff bytewise.internal_less_iff
    by (simp add: InternalKey_def SetMaxPossibleForUserKey_def SetMinPossibleForUserKey_def
        AppendInternalKey_def comparator_defs Pack_less)
qed

theorem seek_type_comments_wrong_witness:
  "InternalKeyComparator_Compare BytewiseComparator_Compare (SetMaxPossibleForUserKey [] [7])
     (InternalKey [7] 3 kTypeValue) \<le> 0"
  using seek_type_comments_wrong [of 3 kTypeValue "[7]"] by (simp add: kMaxSequenceNumber_def IsValueType_def)

section \<open>Key buffers\<close>

lemma length_memcpy: "off + length src \<le> length dst \<Longrightarrow> length (memcpy dst off src) = length dst"
  by (simp add: memcpy_def)

lemma take_memcpy: "off \<le> length dst \<Longrightarrow> take (off + length src) (memcpy dst off src) = take off dst @ src"
  by (simp add: memcpy_def)

text \<open>
  The key buffer of an iterator: every way of setting a key and appending to it keeps the
  buffer consistent, and \<open>TrimAppend\<close> leaves the first \<open>shared\<close> bytes of the old key followed by
  the new ones, whether the key was in the buffer, did not fit into it, or was in foreign memory.
\<close>
theorem IterKey_TrimAppend:
  assumes "IterKey_inv k" and "shared \<le> key_size k" and "n \<le> length d"
  shows "GetInternalKey (TrimAppend shared d n k) = take shared (GetInternalKey k) @ take n d
    \<and> IterKey_inv (TrimAppend shared d n k)
    \<and> GetInternalKey (OwnKey k) = GetInternalKey k \<and> IterKey_inv (OwnKey k) \<and> \<not> IsKeyPinned (OwnKey k)
    \<and> GetInternalKey (SetKeyImpl d copy k) = d \<and> IterKey_inv (SetKeyImpl d copy k)"
proof -
  define k' where "k' = (if IsKeyPinned k then
                 (let k' = EnlargeBufferIfNeeded (shared + n) k
                  in k'\<lparr>ik_buf := memcpy (ik_buf k') 0 (take shared (IterKey_data k))\<rparr>)
               else if length (ik_buf k) < shared + n then
                 k\<lparr>ik_buf := memcpy (replicate (shared + n) 0) 0 (take shared (IterKey_data k))\<rparr>
               else k)"
  have data: "shared \<le> length (IterKey_data k)" "key_size k \<le> length (IterKey_data k)" "32 \<le> length (ik_buf k)"
    using assms by (auto simp: IterKey_inv_def IterKey_data_def split: key_place.splits)
  have buf: "shared + n \<le> length (ik_buf k')" "32 \<le> length (ik_buf k')"
    "take shared (ik_buf k') = take shared (IterKey_data k)"
    using data by (auto simp: k'_def Let_def EnlargeBufferIfNeeded_def ResetBuffer_def memcpy_def IsKeyPinned_def
        IterKey_data_def)
  have ta: "TrimAppend shared d n k = k'\<lparr>ik_buf := memcpy (ik_buf k') shared (take n d), ik_key := InBuf,
      key_size := shared + n\<rparr>"
    by (simp add: TrimAppend_def k'_def Let_def)
  have "GetInternalKey (TrimAppend shared d n k) = take shared (GetInternalKey k) @ take n d"
    using buf data assms(2,3) take_memcpy [of shared "ik_buf k'" "take n d"]
    by (simp add: ta GetInternalKey_def IterKey_data_def min_absorb1)
  moreover have "IterKey_inv (TrimAppend shared d n k)"
    using buf assms(3) length_memcpy [of shared "take n d" "ik_buf k'"] by (simp add: ta IterKey_inv_def)
  moreover have "GetInternalKey (OwnKey k) = GetInternalKey k" "IterKey_inv (OwnKey k)" "\<not> IsKeyPinned (OwnKey k)"
    using data by (auto simp: OwnKey_def Reserve_def Let_def EnlargeBufferIfNeeded_def ResetBuffer_def memcpy_def
        GetInternalKey_def IterKey_data_def IterKey_inv_def IsKeyPinned_def)
  moreover have "GetInternalKey (SetKeyImpl d copy k) = d" "IterKey_inv (SetKeyImpl d copy k)"
    using data by (auto simp: SetKeyImpl_def Let_def EnlargeBufferIfNeeded_def ResetBuffer_def memcpy_def
        GetInternalKey_def IterKey_data_def IterKey_inv_def)
  ultimately show ?thesis
    by blast
qed

theorem IterKey_TrimAppend_witness:
  "GetInternalKey (TrimAppend 2 [9, 8] 2 (SetKeyImpl [1, 2, 3] False new_IterKey)) = [1, 2, 9, 8]"
  using IterKey_TrimAppend [of "SetKeyImpl [1, 2, 3] False new_IterKey" 2 2 "[9, 8]" True]
  by (simp add: IterKey_inv_def SetKeyImpl_def new_IterKey_def GetInternalKey_def IterKey_data_def)

text \<open>\<open>EncodeLengthPrefixedKey\<close> writes the key but not its size.\<close>

lemma EncodeLengthPrefixedKey_size:
  "EncodeLengthPrefixedKey key k = k' \<Longrightarrow> key_size k' = key_size k \<or> key_size k' = 0"
  by (auto simp: EncodeLengthPrefixedKey_def Let_def EnlargeBufferIfNeeded_def ResetBuffer_def)

end
