(* ===== verification/Version_Edit.thy ===== *)
theory Version_Edit
  imports Dbformat "HOL-Library.Product_Lexorder" "HOL-Library.Monad_Syntax"
begin

text \<open>
  The edits of the manifest (db/version_edit.h, db/version_edit.cc): which files an edit adds and
  deletes, the numbers it sets, and how it is written and read back.
\<close>

unbundle bit_operations_syntax

section \<open>Tags\<close>

abbreviation (input) kComparator :: u32 where "kComparator \<equiv> 1"
abbreviation (input) kLogNumber :: u32 where "kLogNumber \<equiv> 2"
abbreviation (input) kNextFileNumber :: u32 where "kNextFileNumber \<equiv> 3"
abbreviation (input) kLastSequence :: u32 where "kLastSequence \<equiv> 4"
abbreviation (input) kCompactPointer :: u32 where "kCompactPointer \<equiv> 5"
abbreviation (input) kDeletedFile :: u32 where "kDeletedFile \<equiv> 6"
abbreviation (input) kNewFile :: u32 where "kNewFile \<equiv> 7"
abbreviation (input) kPrevLogNumber :: u32 where "kPrevLogNumber \<equiv> 9"
abbreviation (input) kNewFile2 :: u32 where "kNewFile2 \<equiv> 100"
abbreviation (input) kNewFile3 :: u32 where "kNewFile3 \<equiv> 102"
abbreviation (input) kNewFile4 :: u32 where "kNewFile4 \<equiv> 103"
abbreviation (input) kColumnFamily :: u32 where "kColumnFamily \<equiv> 200"
abbreviation (input) kColumnFamilyAdd :: u32 where "kColumnFamilyAdd \<equiv> 201"
abbreviation (input) kColumnFamilyDrop :: u32 where "kColumnFamilyDrop \<equiv> 202"
abbreviation (input) kMaxColumnFamily :: u32 where "kMaxColumnFamily \<equiv> 203"

abbreviation (input) kTerminate :: u32 where "kTerminate \<equiv> 1"
abbreviation (input) kNeedCompaction :: u32 where "kNeedCompaction \<equiv> 2"
abbreviation (input) kPathId :: u32 where "kPathId \<equiv> 65"
abbreviation (input) kCustomTagNonSafeIgnoreMask :: u32 where "kCustomTagNonSafeIgnoreMask \<equiv> 64"

section \<open>Files\<close>

abbreviation (input) kFileNumberMask :: u64 where "kFileNumberMask \<equiv> 0x3FFFFFFFFFFFFFFF"

definition PackFileNumberAndPathId :: "u64 \<Rightarrow> u64 \<Rightarrow> u64" where
  "PackFileNumberAndPathId number path_id = number OR (path_id * (kFileNumberMask + 1))"

record FileDescriptor =
  packed_number_and_path_id :: u64
  file_size :: u64

definition new_FileDescriptor :: "u64 \<Rightarrow> u32 \<Rightarrow> u64 \<Rightarrow> FileDescriptor" where
  "new_FileDescriptor number path_id fsize =
     \<lparr>packed_number_and_path_id = PackFileNumberAndPathId number (ucast path_id), file_size = fsize\<rparr>"

definition GetNumber :: "FileDescriptor \<Rightarrow> u64" where
  "GetNumber fd = packed_number_and_path_id fd AND kFileNumberMask"

definition GetPathId :: "FileDescriptor \<Rightarrow> u32" where
  "GetPathId fd = ucast (packed_number_and_path_id fd div (kFileNumberMask + 1))"

text \<open>
  The fields of \<open>FileMetaData\<close> that an edit writes; counters, statistics (among them the sketch
  \<open>hll\<close>, \<open>reclaim_ratio\<close>, \<open>file_num_low\<close>, \<open>file_num_high\<close>, \<open>num_sst_next_level_overlap\<close> and
  \<open>hll_add_count\<close>, which \<open>AddFile\<close> takes and stores) and handles belong to a running database and
  are not part of the manifest.
\<close>

record FileMetaData =
  fd :: FileDescriptor
  smallest :: bytes
  largest :: bytes
  smallest_seqno :: u64
  largest_seqno :: u64
  marked_for_compaction :: bool

definition new_FileMetaData :: FileMetaData where
  "new_FileMetaData = \<lparr>fd = new_FileDescriptor 0 0 0, smallest = [], largest = [],
     smallest_seqno = kMaxSequenceNumber, largest_seqno = 0, marked_for_compaction = False\<rparr>"

section \<open>Edits\<close>

text \<open>Levels are \<open>int\<close>; the ordered set of deleted files is the list of its elements in order.\<close>

record VersionEdit =
  max_level :: int
  comparator_name :: bytes
  log_number :: u64
  prev_log_number :: u64
  next_file_number :: u64
  max_column_family :: u32
  last_sequence :: u64
  has_comparator :: bool
  has_log_number :: bool
  has_prev_log_number :: bool
  has_next_file_number :: bool
  has_last_sequence :: bool
  has_max_column_family :: bool
  deleted_files :: "(int \<times> u64) list"
  new_files :: "(int \<times> FileMetaData) list"
  column_family :: u32
  is_column_family_drop :: bool
  is_column_family_add :: bool
  column_family_name :: bytes

definition Clear :: VersionEdit where
  "Clear = \<lparr>max_level = 0, comparator_name = [], log_number = 0, prev_log_number = 0, next_file_number = 0,
     max_column_family = 0, last_sequence = 0, has_comparator = False, has_log_number = False,
     has_prev_log_number = False, has_next_file_number = False, has_last_sequence = False,
     has_max_column_family = False, deleted_files = [], new_files = [], column_family = 0,
     is_column_family_drop = False, is_column_family_add = False, column_family_name = []\<rparr>"

definition SetComparatorName :: "bytes \<Rightarrow> VersionEdit \<Rightarrow> VersionEdit" where
  "SetComparatorName name e = e\<lparr>has_comparator := True, comparator_name := name\<rparr>"

definition SetLogNumber :: "u64 \<Rightarrow> VersionEdit \<Rightarrow> VersionEdit" where
  "SetLogNumber num e = e\<lparr>has_log_number := True, log_number := num\<rparr>"

definition SetPrevLogNumber :: "u64 \<Rightarrow> VersionEdit \<Rightarrow> VersionEdit" where
  "SetPrevLogNumber num e = e\<lparr>has_prev_log_number := True, prev_log_number := num\<rparr>"

definition SetNextFile :: "u64 \<Rightarrow> VersionEdit \<Rightarrow> VersionEdit" where
  "SetNextFile num e = e\<lparr>has_next_file_number := True, next_file_number := num\<rparr>"

definition SetLastSequence :: "u64 \<Rightarrow> VersionEdit \<Rightarrow> VersionEdit" where
  "SetLastSequence seq e = e\<lparr>has_last_sequence := True, last_sequence := seq\<rparr>"

definition SetMaxColumnFamily :: "u32 \<Rightarrow> VersionEdit \<Rightarrow> VersionEdit" where
  "SetMaxColumnFamily m e = e\<lparr>has_max_column_family := True, max_column_family := m\<rparr>"

definition AddFile ::
    "int \<Rightarrow> u64 \<Rightarrow> u32 \<Rightarrow> u64 \<Rightarrow> bytes \<Rightarrow> bytes \<Rightarrow> u64 \<Rightarrow> u64 \<Rightarrow> bool \<Rightarrow> VersionEdit \<Rightarrow> VersionEdit" where
  "AddFile level file file_path_id fsize small large small_seqno large_seqno marked e =
     (let f = new_FileMetaData\<lparr>fd := new_FileDescriptor file file_path_id fsize, smallest := small,
                largest := large, smallest_seqno := small_seqno, largest_seqno := large_seqno,
                marked_for_compaction := marked\<rparr>
      in e\<lparr>new_files := new_files e @ [(level, f)]\<rparr>)"

definition AddFileMetaData :: "int \<Rightarrow> FileMetaData \<Rightarrow> VersionEdit \<Rightarrow> VersionEdit" where
  "AddFileMetaData level f e = e\<lparr>new_files := new_files e @ [(level, f)]\<rparr>"

definition DeleteFile :: "int \<Rightarrow> u64 \<Rightarrow> VersionEdit \<Rightarrow> VersionEdit" where
  "DeleteFile level file e = e\<lparr>deleted_files := insort_insert (level, file) (deleted_files e)\<rparr>"

definition NumEntries :: "VersionEdit \<Rightarrow> nat" where
  "NumEntries e = length (new_files e) + length (deleted_files e)"

definition IsColumnFamilyManipulation :: "VersionEdit \<Rightarrow> bool" where
  "IsColumnFamilyManipulation e \<longleftrightarrow> is_column_family_add e \<or> is_column_family_drop e"

definition SetColumnFamily :: "u32 \<Rightarrow> VersionEdit \<Rightarrow> VersionEdit" where
  "SetColumnFamily i e = e\<lparr>column_family := i\<rparr>"

definition AddColumnFamily :: "bytes \<Rightarrow> VersionEdit \<Rightarrow> VersionEdit" where
  "AddColumnFamily name e = e\<lparr>is_column_family_add := True, column_family_name := name\<rparr>"

definition DropColumnFamily :: "VersionEdit \<Rightarrow> VersionEdit" where
  "DropColumnFamily e = e\<lparr>is_column_family_drop := True\<rparr>"

section \<open>Writing\<close>

definition encode_file :: "int \<Rightarrow> FileMetaData \<Rightarrow> bytes \<Rightarrow> bytes" where
  "encode_file level f dst =
     (let has_customized_fields = marked_for_compaction f;
          dst = PutVarint32 dst (if marked_for_compaction f then kNewFile4
                                 else if GetPathId (fd f) = 0 then kNewFile2 else kNewFile3);
          dst = PutVarint32Varint64 dst (word_of_int level) (GetNumber (fd f));
          dst = (if GetPathId (fd f) \<noteq> 0 \<and> \<not> has_customized_fields
                 then PutVarint32 dst (GetPathId (fd f)) else dst);
          dst = PutVarint64 dst (file_size (fd f));
          dst = PutLengthPrefixedSlice dst (smallest f);
          dst = PutLengthPrefixedSlice dst (largest f);
          dst = PutVarint64Varint64 dst (smallest_seqno f) (largest_seqno f)
      in if has_customized_fields then
           (let dst = (if GetPathId (fd f) \<noteq> 0
                       then PutLengthPrefixedSlice (PutVarint32 dst kPathId) [ucast (GetPathId (fd f))]
                       else dst);
                dst = (if marked_for_compaction f
                       then PutLengthPrefixedSlice (PutVarint32 dst kNeedCompaction) [1] else dst)
            in PutVarint32 dst kTerminate)
         else dst)"

fun encode_files :: "(int \<times> FileMetaData) list \<Rightarrow> bytes \<Rightarrow> bool \<times> bytes" where
  "encode_files [] dst = (True, dst)"
| "encode_files ((level, f) # fs) dst =
     (if \<not> InternalKey_Valid (smallest f) \<or> \<not> InternalKey_Valid (largest f) then (False, dst)
      else encode_files fs (encode_file level f dst))"

definition EncodeTo :: "VersionEdit \<Rightarrow> bytes \<Rightarrow> bool \<times> bytes" where
  "EncodeTo e dst =
     (let dst = (if has_comparator e
                 then PutLengthPrefixedSlice (PutVarint32 dst kComparator) (comparator_name e) else dst);
          dst = (if has_log_number e then PutVarint32Varint64 dst kLogNumber (log_number e) else dst);
          dst = (if has_prev_log_number e
                 then PutVarint32Varint64 dst kPrevLogNumber (prev_log_number e) else dst);
          dst = (if has_next_file_number e
                 then PutVarint32Varint64 dst kNextFileNumber (next_file_number e) else dst);
          dst = (if has_last_sequence e
                 then PutVarint32Varint64 dst kLastSequence (last_sequence e) else dst);
          dst = (if has_max_column_family e
                 then PutVarint32Varint32 dst kMaxColumnFamily (max_column_family e) else dst);
          dst = fold (\<lambda>(level, file) dst. PutVarint32Varint32Varint64 dst kDeletedFile (word_of_int level) file)
                  (deleted_files e) dst
      in case encode_files (new_files e) dst of
           (False, dst) \<Rightarrow> (False, dst)
         | (True, dst) \<Rightarrow>
             (let dst = (if column_family e \<noteq> 0
                         then PutVarint32Varint32 dst kColumnFamily (column_family e) else dst);
                  dst = (if is_column_family_add e
                         then PutLengthPrefixedSlice (PutVarint32 dst kColumnFamilyAdd) (column_family_name e)
                         else dst);
                  dst = (if is_column_family_drop e then PutVarint32 dst kColumnFamilyDrop else dst)
              in (True, dst)))"

section \<open>Reading\<close>

definition edit_GetInternalKey :: "bytes \<Rightarrow> (bytes \<times> bytes) option" where
  "edit_GetInternalKey input =
     do { (key, input) \<leftarrow> GetLengthPrefixedSlice input;
          if InternalKey_Valid key then Some (key, input) else None }"

definition GetLevel :: "bytes \<Rightarrow> VersionEdit \<Rightarrow> (int \<times> bytes \<times> VersionEdit) option" where
  "GetLevel input e =
     do { (v, input) \<leftarrow> GetVarint32 input;
          let level = sint v;
          Some (level, input, if max_level e < level then e\<lparr>max_level := level\<rparr> else e) }"

text \<open>
  The fields of an added file after its level; the formats differ in whether the path and the
  sequence numbers are there, and numbers that are not keep the values of \<open>f\<close>.
\<close>

definition read_file :: "bool \<Rightarrow> bool \<Rightarrow> FileMetaData \<Rightarrow> bytes \<Rightarrow> (u64 \<times> u32 \<times> u64 \<times> FileMetaData \<times> bytes) option" where
  "read_file with_path with_seqnos f input =
     do { (number, input) \<leftarrow> GetVarint64 input;
          (path_id, input) \<leftarrow> (if with_path then GetVarint32 input else Some (0, input));
          (fsize, input) \<leftarrow> GetVarint64 input;
          (small, input) \<leftarrow> edit_GetInternalKey input;
          (large, input) \<leftarrow> edit_GetInternalKey input;
          (seq1, input) \<leftarrow> (if with_seqnos then GetVarint64 input else Some (smallest_seqno f, input));
          (seq2, input) \<leftarrow> (if with_seqnos then GetVarint64 input else Some (largest_seqno f, input));
          Some (number, path_id, fsize,
                f\<lparr>smallest := small, largest := large, smallest_seqno := seq1, largest_seqno := seq2\<rparr>, input) }"

function read_custom_fields :: "u32 \<Rightarrow> bool \<Rightarrow> bytes \<Rightarrow> string + u32 \<times> bool \<times> bytes" where
  "read_custom_fields path_id marked input =
     (case GetVarint32 input of
        None \<Rightarrow> Inl ''new-file4 custom field''
      | Some (custom_tag, input') \<Rightarrow>
          if custom_tag = kTerminate then Inr (path_id, marked, input')
          else
            (case GetLengthPrefixedSlice input' of
               None \<Rightarrow> Inl ''new-file4 custom field lenth prefixed slice error''
             | Some (field, input'') \<Rightarrow>
                 if custom_tag = kPathId then
                   (if length field \<noteq> 1 then Inl ''path_id field wrong size''
                    else if 3 < (scast (field ! 0) :: u32) then Inl ''path_id wrong vaue''
                    else read_custom_fields (scast (field ! 0)) marked input'')
                 else if custom_tag = kNeedCompaction then
                   (if length field \<noteq> 1 then Inl ''need_compaction field wrong size''
                    else read_custom_fields path_id (field ! 0 = 1) input'')
                 else if custom_tag AND kCustomTagNonSafeIgnoreMask \<noteq> 0
                 then Inl ''new-file4 custom field not supported''
                 else read_custom_fields path_id marked input''))"
  by pat_completeness auto
termination
  by (relation "measure (\<lambda>(_, _, input). length input)")
    (auto dest!: GetVarint32_shorter GetLengthPrefixedSlice_shorter)

declare read_custom_fields.simps [simp del]

text \<open>The message, the edit and the rest of the input.\<close>

definition DecodeNewFile4From :: "bytes \<Rightarrow> VersionEdit \<Rightarrow> string option \<times> VersionEdit \<times> bytes" where
  "DecodeNewFile4From input e =
     (case GetLevel input e of
        None \<Rightarrow> (Some ''new-file4 entry'', e, input)
      | Some (level, input, e) \<Rightarrow>
          (case read_file False True new_FileMetaData input of
             None \<Rightarrow> (Some ''new-file4 entry'', e, input)
           | Some (number, _, fsize, f, input) \<Rightarrow>
               (case read_custom_fields 0 (marked_for_compaction f) input of
                  Inl msg \<Rightarrow> (Some msg, e, input)
                | Inr (path_id, marked, input) \<Rightarrow>
                    (None, e\<lparr>new_files := new_files e @
                       [(level, f\<lparr>marked_for_compaction := marked, fd := new_FileDescriptor number path_id fsize\<rparr>)]\<rparr>,
                     input))))"

text \<open>
  One turn of \<open>DecodeFrom\<close> after the tag; \<open>f\<close> is the temporary file, which keeps its fields from
  entry to entry.
\<close>

definition decode_new_file ::
    "bool \<Rightarrow> bool \<Rightarrow> string \<Rightarrow> VersionEdit \<Rightarrow> FileMetaData \<Rightarrow> bytes \<Rightarrow> string option \<times> VersionEdit \<times> FileMetaData \<times> bytes" where
  "decode_new_file with_path with_seqnos err e f input =
     (case GetLevel input e of
        None \<Rightarrow> (Some err, e, f, input)
      | Some (level, input, e) \<Rightarrow>
          (case read_file with_path with_seqnos f input of
             None \<Rightarrow> (Some err, e, f, input)
           | Some (number, path_id, fsize, f, input) \<Rightarrow>
               (let f = f\<lparr>fd := new_FileDescriptor number path_id fsize\<rparr>
                in (None, e\<lparr>new_files := new_files e @ [(level, f)]\<rparr>, f, input))))"

definition decode_u64 ::
    "string \<Rightarrow> (u64 \<Rightarrow> VersionEdit \<Rightarrow> VersionEdit) \<Rightarrow> VersionEdit \<Rightarrow> FileMetaData \<Rightarrow> bytes
     \<Rightarrow> string option \<times> VersionEdit \<times> FileMetaData \<times> bytes" where
  "decode_u64 err upd e f input =
     (case GetVarint64 input of
        Some (v, input) \<Rightarrow> (None, upd v e, f, input)
      | None \<Rightarrow> (Some err, e, f, input))"

definition decode_entry ::
    "u32 \<Rightarrow> VersionEdit \<Rightarrow> FileMetaData \<Rightarrow> bytes \<Rightarrow> string option \<times> VersionEdit \<times> FileMetaData \<times> bytes" where
  "decode_entry tag e f input =
     (if tag = kComparator then
        (case GetLengthPrefixedSlice input of
           Some (str, input) \<Rightarrow> (None, e\<lparr>comparator_name := str, has_comparator := True\<rparr>, f, input)
         | None \<Rightarrow> (Some ''comparator name'', e, f, input))
      else if tag = kLogNumber then
        decode_u64 ''log number'' (\<lambda>v e. e\<lparr>log_number := v, has_log_number := True\<rparr>) e f input
      else if tag = kPrevLogNumber then
        decode_u64 ''previous log number'' (\<lambda>v e. e\<lparr>prev_log_number := v, has_prev_log_number := True\<rparr>) e f input
      else if tag = kNextFileNumber then
        decode_u64 ''next file number'' (\<lambda>v e. e\<lparr>next_file_number := v, has_next_file_number := True\<rparr>) e f input
      else if tag = kLastSequence then
        decode_u64 ''last sequence number'' (\<lambda>v e. e\<lparr>last_sequence := v, has_last_sequence := True\<rparr>) e f input
      else if tag = kMaxColumnFamily then
        (case GetVarint32 input of
           Some (v, input) \<Rightarrow> (None, e\<lparr>max_column_family := v, has_max_column_family := True\<rparr>, f, input)
         | None \<Rightarrow> (Some ''max column family'', e, f, input))
      else if tag = kCompactPointer then
        (case GetLevel input e of
           None \<Rightarrow> (Some ''compaction pointer'', e, f, input)
         | Some (level, input, e) \<Rightarrow>
             (case edit_GetInternalKey input of
                None \<Rightarrow> (Some ''compaction pointer'', e, f, input)
              | Some (key, input) \<Rightarrow> (None, e, f, input)))
      else if tag = kDeletedFile then
        (case GetLevel input e of
           None \<Rightarrow> (Some ''deleted file'', e, f, input)
         | Some (level, input, e) \<Rightarrow>
             (case GetVarint64 input of
                None \<Rightarrow> (Some ''deleted file'', e, f, input)
              | Some (number, input) \<Rightarrow>
                  (None, e\<lparr>deleted_files := insort_insert (level, number) (deleted_files e)\<rparr>, f, input)))
      else if tag = kNewFile then decode_new_file False False ''new-file entry'' e f input
      else if tag = kNewFile2 then decode_new_file False True ''new-file2 entry'' e f input
      else if tag = kNewFile3 then decode_new_file True True ''new-file3 entry'' e f input
      else if tag = kNewFile4 then
        (case DecodeNewFile4From input e of (msg, e, input) \<Rightarrow> (msg, e, f, input))
      else if tag = kColumnFamily then
        (case GetVarint32 input of
           Some (v, input) \<Rightarrow> (None, e\<lparr>column_family := v\<rparr>, f, input)
         | None \<Rightarrow> (Some ''set column family id'', e, f, input))
      else if tag = kColumnFamilyAdd then
        (case GetLengthPrefixedSlice input of
           Some (str, input) \<Rightarrow> (None, e\<lparr>is_column_family_add := True, column_family_name := str\<rparr>, f, input)
         | None \<Rightarrow> (Some ''column family add'', e, f, input))
      else if tag = kColumnFamilyDrop then (None, e\<lparr>is_column_family_drop := True\<rparr>, f, input)
      else (Some ''unknown tag'', e, f, input))"

lemma edit_GetInternalKey_shorter: "edit_GetInternalKey input = Some (k, rest) \<Longrightarrow> length rest < length input"
  by (auto simp: edit_GetInternalKey_def bind_eq_Some_conv split: if_splits dest!: GetLengthPrefixedSlice_shorter)

lemma GetLevel_shorter: "GetLevel input e = Some (l, rest, e') \<Longrightarrow> length rest < length input"
  by (auto simp: GetLevel_def bind_eq_Some_conv Let_def dest!: GetVarint32_shorter)

lemma read_file_shorter:
  assumes "read_file with_path with_seqnos f input = Some (n, p, s, f', rest)"
  shows "length rest < length input"
proof -
  obtain i1 i2 i3 k1 i4 k2 i5 q1 i6 q2 where i: "GetVarint64 input = Some (n, i1)"
    "(if with_path then GetVarint32 i1 else Some (0, i1)) = Some (p, i2)"
    "GetVarint64 i2 = Some (s, i3)" "edit_GetInternalKey i3 = Some (k1, i4)" "edit_GetInternalKey i4 = Some (k2, i5)"
    "(if with_seqnos then GetVarint64 i5 else Some (smallest_seqno f, i5)) = Some (q1, i6)"
    "(if with_seqnos then GetVarint64 i6 else Some (largest_seqno f, i6)) = Some (q2, rest)"
    using assms by (auto simp: read_file_def bind_eq_Some_conv split del: if_split)
  have "length i2 \<le> length i1" "length i6 \<le> length i5" "length rest \<le> length i6"
    using i(2,6,7) by (auto split: if_splits dest: GetVarint32_shorter GetVarint64_shorter)
  then show ?thesis
    using GetVarint64_shorter [OF i(1)] GetVarint64_shorter [OF i(3)]
      edit_GetInternalKey_shorter [OF i(4)] edit_GetInternalKey_shorter [OF i(5)] by simp
qed

lemma read_custom_fields_shorter:
  "read_custom_fields p m input = Inr (p', m', rest) \<Longrightarrow> length rest < length input"
proof (induction p m input rule: read_custom_fields.induct)
  case (1 p m input)
  obtain tag input' where t: "GetVarint32 input = Some (tag, input')"
    using 1(4) by (cases "GetVarint32 input") (auto simp: read_custom_fields.simps [of p m input])
  note l = GetVarint32_shorter [OF t]
  show ?case
  proof (cases "tag = kTerminate")
    case True
    then show ?thesis
      using 1(4) t l by (simp add: read_custom_fields.simps [of p m input])
  next
    case False
    obtain field input'' where f: "GetLengthPrefixedSlice input' = Some (field, input'')"
      using 1(4) t False by (cases "GetLengthPrefixedSlice input'") (auto simp: read_custom_fields.simps [of p m input])
    note l' = GetLengthPrefixedSlice_shorter [OF f]
    note IH = 1(1-3) [OF t refl False f refl]
    have "length rest < length input''"
      using 1(4) IH t f False by (simp add: read_custom_fields.simps [of p m input] split: if_splits)
    then show ?thesis
      using l l' by simp
  qed
qed

lemmas shorter = GetVarint32_shorter GetVarint64_shorter GetLengthPrefixedSlice_shorter edit_GetInternalKey_shorter
  GetLevel_shorter read_file_shorter read_custom_fields_shorter

lemma decode_entry_shorter:
  assumes "decode_entry tag e f input = (None, e', f', rest)"
  shows "length rest \<le> length input"
  using assms
  by (auto simp: decode_entry_def decode_u64_def decode_new_file_def DecodeNewFile4From_def Let_def
      split: if_splits option.splits sum.splits prod.splits dest!: shorter)

function DecodeFrom_loop :: "VersionEdit \<Rightarrow> FileMetaData \<Rightarrow> bytes \<Rightarrow> string option \<times> VersionEdit \<times> bytes" where
  "DecodeFrom_loop e f input =
     (case GetVarint32 input of
        None \<Rightarrow> (None, e, input)
      | Some (tag, rest) \<Rightarrow>
          (case decode_entry tag e f rest of
             (Some msg, e, f, rest) \<Rightarrow> (Some msg, e, rest)
           | (None, e, f, rest) \<Rightarrow> DecodeFrom_loop e f rest))"
  by pat_completeness auto
termination
proof (relation "measure (\<lambda>(_, _, input). length input)")
  show "((e', f', rest'), e, f, input) \<in> measure (\<lambda>(_, _, input). length input)"
    if "GetVarint32 input = Some y" "(tag, rest) = y" "(m, y2) = decode_entry tag e f rest" "(e', y3) = y2" "(f', rest') = y3" "m = None"
    for e f input y tag rest m y2 e' y3 f' rest'
  proof -
    have "decode_entry tag e f rest = (None, e', f', rest')" "GetVarint32 input = Some (tag, rest)"
      using that by auto
    then show ?thesis
      using GetVarint32_shorter decode_entry_shorter by fastforce
  qed
qed simp

declare DecodeFrom_loop.simps [simp del]

definition DecodeFrom :: "bytes \<Rightarrow> Status \<times> VersionEdit" where
  "DecodeFrom src =
     (case DecodeFrom_loop Clear new_FileMetaData src of (msg, e, input) \<Rightarrow>
        let msg = (if msg = None \<and> input \<noteq> [] then Some ''invalid tag'' else msg)
        in (case msg of None \<Rightarrow> OK | Some m \<Rightarrow> Corruption (''VersionEdit: '' @ m), e))"

section \<open>Well-formed edits\<close>

text \<open>
  What the operations of an edit keep: a number that is not set has its default, deleted files are
  an ordered set, levels are 32-bit integers and names and keys have 32-bit lengths.
\<close>

definition is_int32 :: "int \<Rightarrow> bool" where
  "is_int32 l \<longleftrightarrow> - (2 ^ 31) \<le> l \<and> l < 2 ^ 31"

definition file_wf :: "int \<times> FileMetaData \<Rightarrow> bool" where
  "file_wf lf \<longleftrightarrow> is_int32 (fst lf) \<and> short (smallest (snd lf)) \<and> short (largest (snd lf))"

definition edit_wf :: "VersionEdit \<Rightarrow> bool" where
  "edit_wf e \<longleftrightarrow> (has_comparator e \<or> comparator_name e = []) \<and> (has_log_number e \<or> log_number e = 0)
     \<and> (has_prev_log_number e \<or> prev_log_number e = 0) \<and> (has_next_file_number e \<or> next_file_number e = 0)
     \<and> (has_last_sequence e \<or> last_sequence e = 0) \<and> (has_max_column_family e \<or> max_column_family e = 0)
     \<and> (is_column_family_add e \<or> column_family_name e = [])
     \<and> short (comparator_name e) \<and> short (column_family_name e)
     \<and> sorted (deleted_files e) \<and> distinct (deleted_files e)
     \<and> list_all (\<lambda>d. is_int32 (fst d)) (deleted_files e) \<and> list_all file_wf (new_files e)"

lemma edit_GetInternalKey_short: "edit_GetInternalKey input = Some (v, rest) \<Longrightarrow> short v"
  by (auto simp: edit_GetInternalKey_def bind_eq_Some_conv split: if_splits dest!: GetLengthPrefixedSlice_short)

lemma GetLevel_int32:
  assumes "GetLevel input e = Some (l, rest, e')"
  shows "is_int32 l \<and> e' = e\<lparr>max_level := max (max_level e) l\<rparr>"
proof -
  obtain v :: u32 where v: "l = sint v" and e': "e' = (if max_level e < l then e\<lparr>max_level := l\<rparr> else e)"
    using assms by (auto simp: GetLevel_def bind_eq_Some_conv Let_def)
  show ?thesis
    using sint_lt [of v] sint_ge [of v] by (simp add: v e' is_int32_def max_def)
qed

lemma edit_wf_max_level [simp]: "edit_wf (e\<lparr>max_level := l\<rparr>) = edit_wf e"
  by (simp add: edit_wf_def)

lemma insort_insert_wf: "edit_wf e \<Longrightarrow> is_int32 l \<Longrightarrow> edit_wf (e\<lparr>deleted_files := insort_insert (l, n) (deleted_files e)\<rparr>)"
  by (auto simp: edit_wf_def list_all_iff sorted_insort_insert distinct_insort_insert set_insort_insert)

lemma read_file_short:
  assumes "read_file with_path with_seqnos f input = Some (n, p, s, f', rest)"
  shows "short (smallest f') \<and> short (largest f')"
  using assms by (auto simp: read_file_def bind_eq_Some_conv split del: if_split dest!: edit_GetInternalKey_short)

lemma decode_entry_wf:
  assumes "decode_entry tag e f input = (msg, e', f', rest)" and "edit_wf e"
  shows "edit_wf e'"
proof -
  have slice: "edit_wf (e\<lparr>comparator_name := v, has_comparator := True\<rparr>)"
    "edit_wf (e\<lparr>is_column_family_add := True, column_family_name := v\<rparr>)" if "short v" for v
    using assms(2) that by (simp_all add: edit_wf_def)
  have num: "edit_wf (e\<lparr>log_number := v, has_log_number := True\<rparr>)" "edit_wf (e\<lparr>prev_log_number := v, has_prev_log_number := True\<rparr>)"
    "edit_wf (e\<lparr>next_file_number := v, has_next_file_number := True\<rparr>)" "edit_wf (e\<lparr>last_sequence := v, has_last_sequence := True\<rparr>)"
    "edit_wf (e\<lparr>max_column_family := w, has_max_column_family := True\<rparr>)" "edit_wf (e\<lparr>column_family := w\<rparr>)"
    "edit_wf (e\<lparr>is_column_family_drop := True\<rparr>)" for v w
    using assms(2) by (simp_all add: edit_wf_def)
  have del: "edit_wf (e\<lparr>max_level := l', deleted_files := insort_insert (l, n) (deleted_files e)\<rparr>)" if "is_int32 l" for l l' n
    using insort_insert_wf [of "e\<lparr>max_level := l'\<rparr>"] assms(2) that by simp
  have new: "edit_wf (e\<lparr>max_level := l', new_files := new_files e @ [lf]\<rparr>)" if "file_wf lf" for lf l'
    using assms(2) that by (simp add: edit_wf_def)
  show ?thesis
    using assms
    by (auto simp: decode_entry_def decode_u64_def decode_new_file_def DecodeNewFile4From_def Let_def file_wf_def
        split: if_splits option.splits sum.splits prod.splits
        dest!: GetLengthPrefixedSlice_short GetLevel_int32 read_file_short intro!: num slice del new)
qed

lemma DecodeFrom_loop_wf: "DecodeFrom_loop e f input = (msg, e', rest) \<Longrightarrow> edit_wf e \<Longrightarrow> edit_wf e'"
proof (induction e f input rule: DecodeFrom_loop.induct)
  case (1 e f input)
  show ?case
  proof (cases "GetVarint32 input")
    case None
    then show ?thesis
      using 1(2,3) by (simp add: DecodeFrom_loop.simps [of e f input])
  next
    case (Some tr)
    obtain tag r where tr: "GetVarint32 input = Some (tag, r)"
      using Some by (cases tr) simp
    obtain m e1 f1 r1 where d: "decode_entry tag e f r = (m, e1, f1, r1)"
      by (cases "decode_entry tag e f r")
    have "edit_wf e1"
      using decode_entry_wf [OF d] 1(3) by simp
    then show ?thesis
      using 1(1) [OF tr refl d [symmetric] _ refl refl] 1(2) tr d
      by (cases m) (auto simp: DecodeFrom_loop.simps [of e f input])
  qed
qed

lemma Clear_wf: "edit_wf Clear"
  by (simp add: edit_wf_def Clear_def short_def)



section \<open>Edits are read back\<close>

lemma get_key [simp]:
  "short v \<Longrightarrow> InternalKey_Valid v \<Longrightarrow>
    edit_GetInternalKey (EncodeVarint32 (word_of_nat (length v)) @ v @ rest) = Some (v, rest)"
  by (simp add: edit_GetInternalKey_def)

lemma get_level [simp]:
  assumes "is_int32 level"
  shows "GetLevel (EncodeVarint32 (word_of_int level) @ rest) e = Some (level, rest, e\<lparr>max_level := max (max_level e) level\<rparr>)"
proof -
  have "sint (word_of_int level :: u32) = level"
    using assms by (simp add: is_int32_def signed_of_int signed_take_bit_int_eq_self)
  then show ?thesis
    by (simp add: GetLevel_def max_def)
qed

lemmas put_simps = PutVarint32_def PutVarint64_def PutVarint32Varint64_def PutVarint32Varint32_def PutVarint64Varint64_def
  PutVarint32Varint32Varint64_def PutLengthPrefixedSlice_def

lemma loop_entry:
  assumes "decode_entry tag e f input = (None, e', f', rest)"
  shows "DecodeFrom_loop e f (EncodeVarint32 tag @ input) = DecodeFrom_loop e' f' rest"
  using assms by (simp add: DecodeFrom_loop.simps [of e f "EncodeVarint32 tag @ input"])

text \<open>The packed number of a descriptor is its file number and its path.\<close>

lemma path_bound: "GetPathId d \<le> 3"
proof -
  have "unat (packed_number_and_path_id d div 0x4000000000000000) \<le> 3"
    using unsigned_less [where 'a = nat, of "packed_number_and_path_id d"] by (simp add: unat_div)
  then show ?thesis
    by (simp add: GetPathId_def word_le_nat_alt unat_ucast_mod)
qed

lemma descriptor_parts [simp]: "new_FileDescriptor (GetNumber d) (GetPathId d) (file_size d) = d"
proof -
  let ?p = "packed_number_and_path_id d"
  have q: "unat (?p div 0x4000000000000000) = unat ?p div 2 ^ 62"
    by (simp add: unat_div)
  have small: "unat ?p div 2 ^ 62 < 4"
    using unsigned_less [where 'a = nat, of ?p] by simp
  have "(ucast (ucast (?p div 0x4000000000000000) :: u32) :: u64) = ?p div 0x4000000000000000"
    using small by (simp add: word_unat_eq_iff unat_ucast_mod q)
  then have "?p AND kFileNumberMask OR ucast (GetPathId d) * 0x4000000000000000
      = ?p AND mask 62 OR push_bit 62 (drop_bit 62 ?p)"
    by (simp add: GetPathId_def mask_numeral push_bit_eq_mult drop_bit_eq_div)
  also have "\<dots> = ?p"
  proof (rule bit_word_eqI)
    show "bit (?p AND mask 62 OR push_bit 62 (drop_bit 62 ?p)) n = bit ?p n" if "n < LENGTH(64)" for n
      using that by (cases "n < 62") (auto simp: bit_simps)
  qed
  finally show ?thesis
    by (simp add: new_FileDescriptor_def PackFileNumberAndPathId_def GetNumber_def)
qed

text \<open>Deleted files.\<close>

definition deleted_bytes :: "int \<times> u64 \<Rightarrow> bytes" where
  "deleted_bytes d = EncodeVarint32 kDeletedFile @ EncodeVarint32 (word_of_int (fst d)) @ EncodeVarint64 (snd d)"

lemma encode_deleted:
  "fold (\<lambda>(level, file) dst. PutVarint32Varint32Varint64 dst kDeletedFile (word_of_int level) file) ds dst
     = dst @ concat (map deleted_bytes ds)"
  by (induction ds arbitrary: dst) (auto simp: deleted_bytes_def put_simps)

definition top_level :: "int \<Rightarrow> int list \<Rightarrow> int" where
  "top_level l ls = fold max ls l"

lemma top_level_simps [simp]:
  "top_level l [] = l" "top_level l (x # xs) = top_level (max l x) xs"
  by (simp_all add: top_level_def max.commute)

lemma loop_deleted:
  assumes "list_all (\<lambda>d. is_int32 (fst d)) ds"
  shows "DecodeFrom_loop e f (concat (map deleted_bytes ds) @ rest) =
    DecodeFrom_loop (e\<lparr>max_level := top_level (max_level e) (map fst ds), deleted_files := fold insort_insert ds (deleted_files e)\<rparr>) f rest"
  using assms
proof (induction ds arbitrary: e)
  case (Cons d ds)
  have "DecodeFrom_loop e f (deleted_bytes d @ concat (map deleted_bytes ds) @ rest)
    = DecodeFrom_loop (e\<lparr>max_level := max (max_level e) (fst d), deleted_files := insort_insert d (deleted_files e)\<rparr>) f
        (concat (map deleted_bytes ds) @ rest)"
    unfolding deleted_bytes_def append_assoc using Cons(2) by (intro loop_entry) (simp add: decode_entry_def)
  then show ?case
    using Cons by simp
qed simp

lemma insort_insert_last: "sorted (xs @ [x]) \<Longrightarrow> distinct (xs @ [x]) \<Longrightarrow> insort_insert x xs = xs @ [x]"
proof -
  have "\<forall>y\<in>set xs. y < x \<Longrightarrow> insort x xs = xs @ [x]"
    by (induction xs) auto
  then show "sorted (xs @ [x]) \<Longrightarrow> distinct (xs @ [x]) \<Longrightarrow> insort_insert x xs = xs @ [x]"
    by (auto simp: insort_insert_key_def sorted_append order.strict_iff_order)
qed

lemma fold_insort_insert: "sorted (xs @ ys) \<Longrightarrow> distinct (xs @ ys) \<Longrightarrow> fold insort_insert ys xs = xs @ ys"
proof (induction ys arbitrary: xs)
  case (Cons y ys)
  have "insort_insert y xs = xs @ [y]"
    using Cons.prems by (intro insort_insert_last) (auto simp: sorted_append)
  then show ?case
    using Cons.IH [of "xs @ [y]"] Cons.prems by simp
qed simp

text \<open>Added files.\<close>

lemma encode_file_append: "encode_file l f dst = dst @ encode_file l f []"
  by (simp add: encode_file_def Let_def put_simps)

definition valid_file :: "int \<times> FileMetaData \<Rightarrow> bool" where
  "valid_file lf \<longleftrightarrow> InternalKey_Valid (smallest (snd lf)) \<and> InternalKey_Valid (largest (snd lf))"

lemma encode_files_eq:
  "fst (encode_files fs dst) = list_all valid_file fs"
  "list_all valid_file fs \<Longrightarrow> encode_files fs dst = (True, dst @ concat (map (\<lambda>(l, f). encode_file l f []) fs))"
proof (induction fs arbitrary: dst)
  case (Cons lf fs)
  obtain l f where lf: "lf = (l, f)"
    by (cases lf)
  case 1
  then show ?case
    using Cons(1) [of "encode_file l f dst"] by (auto simp: lf valid_file_def)
  case 2
  then show ?case
    using Cons(2) [of "encode_file l f dst"] encode_file_append [of l f dst] by (simp add: lf valid_file_def)
qed simp_all

lemma path_byte: "p \<le> 3 \<Longrightarrow> scast (ucast p :: byte) = p" for p :: u32
proof -
  assume "p \<le> 3"
  then have "p \<in> {0, 1, 2, 3}"
    by (auto simp: word_le_nat_alt word_unat_eq_iff)
  then show ?thesis
    by auto
qed

text \<open>The fields of an added file that all three formats have, and the two that follow the number and precede them.\<close>

definition key_bytes :: "FileMetaData \<Rightarrow> bytes" where
  "key_bytes g = EncodeVarint32 (word_of_nat (length (smallest g))) @ smallest g
     @ EncodeVarint32 (word_of_nat (length (largest g))) @ largest g
     @ EncodeVarint64 (smallest_seqno g) @ EncodeVarint64 (largest_seqno g)"

lemma read_file_encoded:
  assumes "short (smallest g)" "short (largest g)" "InternalKey_Valid (smallest g)" "InternalKey_Valid (largest g)"
  shows "read_file True True f (EncodeVarint64 n @ EncodeVarint32 p @ EncodeVarint64 s @ key_bytes g @ rest) =
      Some (n, p, s, f\<lparr>smallest := smallest g, largest := largest g, smallest_seqno := smallest_seqno g, largest_seqno := largest_seqno g\<rparr>, rest)"
    and "read_file False True f (EncodeVarint64 n @ EncodeVarint64 s @ key_bytes g @ rest) =
      Some (n, 0, s, f\<lparr>smallest := smallest g, largest := largest g, smallest_seqno := smallest_seqno g, largest_seqno := largest_seqno g\<rparr>, rest)"
  using assms by (simp_all add: read_file_def key_bytes_def)

definition custom_bytes :: "u32 \<Rightarrow> bytes" where
  "custom_bytes p = (if p \<noteq> 0 then EncodeVarint32 kPathId @ EncodeVarint32 1 @ [ucast p] else [])
     @ EncodeVarint32 kNeedCompaction @ EncodeVarint32 1 @ [1] @ EncodeVarint32 kTerminate"

lemma get_slice1: "GetLengthPrefixedSlice (EncodeVarint32 1 @ [b] @ rest) = Some ([b], rest)"
  using get_slice [of "[b]" rest] by (simp add: short_def)

lemma read_custom_encoded:
  assumes "p \<le> 3"
  shows "read_custom_fields 0 m (custom_bytes p @ rest) = Inr (p, True, rest)"
proof -
  have fin: "read_custom_fields q True (EncodeVarint32 kTerminate @ rest) = Inr (q, True, rest)" for q
    by (simp add: read_custom_fields.simps [of q True "EncodeVarint32 kTerminate @ rest"])
  have need: "read_custom_fields q m (EncodeVarint32 kNeedCompaction @ EncodeVarint32 1 @ [1] @ EncodeVarint32 kTerminate @ rest)
      = Inr (q, True, rest)" for q
    using fin get_slice1 [of 1 "EncodeVarint32 kTerminate @ rest"]
    by (simp add: read_custom_fields.simps [of q m "EncodeVarint32 kNeedCompaction @ r" for r])
  show ?thesis
  proof (cases "p = 0")
    case True
    then show ?thesis
      using need [of 0] by (simp add: custom_bytes_def)
  next
    case False
    let ?r = "EncodeVarint32 kNeedCompaction @ EncodeVarint32 1 @ [1] @ EncodeVarint32 kTerminate @ rest"
    have "read_custom_fields 0 m (EncodeVarint32 kPathId @ EncodeVarint32 1 @ [ucast p] @ ?r) = read_custom_fields p m ?r"
      using get_slice1 [of "ucast p" ?r] path_byte [OF assms] leD [OF assms]
      by (simp add: read_custom_fields.simps [of 0 m "EncodeVarint32 kPathId @ r" for r])
    then show ?thesis
      using need [of p] False by (simp add: custom_bytes_def)
  qed
qed

lemma encode_file_bytes:
  "encode_file l g [] =
     (if marked_for_compaction g then
        EncodeVarint32 kNewFile4 @ EncodeVarint32 (word_of_int l) @ EncodeVarint64 (GetNumber (fd g))
        @ EncodeVarint64 (file_size (fd g)) @ key_bytes g @ custom_bytes (GetPathId (fd g))
      else if GetPathId (fd g) = 0 then
        EncodeVarint32 kNewFile2 @ EncodeVarint32 (word_of_int l) @ EncodeVarint64 (GetNumber (fd g))
        @ EncodeVarint64 (file_size (fd g)) @ key_bytes g
      else
        EncodeVarint32 kNewFile3 @ EncodeVarint32 (word_of_int l) @ EncodeVarint64 (GetNumber (fd g))
        @ EncodeVarint32 (GetPathId (fd g)) @ EncodeVarint64 (file_size (fd g)) @ key_bytes g)"
  by (simp add: encode_file_def Let_def put_simps key_bytes_def custom_bytes_def)

lemma loop_file:
  assumes "file_wf (l, g)" and "valid_file (l, g)" and "\<not> marked_for_compaction f"
  shows "\<exists>f'. \<not> marked_for_compaction f' \<and> DecodeFrom_loop e f (encode_file l g [] @ rest) =
    DecodeFrom_loop (e\<lparr>max_level := max (max_level e) l, new_files := new_files e @ [(l, g)]\<rparr>) f' rest"
proof -
  have wf: "is_int32 l" "short (smallest g)" "short (largest g)" "InternalKey_Valid (smallest g)" "InternalKey_Valid (largest g)"
    using assms(1,2) by (simp_all add: file_wf_def valid_file_def)
  note read = read_file_encoded [OF wf(2-5)]
  let ?d = "\<lambda>p. new_FileDescriptor (GetNumber (fd g)) p (file_size (fd g))"
  consider (four) "marked_for_compaction g" | (two) "\<not> marked_for_compaction g" "GetPathId (fd g) = 0"
    | (three) "\<not> marked_for_compaction g" "GetPathId (fd g) \<noteq> 0"
    by blast
  then show ?thesis
  proof cases
    case four
    have "new_FileMetaData\<lparr>smallest := smallest g, largest := largest g, smallest_seqno := smallest_seqno g,
        largest_seqno := largest_seqno g, marked_for_compaction := True, fd := ?d (GetPathId (fd g))\<rparr> = g"
      using four by simp
    then have "decode_entry kNewFile4 e f (EncodeVarint32 (word_of_int l) @ EncodeVarint64 (GetNumber (fd g))
        @ EncodeVarint64 (file_size (fd g)) @ key_bytes g @ custom_bytes (GetPathId (fd g)) @ rest)
      = (None, e\<lparr>max_level := max (max_level e) l, new_files := new_files e @ [(l, g)]\<rparr>, f, rest)"
      using wf(1) read(2) read_custom_encoded [OF path_bound]
      by (simp add: decode_entry_def DecodeNewFile4From_def)
    from loop_entry [OF this] show ?thesis
      using four assms(3) by (auto simp: encode_file_bytes)
  next
    case two
    have "f\<lparr>smallest := smallest g, largest := largest g, smallest_seqno := smallest_seqno g,
        largest_seqno := largest_seqno g, fd := ?d 0\<rparr> = g"
      using two assms(3) descriptor_parts [of "fd g"] by simp
    then have "decode_entry kNewFile2 e f (EncodeVarint32 (word_of_int l) @ EncodeVarint64 (GetNumber (fd g))
        @ EncodeVarint64 (file_size (fd g)) @ key_bytes g @ rest)
      = (None, e\<lparr>max_level := max (max_level e) l, new_files := new_files e @ [(l, g)]\<rparr>, g, rest)"
      using wf(1) read(2) by (simp add: decode_entry_def decode_new_file_def Let_def)
    from loop_entry [OF this] show ?thesis
      using two by (auto simp: encode_file_bytes)
  next
    case three
    have "f\<lparr>smallest := smallest g, largest := largest g, smallest_seqno := smallest_seqno g,
        largest_seqno := largest_seqno g, fd := ?d (GetPathId (fd g))\<rparr> = g"
      using three assms(3) by simp
    then have "decode_entry kNewFile3 e f (EncodeVarint32 (word_of_int l) @ EncodeVarint64 (GetNumber (fd g))
        @ EncodeVarint32 (GetPathId (fd g)) @ EncodeVarint64 (file_size (fd g)) @ key_bytes g @ rest)
      = (None, e\<lparr>max_level := max (max_level e) l, new_files := new_files e @ [(l, g)]\<rparr>, g, rest)"
      using wf(1) read(1) by (simp add: decode_entry_def decode_new_file_def Let_def)
    from loop_entry [OF this] show ?thesis
      using three by (auto simp: encode_file_bytes)
  qed
qed

lemma loop_files:
  assumes "list_all file_wf fs" and "list_all valid_file fs" and "\<not> marked_for_compaction f"
  shows "\<exists>f'. DecodeFrom_loop e f (concat (map (\<lambda>(l, g). encode_file l g []) fs) @ rest) =
    DecodeFrom_loop (e\<lparr>max_level := top_level (max_level e) (map fst fs), new_files := new_files e @ fs\<rparr>) f' rest"
  using assms
proof (induction fs arbitrary: e f)
  case (Cons lf fs)
  obtain l g where lf: "lf = (l, g)"
    by (cases lf)
  have "file_wf (l, g)" "valid_file (l, g)"
    using Cons.prems(1,2) by (simp_all add: lf)
  from loop_file [OF this Cons.prems(3), of e "concat (map (\<lambda>(l, g). encode_file l g []) fs) @ rest"]
  obtain f1 where "\<not> marked_for_compaction f1" "DecodeFrom_loop e f (encode_file l g [] @ concat (map (\<lambda>(l, g). encode_file l g []) fs) @ rest) =
    DecodeFrom_loop (e\<lparr>max_level := max (max_level e) l, new_files := new_files e @ [(l, g)]\<rparr>) f1 (concat (map (\<lambda>(l, g). encode_file l g []) fs) @ rest)"
    by blast
  then show ?case
    using Cons.IH [of f1 "e\<lparr>max_level := max (max_level e) l, new_files := new_files e @ [(l, g)]\<rparr>"] Cons.prems(1,2)
    by (simp add: lf)
qed auto

text \<open>The numbers at the start of an edit and the column family at its end.\<close>

definition head_bytes :: "VersionEdit \<Rightarrow> bytes" where
  "head_bytes e =
     (if has_comparator e then EncodeVarint32 kComparator @ EncodeVarint32 (word_of_nat (length (comparator_name e))) @ comparator_name e else [])
     @ (if has_log_number e then EncodeVarint32 kLogNumber @ EncodeVarint64 (log_number e) else [])
     @ (if has_prev_log_number e then EncodeVarint32 kPrevLogNumber @ EncodeVarint64 (prev_log_number e) else [])
     @ (if has_next_file_number e then EncodeVarint32 kNextFileNumber @ EncodeVarint64 (next_file_number e) else [])
     @ (if has_last_sequence e then EncodeVarint32 kLastSequence @ EncodeVarint64 (last_sequence e) else [])
     @ (if has_max_column_family e then EncodeVarint32 kMaxColumnFamily @ EncodeVarint32 (max_column_family e) else [])"

definition tail_bytes :: "VersionEdit \<Rightarrow> bytes" where
  "tail_bytes e =
     (if column_family e \<noteq> 0 then EncodeVarint32 kColumnFamily @ EncodeVarint32 (column_family e) else [])
     @ (if is_column_family_add e then EncodeVarint32 kColumnFamilyAdd @ EncodeVarint32 (word_of_nat (length (column_family_name e))) @ column_family_name e else [])
     @ (if is_column_family_drop e then EncodeVarint32 kColumnFamilyDrop else [])"

lemma EncodeTo_eq:
  "fst (EncodeTo e dst) = list_all valid_file (new_files e)"
  "list_all valid_file (new_files e) \<Longrightarrow> EncodeTo e dst = (True, dst @ head_bytes e @ concat (map deleted_bytes (deleted_files e))
     @ concat (map (\<lambda>(l, g). encode_file l g []) (new_files e)) @ tail_bytes e)"
proof -
  let ?d = "dst @ head_bytes e @ concat (map deleted_bytes (deleted_files e))"
  have eq: "EncodeTo e dst = (case encode_files (new_files e) ?d of (False, dst) \<Rightarrow> (False, dst) | (True, dst) \<Rightarrow> (True, dst @ tail_bytes e))"
  proof -
    have slice: "PutLengthPrefixedSlice (PutVarint32 d k) v = d @ (EncodeVarint32 k @ EncodeVarint32 (word_of_nat (length v)) @ v)" for d k v
      by (simp add: put_simps)
    have if_append: "(if b then x @ y else x) = x @ (if b then y else [])" for b and x y :: bytes
      by simp
    show ?thesis
      unfolding EncodeTo_def Let_def slice encode_deleted
      unfolding PutVarint32Varint64_def PutVarint32Varint32_def PutVarint32_def
      unfolding if_append
      by (simp only: head_bytes_def tail_bytes_def append_assoc)
  qed
  show "fst (EncodeTo e dst) = list_all valid_file (new_files e)"
    unfolding eq using encode_files_eq(1) [of "new_files e" ?d] by (auto split: prod.splits bool.splits)
  show "list_all valid_file (new_files e) \<Longrightarrow> EncodeTo e dst = (True, dst @ head_bytes e @ concat (map deleted_bytes (deleted_files e))
     @ concat (map (\<lambda>(l, g). encode_file l g []) (new_files e)) @ tail_bytes e)"
    unfolding eq by (simp add: encode_files_eq(2))
qed

lemma loop_u64:
  "DecodeFrom_loop e f (EncodeVarint32 kLogNumber @ EncodeVarint64 v @ r) = DecodeFrom_loop (e\<lparr>log_number := v, has_log_number := True\<rparr>) f r"
  "DecodeFrom_loop e f (EncodeVarint32 kPrevLogNumber @ EncodeVarint64 v @ r) = DecodeFrom_loop (e\<lparr>prev_log_number := v, has_prev_log_number := True\<rparr>) f r"
  "DecodeFrom_loop e f (EncodeVarint32 kNextFileNumber @ EncodeVarint64 v @ r) = DecodeFrom_loop (e\<lparr>next_file_number := v, has_next_file_number := True\<rparr>) f r"
  "DecodeFrom_loop e f (EncodeVarint32 kLastSequence @ EncodeVarint64 v @ r) = DecodeFrom_loop (e\<lparr>last_sequence := v, has_last_sequence := True\<rparr>) f r"
  by (simp_all add: loop_entry decode_entry_def decode_u64_def)

lemma loop_other:
  "DecodeFrom_loop e f (EncodeVarint32 kMaxColumnFamily @ EncodeVarint32 w @ r) = DecodeFrom_loop (e\<lparr>max_column_family := w, has_max_column_family := True\<rparr>) f r"
  "DecodeFrom_loop e f (EncodeVarint32 kColumnFamily @ EncodeVarint32 w @ r) = DecodeFrom_loop (e\<lparr>column_family := w\<rparr>) f r"
  "DecodeFrom_loop e f (EncodeVarint32 kColumnFamilyDrop @ r) = DecodeFrom_loop (e\<lparr>is_column_family_drop := True\<rparr>) f r"
  "short s \<Longrightarrow> DecodeFrom_loop e f (EncodeVarint32 kComparator @ EncodeVarint32 (word_of_nat (length s)) @ s @ r) = DecodeFrom_loop (e\<lparr>comparator_name := s, has_comparator := True\<rparr>) f r"
  "short s \<Longrightarrow> DecodeFrom_loop e f (EncodeVarint32 kColumnFamilyAdd @ EncodeVarint32 (word_of_nat (length s)) @ s @ r) = DecodeFrom_loop (e\<lparr>is_column_family_add := True, column_family_name := s\<rparr>) f r"
  by (simp_all add: loop_entry decode_entry_def)

text \<open>The same for entries that may be missing.\<close>

lemma loop_if:
  "DecodeFrom_loop x f ((if b then EncodeVarint32 kLogNumber @ EncodeVarint64 v else []) @ r) =
     DecodeFrom_loop (x\<lparr>log_number := if b then v else log_number x, has_log_number := b \<or> has_log_number x\<rparr>) f r"
  "DecodeFrom_loop x f ((if b then EncodeVarint32 kPrevLogNumber @ EncodeVarint64 v else []) @ r) =
     DecodeFrom_loop (x\<lparr>prev_log_number := if b then v else prev_log_number x, has_prev_log_number := b \<or> has_prev_log_number x\<rparr>) f r"
  "DecodeFrom_loop x f ((if b then EncodeVarint32 kNextFileNumber @ EncodeVarint64 v else []) @ r) =
     DecodeFrom_loop (x\<lparr>next_file_number := if b then v else next_file_number x, has_next_file_number := b \<or> has_next_file_number x\<rparr>) f r"
  "DecodeFrom_loop x f ((if b then EncodeVarint32 kLastSequence @ EncodeVarint64 v else []) @ r) =
     DecodeFrom_loop (x\<lparr>last_sequence := if b then v else last_sequence x, has_last_sequence := b \<or> has_last_sequence x\<rparr>) f r"
  "DecodeFrom_loop x f ((if b then EncodeVarint32 kMaxColumnFamily @ EncodeVarint32 w else []) @ r) =
     DecodeFrom_loop (x\<lparr>max_column_family := if b then w else max_column_family x, has_max_column_family := b \<or> has_max_column_family x\<rparr>) f r"
  "DecodeFrom_loop x f ((if w \<noteq> 0 then EncodeVarint32 kColumnFamily @ EncodeVarint32 w else []) @ r) =
     DecodeFrom_loop (x\<lparr>column_family := if w \<noteq> 0 then w else column_family x\<rparr>) f r"
  "DecodeFrom_loop x f ((if b then EncodeVarint32 kColumnFamilyDrop else []) @ r) =
     DecodeFrom_loop (x\<lparr>is_column_family_drop := b \<or> is_column_family_drop x\<rparr>) f r"
  "short s \<Longrightarrow> DecodeFrom_loop x f ((if b then EncodeVarint32 kComparator @ EncodeVarint32 (word_of_nat (length s)) @ s else []) @ r) =
     DecodeFrom_loop (x\<lparr>comparator_name := if b then s else comparator_name x, has_comparator := b \<or> has_comparator x\<rparr>) f r"
  "short s \<Longrightarrow> DecodeFrom_loop x f ((if b then EncodeVarint32 kColumnFamilyAdd @ EncodeVarint32 (word_of_nat (length s)) @ s else []) @ r) =
     DecodeFrom_loop (x\<lparr>is_column_family_add := b \<or> is_column_family_add x, column_family_name := if b then s else column_family_name x\<rparr>) f r"
  by (simp_all add: loop_u64 loop_other)

lemma loop_head:
  assumes "edit_wf e"
  shows "DecodeFrom_loop Clear f (head_bytes e @ r) =
    DecodeFrom_loop (e\<lparr>max_level := 0, deleted_files := [], new_files := [], column_family := 0, is_column_family_drop := False,
      is_column_family_add := False, column_family_name := []\<rparr>) f r"
proof -
  have wf: "short (comparator_name e)" "(if has_comparator e then comparator_name e else []) = comparator_name e"
    "(if has_log_number e then log_number e else 0) = log_number e" "(if has_prev_log_number e then prev_log_number e else 0) = prev_log_number e"
    "(if has_next_file_number e then next_file_number e else 0) = next_file_number e"
    "(if has_last_sequence e then last_sequence e else 0) = last_sequence e"
    "(if has_max_column_family e then max_column_family e else 0) = max_column_family e"
    using assms by (auto simp: edit_wf_def)
  show ?thesis
    unfolding head_bytes_def append_assoc loop_if(8) [OF wf(1)] loop_if(1-5)
    by (rule arg_cong [where f = "\<lambda>x. DecodeFrom_loop x f r"], rule VersionEdit.equality)
      (simp_all add: Clear_def wf split del: if_split cong: if_cong)
qed

lemma loop_tail:
  assumes "short (column_family_name e)" and "is_column_family_add e \<or> column_family_name e = []"
  shows "DecodeFrom_loop (e\<lparr>max_level := l, column_family := 0, is_column_family_drop := False,
      is_column_family_add := False, column_family_name := []\<rparr>) f (tail_bytes e) = (None, e\<lparr>max_level := l\<rparr>, [])"
proof -
  have wf: "(if is_column_family_add e then column_family_name e else []) = column_family_name e"
    "(if column_family e \<noteq> 0 then column_family e else 0) = column_family e"
    using assms(2) by auto
  have nil: "DecodeFrom_loop x f [] = (None, x, [])" for x
    by (simp add: DecodeFrom_loop.simps [of x f "[]"] GetVarint32_def GetVarint32Ptr_def GetVarint32PtrFallback_def)
  have "DecodeFrom_loop (e\<lparr>max_level := l, column_family := 0, is_column_family_drop := False,
      is_column_family_add := False, column_family_name := []\<rparr>) f (tail_bytes e @ []) = (None, e\<lparr>max_level := l\<rparr>, [])"
    unfolding tail_bytes_def append_assoc loop_if(9) [OF assms(1)] loop_if(6,7) nil prod.inject
    by (intro conjI refl, rule VersionEdit.equality) (simp_all add: wf split del: if_split cong: if_cong)
  then show ?thesis
    by simp
qed

lemma decode_encoded:
  assumes "edit_wf e" and v: "list_all valid_file (new_files e)"
  shows "DecodeFrom (snd (EncodeTo e [])) = (OK, e\<lparr>max_level := top_level 0 (map fst (deleted_files e) @ map fst (new_files e))\<rparr>)"
proof -
  let ?files = "concat (map (\<lambda>(l, g). encode_file l g []) (new_files e))"
  have wf: "list_all (\<lambda>d. is_int32 (fst d)) (deleted_files e)" "fold insort_insert (deleted_files e) [] = deleted_files e"
    "list_all file_wf (new_files e)" "\<not> marked_for_compaction new_FileMetaData" "short (column_family_name e)"
    "is_column_family_add e \<or> column_family_name e = []"
    using assms(1) fold_insort_insert [of "[]" "deleted_files e"] by (auto simp: edit_wf_def new_FileMetaData_def)
  define e1 where "e1 = e\<lparr>max_level := top_level 0 (map fst (deleted_files e)), new_files := [], column_family := 0,
    is_column_family_drop := False, is_column_family_add := False, column_family_name := []\<rparr>"
  have e1: "e\<lparr>new_files := [], column_family := 0, is_column_family_drop := False, is_column_family_add := False,
      column_family_name := [], max_level := top_level 0 (map fst (deleted_files e))\<rparr> = e1"
    by (rule VersionEdit.equality) (simp_all add: e1_def)
  have e2: "e1\<lparr>max_level := l, new_files := new_files e\<rparr> = e\<lparr>max_level := l, column_family := 0,
      is_column_family_drop := False, is_column_family_add := False, column_family_name := []\<rparr>" for l
    by (rule VersionEdit.equality) (simp_all add: e1_def)
  have "DecodeFrom_loop Clear new_FileMetaData (snd (EncodeTo e [])) = DecodeFrom_loop e1 new_FileMetaData (?files @ tail_bytes e)"
    unfolding EncodeTo_eq(2) [OF v] using loop_deleted [OF wf(1)] by (simp add: loop_head [OF assms(1)] e1 wf(2))
  also obtain f where "\<dots> = DecodeFrom_loop (e1\<lparr>max_level := top_level (max_level e1) (map fst (new_files e)), new_files := new_files e\<rparr>) f (tail_bytes e)"
    using loop_files [OF wf(3) v wf(4), of e1 "tail_bytes e"] by (auto simp: e1_def)
  also have "\<dots> = (None, e\<lparr>max_level := top_level 0 (map fst (deleted_files e) @ map fst (new_files e))\<rparr>, [])"
    using loop_tail [OF wf(5,6), of "top_level 0 (map fst (deleted_files e) @ map fst (new_files e))" f]
    unfolding e2 by (simp add: e1_def top_level_def)
  finally show "DecodeFrom (snd (EncodeTo e [])) = (OK, e\<lparr>max_level := top_level 0 (map fst (deleted_files e) @ map fst (new_files e))\<rparr>)"
    by (simp add: DecodeFrom_def)
qed

text \<open>
  C14: An edit is written exactly when the bounds of all its added files are valid internal keys,
  and what is written is read back as the same edit, with every file, path, mark and number; only
  the largest level is computed anew from the levels of its files.
\<close>

theorem VersionEdit_roundtrip:
  assumes "edit_wf e"
  shows "fst (EncodeTo e []) = list_all valid_file (new_files e)
    \<and> (fst (EncodeTo e []) \<longrightarrow> DecodeFrom (snd (EncodeTo e [])) =
        (OK, e\<lparr>max_level := top_level 0 (map fst (deleted_files e) @ map fst (new_files e))\<rparr>))"
  using decode_encoded [OF assms] by (simp add: EncodeTo_eq(1))

text \<open>In the example one file is deleted and one is added on the second path, marked for compaction.\<close>

definition example_edit :: VersionEdit where
  "example_edit = AddFile 2 12 1 4096 (InternalKey [97] 5 kTypeValue) (InternalKey [98] 9 kTypeValue) 5 9 True
     (DeleteFile 1 7 (SetLogNumber 3 Clear))"

lemma VersionEdit_roundtrip_witness:
  "fst (EncodeTo example_edit []) \<and> DecodeFrom (snd (EncodeTo example_edit [])) = (OK, example_edit\<lparr>max_level := 2\<rparr>)"
proof -
  have k: "InternalKey_Valid (InternalKey [97] 5 kTypeValue)" "InternalKey_Valid (InternalKey [98] 9 kTypeValue)"
    by (simp_all add: InternalKey_Valid_def InternalKey_def AppendInternalKey_def ParseInternalKey_def Let_def low_byte
        IsExtendedValueType_def IsValueType_def)
  have s: "short (InternalKey [97] 5 kTypeValue)" "short (InternalKey [98] 9 kTypeValue)"
    by (simp_all add: InternalKey_def AppendInternalKey_def short_def PutFixed64_append)
  have wf: "edit_wf example_edit"
    using s by (simp add: example_edit_def edit_wf_def AddFile_def DeleteFile_def SetLogNumber_def Clear_def file_wf_def is_int32_def
        short_def insort_insert_key_def)
  have "list_all valid_file (new_files example_edit)" "top_level 0 (map fst (deleted_files example_edit) @ map fst (new_files example_edit)) = 2"
    using k by (simp_all add: example_edit_def AddFile_def DeleteFile_def SetLogNumber_def Clear_def valid_file_def insort_insert_key_def)
  then show ?thesis
    using VersionEdit_roundtrip [OF wf] by simp
qed

section \<open>Old entries\<close>

text \<open>
  A file in the oldest format has no sequence numbers.  It takes those of the file before it in the
  same edit, because all entries are read into the same temporary file.
\<close>

lemma old_file_inherits_seqnos:
  assumes "is_int32 l" and "read_file False False f input = Some (n, p, s, f', rest)"
  shows "smallest_seqno f' = smallest_seqno f \<and> largest_seqno f' = largest_seqno f
    \<and> decode_entry kNewFile e f (EncodeVarint32 (word_of_int l) @ input) =
      (None, e\<lparr>max_level := max (max_level e) l, new_files := new_files e @ [(l, f'\<lparr>fd := new_FileDescriptor n p s\<rparr>)]\<rparr>,
       f'\<lparr>fd := new_FileDescriptor n p s\<rparr>, rest)"
proof -
  have "smallest_seqno f' = smallest_seqno f" "largest_seqno f' = largest_seqno f"
    using assms(2) by (auto simp: read_file_def bind_eq_Some_conv)
  then show ?thesis
    using assms by (simp add: decode_entry_def decode_new_file_def Let_def)
qed

end
