(* ===== verification/Version_Builder.thy ===== *)
theory Version_Builder
  imports Version_Edit "HOL-Library.Multiset"
begin

text \<open>
  How edits are applied to a version (db/version_builder.cc): a version is the list of its levels,
  each an ordered list of files; a builder collects the files that edits add to and delete from a
  base version and merges them with the base.
\<close>

section \<open>The order of files\<close>

abbreviation file_number :: "FileMetaData \<Rightarrow> u64" where
  "file_number f \<equiv> GetNumber (fd f)"

definition NewestFirstBySeqNo :: "FileMetaData \<Rightarrow> FileMetaData \<Rightarrow> bool" where
  "NewestFirstBySeqNo a b \<longleftrightarrow>
     (if largest_seqno a \<noteq> largest_seqno b then largest_seqno b < largest_seqno a
      else if smallest_seqno a \<noteq> smallest_seqno b then smallest_seqno b < smallest_seqno a
      else file_number b < file_number a)"

definition BySmallestKey :: "(bytes \<Rightarrow> bytes \<Rightarrow> int) \<Rightarrow> FileMetaData \<Rightarrow> FileMetaData \<Rightarrow> bool" where
  "BySmallestKey icmp a b \<longleftrightarrow>
     (let r = icmp (smallest a) (smallest b) in if r \<noteq> 0 then r < 0 else file_number a < file_number b)"

definition level_cmp :: "(bytes \<Rightarrow> bytes \<Rightarrow> int) \<Rightarrow> nat \<Rightarrow> FileMetaData \<Rightarrow> FileMetaData \<Rightarrow> bool" where
  "level_cmp icmp level = (if level = 0 then NewestFirstBySeqNo else BySmallestKey icmp)"

section \<open>The builder\<close>

type_synonym version = "FileMetaData list list"

record LevelState =
  ls_deleted_files :: "u64 set"
  ls_added_files :: "(u64 \<times> FileMetaData) list"

record VersionBuilder =
  base_vstorage :: version
  levels :: "LevelState list"

definition new_VersionBuilder :: "version \<Rightarrow> VersionBuilder" where
  "new_VersionBuilder base =
     \<lparr>base_vstorage = base, levels = replicate (length base) \<lparr>ls_deleted_files = {}, ls_added_files = []\<rparr>\<rparr>"

text \<open>
  \<open>None\<close> is an access outside the array of levels.  The consistency checks return at once in the
  source and do nothing.
\<close>

definition update_level :: "int \<Rightarrow> (LevelState \<Rightarrow> LevelState) \<Rightarrow> VersionBuilder \<Rightarrow> VersionBuilder option" where
  "update_level level upd b =
     (if 0 \<le> level \<and> nat level < length (levels b)
      then Some (b\<lparr>levels := (levels b)[nat level := upd (levels b ! nat level)]\<rparr>) else None)"

definition Apply_delete :: "int \<times> u64 \<Rightarrow> VersionBuilder \<Rightarrow> VersionBuilder option" where
  "Apply_delete = (\<lambda>(level, number).
     update_level level (\<lambda>ls. ls\<lparr>ls_deleted_files := insert number (ls_deleted_files ls),
                                ls_added_files := filter (\<lambda>(n, _). n \<noteq> number) (ls_added_files ls)\<rparr>))"

definition Apply_add :: "int \<times> FileMetaData \<Rightarrow> VersionBuilder \<Rightarrow> VersionBuilder option" where
  "Apply_add = (\<lambda>(level, f).
     update_level level (\<lambda>ls. ls\<lparr>ls_deleted_files := ls_deleted_files ls - {file_number f},
        ls_added_files := (file_number f, f) # filter (\<lambda>(n, _). n \<noteq> file_number f) (ls_added_files ls)\<rparr>))"

fun foldM :: "('a \<Rightarrow> 'b \<Rightarrow> 'b option) \<Rightarrow> 'a list \<Rightarrow> 'b \<Rightarrow> 'b option" where
  "foldM f [] b = Some b"
| "foldM f (x # xs) b = Option.bind (f x b) (foldM f xs)"

definition Apply :: "VersionEdit \<Rightarrow> VersionBuilder \<Rightarrow> VersionBuilder option" where
  "Apply e b = Option.bind (foldM Apply_delete (deleted_files e) b) (foldM Apply_add (new_files e))"

text \<open>
  \<open>std::sort\<close>, whose result is determined because no two files compare equal, and the merge with
  the base: \<open>std::upper_bound\<close> finds the base files that are not after the added file.
\<close>

fun insert_file :: "(FileMetaData \<Rightarrow> FileMetaData \<Rightarrow> bool) \<Rightarrow> FileMetaData \<Rightarrow> FileMetaData list \<Rightarrow> FileMetaData list" where
  "insert_file cmp f [] = [f]"
| "insert_file cmp f (g # gs) = (if cmp f g then f # g # gs else g # insert_file cmp f gs)"

definition sort_files :: "(FileMetaData \<Rightarrow> FileMetaData \<Rightarrow> bool) \<Rightarrow> FileMetaData list \<Rightarrow> FileMetaData list" where
  "sort_files cmp fs = foldr (insert_file cmp) fs []"

fun merge_added ::
    "(FileMetaData \<Rightarrow> FileMetaData \<Rightarrow> bool) \<Rightarrow> FileMetaData list \<Rightarrow> FileMetaData list \<Rightarrow> FileMetaData list" where
  "merge_added cmp base [] = base"
| "merge_added cmp base (added # rest) =
     takeWhile (\<lambda>b. \<not> cmp added b) base @ [added] @ merge_added cmp (dropWhile (\<lambda>b. \<not> cmp added b) base) rest"

definition MaybeAddFile :: "u64 set \<Rightarrow> FileMetaData list \<Rightarrow> FileMetaData \<Rightarrow> FileMetaData list" where
  "MaybeAddFile deleted level_files f = (if file_number f \<in> deleted then level_files else level_files @ [f])"

definition SaveTo_level ::
    "(FileMetaData \<Rightarrow> FileMetaData \<Rightarrow> bool) \<Rightarrow> LevelState \<Rightarrow> FileMetaData list \<Rightarrow> FileMetaData list" where
  "SaveTo_level cmp ls base =
     foldl (MaybeAddFile (ls_deleted_files ls)) [] (merge_added cmp base (sort_files cmp (map snd (ls_added_files ls))))"

definition SaveTo :: "(bytes \<Rightarrow> bytes \<Rightarrow> int) \<Rightarrow> VersionBuilder \<Rightarrow> version" where
  "SaveTo icmp b =
     map (\<lambda>l. SaveTo_level (level_cmp icmp l) (levels b ! l) (base_vstorage b ! l)) [0..<length (base_vstorage b)]"

text \<open>A version after one edit, as \<open>LogAndApply\<close> builds it.\<close>

definition apply_edit :: "(bytes \<Rightarrow> bytes \<Rightarrow> int) \<Rightarrow> VersionEdit \<Rightarrow> version \<Rightarrow> version option" where
  "apply_edit icmp e v = map_option (SaveTo icmp) (Apply e (new_VersionBuilder v))"

section \<open>Ordered levels\<close>

definition ordered_level ::
    "(FileMetaData \<Rightarrow> bool) \<Rightarrow> (FileMetaData \<Rightarrow> FileMetaData \<Rightarrow> bool) \<Rightarrow> FileMetaData list \<Rightarrow> bool" where
  "ordered_level file_ok before fs \<longleftrightarrow>
     sorted_wrt before fs \<and> (\<forall>f\<in>set fs. file_ok f) \<and> distinct (map file_number fs)"

text \<open>
  What the merge relies on: files with different numbers are strictly ordered.
\<close>

locale file_order =
  fixes file_ok :: "FileMetaData \<Rightarrow> bool" and before :: "FileMetaData \<Rightarrow> FileMetaData \<Rightarrow> bool"
  assumes before_asym: "file_ok a \<Longrightarrow> file_ok b \<Longrightarrow> before a b \<Longrightarrow> \<not> before b a"
    and before_trans: "file_ok a \<Longrightarrow> file_ok b \<Longrightarrow> file_ok c \<Longrightarrow> before a b \<Longrightarrow> before b c \<Longrightarrow> before a c"
    and before_total: "file_ok a \<Longrightarrow> file_ok b \<Longrightarrow> file_number a \<noteq> file_number b \<Longrightarrow> before a b \<or> before b a"
begin

abbreviation level_ok :: "FileMetaData list \<Rightarrow> bool" where
  "level_ok \<equiv> ordered_level file_ok before"

lemmas level_ok_def = ordered_level_def [of file_ok before]

lemma insert_file_set: "set (insert_file before f fs) = insert f (set fs)"
  by (induction fs) auto

lemma insert_file_numbers: "mset (insert_file before f fs) = add_mset f (mset fs)"
  by (induction fs) auto

lemma insert_file_ok:
  assumes "level_ok fs" and "file_ok f" and "file_number f \<notin> file_number ` set fs"
  shows "level_ok (insert_file before f fs)"
proof -
  have "sorted_wrt before (insert_file before f fs)"
    using assms
  proof (induction fs)
    case (Cons g gs)
    have g: "file_ok g" "before f g \<or> before g f" "\<forall>h\<in>set gs. before g h \<and> file_ok h"
      using Cons.prems before_total [of f g] by (auto simp: level_ok_def)
    show ?case
    proof (cases "before f g")
      case True
      have "before f h" if "h \<in> set gs" for h
        using before_trans [OF assms(2) g(1) _ True] g(3) that by blast
      then show ?thesis
        using True Cons.prems(1) by (simp add: level_ok_def)
    next
      case False
      have "sorted_wrt before (insert_file before f gs)"
        using Cons.IH Cons.prems by (simp add: level_ok_def)
      then show ?thesis
        using False g by (simp add: insert_file_set)
    qed
  qed (simp add: level_ok_def)
  moreover have "mset (map file_number (insert_file before f fs)) = mset (map file_number (f # fs))"
    by (simp add: insert_file_numbers)
  from mset_eq_imp_distinct_iff [OF this] have "distinct (map file_number (insert_file before f fs))"
    using assms by (simp add: level_ok_def)
  ultimately show ?thesis
    using assms by (auto simp: level_ok_def insert_file_set)
qed

lemma sort_files_ok:
  assumes "\<forall>f\<in>set fs. file_ok f" and "distinct (map file_number fs)"
  shows "level_ok (sort_files before fs) \<and> set (sort_files before fs) = set fs"
  using assms
proof (induction fs)
  case (Cons f fs)
  then show ?case
    using insert_file_ok [of "sort_files before fs" f] by (auto simp: sort_files_def insert_file_set)
qed (simp add: sort_files_def level_ok_def)

lemma merge_added_set: "set (merge_added before base added) = set base \<union> set added"
proof (induction added arbitrary: base)
  case (Cons a as)
  have "set (takeWhile (\<lambda>b. \<not> before a b) base) \<union> set (dropWhile (\<lambda>b. \<not> before a b) base) = set base"
    by (metis set_append takeWhile_dropWhile_id)
  then show ?case
    using Cons by auto
qed simp

lemma merge_added_mset: "mset (merge_added before base added) = mset base + mset added"
proof (induction added arbitrary: base)
  case (Cons a as)
  have "mset (takeWhile (\<lambda>b. \<not> before a b) base) + mset (dropWhile (\<lambda>b. \<not> before a b) base) = mset base"
    by (metis mset_append takeWhile_dropWhile_id)
  then show ?case
    using Cons by simp
qed simp

text \<open>The added file is after the files taken from the base and before those that are left.\<close>

lemma split_base:
  assumes "level_ok base" and "file_ok a" and "file_number a \<notin> file_number ` set base"
  shows "\<forall>b\<in>set (takeWhile (\<lambda>b. \<not> before a b) base). before b a"
    and "\<forall>b\<in>set (dropWhile (\<lambda>b. \<not> before a b) base). before a b"
proof -
  show "\<forall>b\<in>set (takeWhile (\<lambda>b. \<not> before a b) base). before b a"
  proof
    fix b
    assume b: "b \<in> set (takeWhile (\<lambda>b. \<not> before a b) base)"
    then have "\<not> before a b" "b \<in> set base"
      using set_takeWhileD by fast+
    moreover have "file_ok b" "file_number a \<noteq> file_number b"
      using \<open>b \<in> set base\<close> assms by (auto simp: level_ok_def)
    ultimately show "before b a"
      using before_total [OF assms(2)] by blast
  qed
  show "\<forall>b\<in>set (dropWhile (\<lambda>b. \<not> before a b) base). before a b"
    using assms(1)
  proof (induction base)
    case (Cons c cs)
    have c: "file_ok c" "\<forall>x\<in>set cs. before c x \<and> file_ok x"
      using Cons.prems by (simp_all add: level_ok_def)
    show ?case
    proof (cases "before a c")
      case True
      have "\<forall>x\<in>set cs. before a x"
        using before_trans [OF assms(2) c(1) _ True] c(2) by blast
      then show ?thesis
        using True by simp
    next
      case False
      then have eq: "dropWhile (\<lambda>b. \<not> before a b) (c # cs) = dropWhile (\<lambda>b. \<not> before a b) cs"
        by simp
      have "level_ok cs"
        using Cons.prems by (simp add: level_ok_def)
      then show ?thesis
        unfolding eq by (rule Cons.IH)
    qed
  qed simp
qed

lemma merge_added_ok:
  assumes "level_ok base" and "level_ok added" and "file_number ` set base \<inter> file_number ` set added = {}"
  shows "level_ok (merge_added before base added)"
proof -
  have sorted: "sorted_wrt before (merge_added before base added)"
    using assms
  proof (induction added arbitrary: base)
    case (Cons a as)
    let ?t = "takeWhile (\<lambda>b. \<not> before a b) base" and ?d = "dropWhile (\<lambda>b. \<not> before a b) base"
    have a: "file_ok a" "file_number a \<notin> file_number ` set base" "level_ok as" "\<forall>c\<in>set as. before a c \<and> file_ok c"
      using Cons.prems by (auto simp: level_ok_def)
    note sp = split_base [OF Cons.prems(1) a(1,2)]
    have t: "set ?t \<subseteq> set base" "set ?d \<subseteq> set base"
      by (auto dest: set_takeWhileD set_dropWhileD)
    have "level_ok (?t @ ?d)"
      using Cons.prems(1) by (simp only: takeWhile_dropWhile_id)
    then have td: "sorted_wrt before ?t" "level_ok ?d" "\<forall>x\<in>set ?t. \<forall>y\<in>set ?d. before x y"
      unfolding level_ok_def sorted_wrt_append set_append map_append distinct_append by blast+
    have IH: "sorted_wrt before (merge_added before ?d as)"
    proof (rule Cons.IH [OF td(2) a(3)])
      show "file_number ` set ?d \<inter> file_number ` set as = {}"
        using Cons.prems(3) t(2) by auto
    qed
    have ok: "file_ok x" if "x \<in> set base" for x
      using Cons.prems(1) that by (simp add: level_ok_def)
    have "before x y" if "x \<in> set ?t" "y \<in> set (merge_added before ?d as)" for x y
    proof -
      consider "y \<in> set ?d" | "y \<in> set as"
        using \<open>y \<in> _\<close> by (auto simp: merge_added_set)
      then show ?thesis
      proof cases
        case 1
        then show ?thesis
          using td(3) that(1) by blast
      next
        case 2
        then show ?thesis
          using before_trans [of x a y] sp(1) a ok t that(1) by blast
      qed
    qed
    then have c1: "\<forall>x\<in>set ?t. \<forall>y\<in>set (merge_added before ?d as). before x y"
      by blast
    have c2: "\<forall>y\<in>set (merge_added before ?d as). before a y"
      using sp(2) a(4) merge_added_set by blast
    have "sorted_wrt before (a # merge_added before ?d as)"
      using IH c2 by (simp only: sorted_wrt.simps)
    moreover have "\<forall>x\<in>set ?t. \<forall>y\<in>set (a # merge_added before ?d as). before x y"
      using sp(1) c1 by (simp only: list.set) blast
    ultimately show ?case
      using td(1) by (simp only: merge_added.simps sorted_wrt_append append.simps)
  qed (simp add: level_ok_def)
  have "distinct (map file_number (base @ added))"
    using assms by (auto simp: level_ok_def)
  moreover have "mset (map file_number (merge_added before base added)) = mset (map file_number (base @ added))"
    by (simp add: merge_added_mset)
  ultimately have "distinct (map file_number (merge_added before base added))"
    using mset_eq_imp_distinct_iff by blast
  with sorted show ?thesis
    using assms by (auto simp: level_ok_def merge_added_set)
qed

lemma level_ok_unique:
  assumes "level_ok xs" and "level_ok ys" and "set xs = set ys"
  shows "xs = ys"
  using assms
proof (induction xs arbitrary: ys)
  case (Cons x xs)
  obtain y ys' where ys: "ys = y # ys'"
    using Cons.prems(3) by (cases ys) auto
  have "x = y"
  proof (rule ccontr)
    assume "x \<noteq> y"
    then have "x \<in> set ys'" "y \<in> set xs"
      using Cons.prems(3) ys by auto
    then have "before y x" "before x y"
      using Cons.prems(1,2) ys by (auto simp: level_ok_def)
    then show False
      using before_asym [of x y] Cons.prems(1,2) ys by (auto simp: level_ok_def)
  qed
  moreover have "x \<notin> set xs" "y \<notin> set ys'"
    using Cons.prems(1,2) ys by (auto simp: level_ok_def)
  ultimately have "set xs = set ys'"
    using Cons.prems(3) ys by auto
  then show ?case
    using Cons ys \<open>x = y\<close> by (auto simp: level_ok_def)
qed simp

lemma filter_level_ok: "level_ok fs \<Longrightarrow> level_ok (filter P fs)"
  by (simp add: level_ok_def sorted_wrt_filter distinct_map_filter)

text \<open>Saving a level: the base files that are not deleted and the added files, in order.\<close>

lemma SaveTo_level_ok:
  assumes "level_ok base" and "\<forall>f\<in>snd ` set (ls_added_files ls). file_ok f"
    and "distinct (map fst (ls_added_files ls))" and "\<forall>(n, f)\<in>set (ls_added_files ls). n = file_number f"
    and "file_number ` set base \<inter> fst ` set (ls_added_files ls) = {}"
  shows "level_ok (SaveTo_level before ls base)"
    and "set (SaveTo_level before ls base) =
      {f \<in> set base \<union> snd ` set (ls_added_files ls). file_number f \<notin> ls_deleted_files ls}"
proof -
  let ?added = "map snd (ls_added_files ls)"
  have n: "map file_number ?added = map fst (ls_added_files ls)"
    using assms(4) by auto
  have sorted: "level_ok (sort_files before ?added)" "set (sort_files before ?added) = set ?added"
    using sort_files_ok [of ?added] assms(2,3) unfolding n set_map by blast+
  have "file_number ` set base \<inter> file_number ` set ?added = {}"
    using assms(5) n by (metis list.set_map)
  then have merged: "level_ok (merge_added before base (sort_files before ?added))"
    using merge_added_ok [OF assms(1) sorted(1)] sorted(2) by simp
  have fold: "foldl (MaybeAddFile d) acc fs = acc @ filter (\<lambda>f. file_number f \<notin> d) fs" for d acc fs
    by (induction fs arbitrary: acc) (auto simp: MaybeAddFile_def)
  show "level_ok (SaveTo_level before ls base)"
    unfolding SaveTo_level_def fold using filter_level_ok [OF merged] by simp
  show "set (SaveTo_level before ls base) =
      {f \<in> set base \<union> snd ` set (ls_added_files ls). file_number f \<notin> ls_deleted_files ls}"
    unfolding SaveTo_level_def fold by (auto simp: merge_added_set sorted(2))
qed

end

text \<open>Files whose smallest key is long enough to be an internal key are ordered at every level.\<close>

definition key_file :: "FileMetaData \<Rightarrow> bool" where
  "key_file f \<longleftrightarrow> 8 \<le> length (smallest f)"

interpretation newest_first: file_order key_file NewestFirstBySeqNo
  by unfold_locales (auto simp: NewestFirstBySeqNo_def split: if_splits)

context comparator_order
begin

lemma BySmallestKey_order:
  "file_order (\<lambda>f. valid (smallest f)) (BySmallestKey Compare)"
proof
  fix a b c :: FileMetaData
  assume a: "valid (smallest a)" and b: "valid (smallest b)"
  note flip = Compare_flip [OF a b] Compare_flip [OF b a]
  show "BySmallestKey Compare a b \<Longrightarrow> \<not> BySmallestKey Compare b a"
    using flip by (auto simp: BySmallestKey_def Let_def split: if_splits)
  show "file_number a \<noteq> file_number b \<Longrightarrow> BySmallestKey Compare a b \<or> BySmallestKey Compare b a"
    using flip by (auto simp: BySmallestKey_def Let_def split: if_splits)
  assume c: "valid (smallest c)"
  show "BySmallestKey Compare a b \<Longrightarrow> BySmallestKey Compare b c \<Longrightarrow> BySmallestKey Compare a c"
    using Compare_less_trans [OF a b c] Compare_le_less_trans [OF a b c] Compare_trans [OF a b c] Compare_trans [OF c b a]
      Compare_flip [OF b c] Compare_flip [OF c b] Compare_flip [OF a c] Compare_flip [OF c a] flip
    by (auto simp: BySmallestKey_def Let_def split: if_splits)
qed

end

interpretation smallest_bytewise: file_order key_file "BySmallestKey (InternalKeyComparator_Compare BytewiseComparator_Compare)"
  using internal_bytewise.BySmallestKey_order unfolding internal_valid_def key_file_def by simp

interpretation smallest_reverse: file_order key_file "BySmallestKey (InternalKeyComparator_Compare ReverseBytewiseComparator_Compare)"
  using internal_reverse.BySmallestKey_order unfolding internal_valid_def key_file_def by simp

section \<open>Versions and builders\<close>

text \<open>The comparators of the repository.\<close>

definition builtin_comparators :: "(bytes \<Rightarrow> bytes \<Rightarrow> int) set" where
  "builtin_comparators = {InternalKeyComparator_Compare BytewiseComparator_Compare, InternalKeyComparator_Compare ReverseBytewiseComparator_Compare}"

lemma level_order: "icmp \<in> builtin_comparators \<Longrightarrow> file_order key_file (level_cmp icmp l)"
  using newest_first.file_order_axioms smallest_bytewise.file_order_axioms smallest_reverse.file_order_axioms
  by (auto simp: builtin_comparators_def level_cmp_def)

definition version_ok :: "(bytes \<Rightarrow> bytes \<Rightarrow> int) \<Rightarrow> version \<Rightarrow> bool" where
  "version_ok icmp v \<longleftrightarrow> (\<forall>l<length v. ordered_level key_file (level_cmp icmp l) (v ! l))"

text \<open>The files a builder stands for, and what it keeps.\<close>

definition content :: "VersionBuilder \<Rightarrow> nat \<Rightarrow> FileMetaData set" where
  "content b l = {f \<in> set (base_vstorage b ! l). file_number f \<notin> ls_deleted_files (levels b ! l)}
     \<union> snd ` set (ls_added_files (levels b ! l))"

definition level_inv :: "FileMetaData list \<Rightarrow> LevelState \<Rightarrow> bool" where
  "level_inv base ls \<longleftrightarrow> (\<forall>(n, f)\<in>set (ls_added_files ls). n = file_number f \<and> key_file f)
     \<and> distinct (map fst (ls_added_files ls)) \<and> file_number ` set base \<inter> fst ` set (ls_added_files ls) = {}
     \<and> ls_deleted_files ls \<inter> fst ` set (ls_added_files ls) = {}"

definition builder_inv :: "(bytes \<Rightarrow> bytes \<Rightarrow> int) \<Rightarrow> VersionBuilder \<Rightarrow> bool" where
  "builder_inv icmp b \<longleftrightarrow> version_ok icmp (base_vstorage b) \<and> length (levels b) = length (base_vstorage b)
     \<and> (\<forall>l<length (levels b). level_inv (base_vstorage b ! l) (levels b ! l))"

lemma new_VersionBuilder_inv:
  assumes "version_ok icmp v"
  shows "builder_inv icmp (new_VersionBuilder v)" and "l < length v \<Longrightarrow> content (new_VersionBuilder v) l = set (v ! l)"
  using assms by (auto simp: builder_inv_def new_VersionBuilder_def level_inv_def content_def)

lemma SaveTo_correct:
  assumes "icmp \<in> builtin_comparators" and "builder_inv icmp b"
  shows "version_ok icmp (SaveTo icmp b)" and "length (SaveTo icmp b) = length (base_vstorage b)"
    and "l < length (base_vstorage b) \<Longrightarrow> set (SaveTo icmp b ! l) = content b l"
proof -
  have one: "ordered_level key_file (level_cmp icmp l) (SaveTo_level (level_cmp icmp l) (levels b ! l) (base_vstorage b ! l))"
    "set (SaveTo_level (level_cmp icmp l) (levels b ! l) (base_vstorage b ! l)) = content b l"
    if l: "l < length (base_vstorage b)" for l
  proof -
    have base: "ordered_level key_file (level_cmp icmp l) (base_vstorage b ! l)"
      using assms(2) l by (simp add: builder_inv_def version_ok_def)
    have "level_inv (base_vstorage b ! l) (levels b ! l)"
      using assms(2) l by (simp add: builder_inv_def)
    then have inv: "\<forall>f\<in>snd ` set (ls_added_files (levels b ! l)). key_file f" "distinct (map fst (ls_added_files (levels b ! l)))"
      "\<forall>(n, f)\<in>set (ls_added_files (levels b ! l)). n = file_number f"
      "file_number ` set (base_vstorage b ! l) \<inter> fst ` set (ls_added_files (levels b ! l)) = {}"
      "ls_deleted_files (levels b ! l) \<inter> fst ` set (ls_added_files (levels b ! l)) = {}"
      by (auto simp: level_inv_def)
    note ok = file_order.SaveTo_level_ok [OF level_order [OF assms(1)] base inv(1-4)]
    show "ordered_level key_file (level_cmp icmp l) (SaveTo_level (level_cmp icmp l) (levels b ! l) (base_vstorage b ! l))"
      by (rule ok)
    show "set (SaveTo_level (level_cmp icmp l) (levels b ! l) (base_vstorage b ! l)) = content b l"
      unfolding ok(2) content_def using inv(3,5) by force
  qed
  show "version_ok icmp (SaveTo icmp b)" "length (SaveTo icmp b) = length (base_vstorage b)"
    "l < length (base_vstorage b) \<Longrightarrow> set (SaveTo icmp b ! l) = content b l"
    using one by (simp_all add: SaveTo_def version_ok_def)
qed

lemma Apply_delete_content:
  assumes "builder_inv icmp b" and "0 \<le> level" and "nat level < length (base_vstorage b)"
  obtains b' where "Apply_delete (level, n) b = Some b'" "builder_inv icmp b'" "base_vstorage b' = base_vstorage b"
    "\<And>l. l < length (base_vstorage b) \<Longrightarrow> content b' l = {f \<in> content b l. (int l, file_number f) \<noteq> (level, n)}"
proof -
  define ls where "ls = levels b ! nat level"
  define ls' where "ls' = ls\<lparr>ls_deleted_files := insert n (ls_deleted_files ls), ls_added_files := filter (\<lambda>(m, _). m \<noteq> n) (ls_added_files ls)\<rparr>"
  have len: "length (levels b) = length (base_vstorage b)" and inv: "level_inv (base_vstorage b ! nat level) ls"
    using assms by (simp_all add: builder_inv_def ls_def)
  let ?b = "b\<lparr>levels := (levels b)[nat level := ls']\<rparr>"
  have "Apply_delete (level, n) b = Some ?b"
    using assms(2,3) len by (simp add: Apply_delete_def update_level_def ls_def ls'_def)
  moreover have "level_inv (base_vstorage b ! nat level) ls'"
    using inv by (auto simp: level_inv_def ls'_def distinct_map_filter)
  then have "builder_inv icmp ?b"
    using assms(1,3) by (simp add: builder_inv_def nth_list_update)
  moreover have "content ?b l = {f \<in> content b l. (int l, file_number f) \<noteq> (level, n)}" if "l < length (base_vstorage b)" for l
  proof (cases "l = nat level")
    case True
    have "snd ` set (ls_added_files ls') = {f \<in> snd ` set (ls_added_files ls). file_number f \<noteq> n}"
      using inv by (force simp: level_inv_def ls'_def)
    then show ?thesis
      using True that len assms(2) by (auto simp: content_def ls'_def ls_def)
  next
    case False
    then show ?thesis
      using assms(2) by (auto simp: content_def)
  qed
  ultimately show ?thesis
    using that by simp
qed

lemma Apply_add_content:
  assumes "builder_inv icmp b" and "0 \<le> level" and "nat level < length (base_vstorage b)" and "key_file f"
    and "file_number f \<notin> file_number ` set (base_vstorage b ! nat level)" and "file_number f \<notin> file_number ` content b (nat level)"
  obtains b' where "Apply_add (level, f) b = Some b'" "builder_inv icmp b'" "base_vstorage b' = base_vstorage b"
    "\<And>l. l < length (base_vstorage b) \<Longrightarrow> content b' l = content b l \<union> (if int l = level then {f} else {})"
proof -
  define ls where "ls = levels b ! nat level"
  define ls' where "ls' = ls\<lparr>ls_deleted_files := ls_deleted_files ls - {file_number f},
    ls_added_files := (file_number f, f) # filter (\<lambda>(m, _). m \<noteq> file_number f) (ls_added_files ls)\<rparr>"
  have len: "length (levels b) = length (base_vstorage b)" and inv: "level_inv (base_vstorage b ! nat level) ls"
    using assms by (simp_all add: builder_inv_def ls_def)
  have new: "file_number f \<notin> fst ` set (ls_added_files ls)"
  proof
    assume "file_number f \<in> fst ` set (ls_added_files ls)"
    then obtain g where g: "(file_number f, g) \<in> set (ls_added_files ls)"
      by auto
    with inv have "file_number f = file_number g"
      by (auto simp: level_inv_def)
    moreover have "g \<in> content b (nat level)"
      using g image_iff by (fastforce simp: content_def ls_def)
    ultimately show False
      using assms(6) by blast
  qed
  then have same: "filter (\<lambda>(m, _). m \<noteq> file_number f) (ls_added_files ls) = ls_added_files ls"
    by (force simp: filter_id_conv)
  let ?b = "b\<lparr>levels := (levels b)[nat level := ls']\<rparr>"
  have "Apply_add (level, f) b = Some ?b"
    using assms(2,3) len by (simp add: Apply_add_def update_level_def ls_def ls'_def)
  moreover have "level_inv (base_vstorage b ! nat level) ls'"
    using inv new assms(4,5) by (auto simp: level_inv_def ls'_def same)
  then have "builder_inv icmp ?b"
    using assms(1,3) by (simp add: builder_inv_def nth_list_update)
  moreover have "content ?b l = content b l \<union> (if int l = level then {f} else {})" if "l < length (base_vstorage b)" for l
  proof (cases "l = nat level")
    case True
    have "{g \<in> set (base_vstorage b ! nat level). file_number g \<notin> ls_deleted_files ls - {file_number f}}
      = {g \<in> set (base_vstorage b ! nat level). file_number g \<notin> ls_deleted_files ls}"
      using assms(5) by (metis Diff_iff imageI singletonD)
    then show ?thesis
      using True that len assms(2) by (simp add: content_def ls'_def ls_def same [unfolded ls_def] del: filter.simps set_filter)
  next
    case False
    then show ?thesis
      using assms(2) by (auto simp: content_def)
  qed
  ultimately show ?thesis
    using that by simp
qed

lemma Apply_deletes_content:
  assumes "builder_inv icmp b" and "list_all (\<lambda>(level, _). 0 \<le> level \<and> nat level < length (base_vstorage b)) ds"
  obtains b' where "foldM Apply_delete ds b = Some b'" "builder_inv icmp b'" "base_vstorage b' = base_vstorage b"
    "\<And>l. l < length (base_vstorage b) \<Longrightarrow> content b' l = {f \<in> content b l. (int l, file_number f) \<notin> set ds}"
  using assms
proof (induction ds arbitrary: b thesis)
  case Nil
  then show ?case
    by simp
next
  case (Cons d ds)
  obtain level n where d: "d = (level, n)"
    by (cases d)
  have lv: "0 \<le> level" "nat level < length (base_vstorage b)"
    and ds: "list_all (\<lambda>(level, _). 0 \<le> level \<and> nat level < length (base_vstorage b)) ds"
    using Cons.prems(3) by (simp_all add: d)
  obtain b1 where b1: "Apply_delete (level, n) b = Some b1" "builder_inv icmp b1" "base_vstorage b1 = base_vstorage b"
    "\<And>l. l < length (base_vstorage b) \<Longrightarrow> content b1 l = {f \<in> content b l. (int l, file_number f) \<noteq> (level, n)}"
    by (rule Apply_delete_content [OF Cons.prems(2) lv]) (rule that)
  obtain b' where b': "foldM Apply_delete ds b1 = Some b'" "builder_inv icmp b'" "base_vstorage b' = base_vstorage b1"
    "\<And>l. l < length (base_vstorage b1) \<Longrightarrow> content b' l = {f \<in> content b1 l. (int l, file_number f) \<notin> set ds}"
    by (rule Cons.IH [OF _ b1(2) ds [folded b1(3)]]) (rule that)
  show ?case
    by (rule Cons.prems(1) [of b']) (use b1 b' in \<open>auto simp: d\<close>)
qed

lemma Apply_adds_content:
  assumes "builder_inv icmp b" and "list_all (\<lambda>(level, f). 0 \<le> level \<and> nat level < length (base_vstorage b) \<and> key_file f
      \<and> file_number f \<notin> file_number ` set (base_vstorage b ! nat level) \<and> file_number f \<notin> file_number ` content b (nat level)) fs"
    and "distinct (map (\<lambda>(level, f). (level, file_number f)) fs)"
  obtains b' where "foldM Apply_add fs b = Some b'" "builder_inv icmp b'" "base_vstorage b' = base_vstorage b"
    "\<And>l. l < length (base_vstorage b) \<Longrightarrow> content b' l = content b l \<union> {f. (int l, f) \<in> set fs}"
  using assms
proof (induction fs arbitrary: b thesis)
  case Nil
  then show ?case
    by simp
next
  case (Cons x fs)
  obtain level f where x: "x = (level, f)"
    by (cases x)
  have lv: "0 \<le> level" "nat level < length (base_vstorage b)" "key_file f"
    "file_number f \<notin> file_number ` set (base_vstorage b ! nat level)" "file_number f \<notin> file_number ` content b (nat level)"
    and d: "distinct (map (\<lambda>(level, f). (level, file_number f)) fs)"
    using Cons.prems(3,4) by (simp_all add: x)
  obtain b1 where b1: "Apply_add (level, f) b = Some b1" "builder_inv icmp b1" "base_vstorage b1 = base_vstorage b"
    "\<And>l. l < length (base_vstorage b) \<Longrightarrow> content b1 l = content b l \<union> (if int l = level then {f} else {})"
    by (rule Apply_add_content [OF Cons.prems(2) lv]) (rule that)
  have fs: "list_all (\<lambda>(level, f). 0 \<le> level \<and> nat level < length (base_vstorage b1) \<and> key_file f
      \<and> file_number f \<notin> file_number ` set (base_vstorage b1 ! nat level) \<and> file_number f \<notin> file_number ` content b1 (nat level)) fs"
    unfolding list_all_iff
  proof clarify
    fix level' g
    assume g: "(level', g) \<in> set fs"
    have old: "0 \<le> level'" "nat level' < length (base_vstorage b)" "key_file g" "file_number g \<notin> file_number ` set (base_vstorage b ! nat level')"
      "file_number g \<notin> file_number ` content b (nat level')"
      using Cons.prems(3) g by (auto simp: list_all_iff)
    have "file_number g \<noteq> file_number f" if "level' = level"
      using Cons.prems(4) g that by (force simp: x)
    then have "file_number g \<notin> file_number ` content b1 (nat level')"
      unfolding b1(4) [OF old(2)] using old(1,5) by (cases "level' = level") simp_all
    then show "0 \<le> level' \<and> nat level' < length (base_vstorage b1) \<and> key_file g
      \<and> file_number g \<notin> file_number ` set (base_vstorage b1 ! nat level') \<and> file_number g \<notin> file_number ` content b1 (nat level')"
      using old(1-4) by (simp add: b1(3))
  qed
  obtain b' where b': "foldM Apply_add fs b1 = Some b'" "builder_inv icmp b'" "base_vstorage b' = base_vstorage b1"
    "\<And>l. l < length (base_vstorage b1) \<Longrightarrow> content b' l = content b1 l \<union> {f. (int l, f) \<in> set fs}"
    by (rule Cons.IH [OF _ b1(2) fs d]) (rule that)
  show ?case
    by (rule Cons.prems(1) [of b']) (use b1 b' in \<open>auto simp: x\<close>)
qed

text \<open>An edit fits a version if it names levels of the version only and adds files with internal keys whose numbers are
  neither among the files of their level nor among the files it adds there: file numbers are never used twice.\<close>

definition edit_fits :: "version \<Rightarrow> VersionEdit \<Rightarrow> bool" where
  "edit_fits v e \<longleftrightarrow> list_all (\<lambda>(level, _). 0 \<le> level \<and> nat level < length v) (deleted_files e)
     \<and> list_all (\<lambda>(level, f). 0 \<le> level \<and> nat level < length v \<and> key_file f \<and> file_number f \<notin> file_number ` set (v ! nat level)) (new_files e)
     \<and> distinct (map (\<lambda>(level, f). (level, file_number f)) (new_files e))"

text \<open>The files of a level after an edit.\<close>

definition edited :: "VersionEdit \<Rightarrow> nat \<Rightarrow> FileMetaData set \<Rightarrow> FileMetaData set" where
  "edited e l fs = {f \<in> fs. (int l, file_number f) \<notin> set (deleted_files e)} \<union> {f. (int l, f) \<in> set (new_files e)}"

text \<open>The number of no file the edit adds is the number of a file of the version.\<close>

definition fresh_in :: "version \<Rightarrow> VersionEdit \<Rightarrow> bool" where
  "fresh_in v e \<longleftrightarrow> list_all (\<lambda>(level, f). file_number f \<notin> file_number ` set (v ! nat level)) (new_files e)"

lemma edit_fits_fresh: "edit_fits v e \<Longrightarrow> fresh_in v e"
  by (auto simp: edit_fits_def fresh_in_def list_all_iff)

lemma Apply_content:
  assumes "builder_inv icmp b" and "edit_fits v e" and "fresh_in (base_vstorage b) e" and "length v = length (base_vstorage b)"
    and v: "\<And>l. l < length v \<Longrightarrow> set (v ! l) = content b l"
  obtains b' where "Apply e b = Some b'" "builder_inv icmp b'" "base_vstorage b' = base_vstorage b"
    "\<And>l. l < length (base_vstorage b) \<Longrightarrow> content b' l = edited e l (content b l)"
proof -
  have ds: "list_all (\<lambda>(level, _). 0 \<le> level \<and> nat level < length (base_vstorage b)) (deleted_files e)"
    and d: "distinct (map (\<lambda>(level, f). (level, file_number f)) (new_files e))"
    using assms(2,4) by (simp_all add: edit_fits_def)
  obtain b1 where b1: "foldM Apply_delete (deleted_files e) b = Some b1" "builder_inv icmp b1" "base_vstorage b1 = base_vstorage b"
    "\<And>l. l < length (base_vstorage b) \<Longrightarrow> content b1 l = {f \<in> content b l. (int l, file_number f) \<notin> set (deleted_files e)}"
    by (rule Apply_deletes_content [OF assms(1) ds]) (rule that)
  have fs: "list_all (\<lambda>(level, f). 0 \<le> level \<and> nat level < length (base_vstorage b1) \<and> key_file f
      \<and> file_number f \<notin> file_number ` set (base_vstorage b1 ! nat level) \<and> file_number f \<notin> file_number ` content b1 (nat level)) (new_files e)"
    unfolding list_all_iff
  proof clarify
    fix level f
    assume f: "(level, f) \<in> set (new_files e)"
    have old: "0 \<le> level" "nat level < length (base_vstorage b)" "key_file f" "file_number f \<notin> file_number ` content b (nat level)"
      using assms(2,4) f v [of "nat level"] by (auto simp: edit_fits_def list_all_iff)
    have "file_number f \<notin> file_number ` set (base_vstorage b ! nat level)"
      using assms(3) f by (auto simp: fresh_in_def list_all_iff)
    moreover have "file_number f \<notin> file_number ` content b1 (nat level)"
      using old(4) unfolding b1(4) [OF old(2)] by blast
    ultimately show "0 \<le> level \<and> nat level < length (base_vstorage b1) \<and> key_file f
      \<and> file_number f \<notin> file_number ` set (base_vstorage b1 ! nat level) \<and> file_number f \<notin> file_number ` content b1 (nat level)"
      using old by (simp add: b1(3))
  qed
  obtain b' where b': "foldM Apply_add (new_files e) b1 = Some b'" "builder_inv icmp b'" "base_vstorage b' = base_vstorage b1"
    "\<And>l. l < length (base_vstorage b1) \<Longrightarrow> content b' l = content b1 l \<union> {f. (int l, f) \<in> set (new_files e)}"
    by (rule Apply_adds_content [OF b1(2) fs d]) (rule that)
  show ?thesis
    by (rule that [of b']) (use b1 b' in \<open>simp_all add: Apply_def edited_def\<close>)
qed

lemma apply_edit_content:
  assumes "icmp \<in> builtin_comparators" and "version_ok icmp v" and "edit_fits v e"
  obtains v' where "apply_edit icmp e v = Some v'" "version_ok icmp v'" "length v' = length v"
    "\<And>l. l < length v \<Longrightarrow> set (v' ! l) = edited e l (set (v ! l))"
proof -
  note new = new_VersionBuilder_inv [OF assms(2)]
  have base: "base_vstorage (new_VersionBuilder v) = v"
    by (simp add: new_VersionBuilder_def)
  obtain b' where b': "Apply e (new_VersionBuilder v) = Some b'" "builder_inv icmp b'" "base_vstorage b' = v"
    "\<And>l. l < length v \<Longrightarrow> content b' l = edited e l (set (v ! l))"
    by (rule Apply_content [OF new(1) assms(3)]) (use edit_fits_fresh [OF assms(3)] new(2) in \<open>simp_all add: base that\<close>)
  show ?thesis
    by (rule that [of "SaveTo icmp b'"]) (use b' SaveTo_correct [OF assms(1) b'(2)] in \<open>simp_all add: apply_edit_def\<close>)
qed

section \<open>Properties\<close>

text \<open>C15: Applying an edit that fits a version whose levels are in order (level 0 by falling sequence number, the others by
  smallest key) succeeds and gives a version with the same number of levels, all of them in order again, and each level
  holds exactly the old files the edit does not delete and the files it adds, every file once.\<close>

theorem VersionBuilder_correct:
  assumes "icmp \<in> builtin_comparators" and "version_ok icmp v" and "edit_fits v e"
  shows "\<exists>v'. apply_edit icmp e v = Some v' \<and> version_ok icmp v' \<and> length v' = length v
    \<and> (\<forall>l<length v. distinct (v' ! l) \<and> set (v' ! l) = edited e l (set (v ! l)))"
proof -
  obtain v' where v': "apply_edit icmp e v = Some v'" "version_ok icmp v'" "length v' = length v"
    "\<And>l. l < length v \<Longrightarrow> set (v' ! l) = edited e l (set (v ! l))"
    by (rule apply_edit_content [OF assms]) (rule that)
  moreover have "\<forall>l<length v. distinct (v' ! l)"
    using v'(2,3) by (auto simp: version_ok_def ordered_level_def distinct_map)
  ultimately show ?thesis
    by blast
qed

lemma versions_equal:
  assumes "icmp \<in> builtin_comparators" and "version_ok icmp v" and "version_ok icmp w" and "length v = length w"
    and "\<And>l. l < length v \<Longrightarrow> set (v ! l) = set (w ! l)"
  shows "v = w"
proof (rule nth_equalityI [OF assms(4)])
  fix l
  assume l: "l < length v"
  show "v ! l = w ! l"
    by (rule file_order.level_ok_unique [OF level_order [OF assms(1)]])
      (use assms l in \<open>auto simp: version_ok_def\<close>)
qed

text \<open>The edits fit one after the other.\<close>

fun edits_fit :: "(bytes \<Rightarrow> bytes \<Rightarrow> int) \<Rightarrow> version \<Rightarrow> VersionEdit list \<Rightarrow> bool" where
  "edits_fit icmp v [] = True"
| "edits_fit icmp v (e # es) = (edit_fits v e \<and> (case apply_edit icmp e v of None \<Rightarrow> False | Some v' \<Rightarrow> edits_fit icmp v' es))"

lemma builder_tracks:
  assumes "icmp \<in> builtin_comparators" and "builder_inv icmp b" and "version_ok icmp v" and "length v = length (base_vstorage b)"
    and "\<And>l. l < length v \<Longrightarrow> set (v ! l) = content b l"
    and "edits_fit icmp v es" and "list_all (fresh_in (base_vstorage b)) es"
  shows "\<exists>b' v'. foldM Apply es b = Some b' \<and> foldM (apply_edit icmp) es v = Some v' \<and> SaveTo icmp b' = v'"
  using assms(2-)
proof (induction es arbitrary: b v)
  case Nil
  note saved = SaveTo_correct [OF assms(1) Nil.prems(1)]
  have "SaveTo icmp b = v"
    by (rule versions_equal [OF assms(1) saved(1) Nil.prems(2)]) (use saved Nil.prems in simp_all)
  then show ?case
    by simp
next
  case (Cons e es)
  have fit: "edit_fits v e" and fresh: "fresh_in (base_vstorage b) e"
    using Cons.prems(5,6) by simp_all
  obtain v1 where v1: "apply_edit icmp e v = Some v1" "version_ok icmp v1" "length v1 = length v"
    "\<And>l. l < length v \<Longrightarrow> set (v1 ! l) = edited e l (set (v ! l))"
    by (rule apply_edit_content [OF assms(1) Cons.prems(2) fit]) (rule that)
  obtain b1 where b1: "Apply e b = Some b1" "builder_inv icmp b1" "base_vstorage b1 = base_vstorage b"
    "\<And>l. l < length (base_vstorage b) \<Longrightarrow> content b1 l = edited e l (content b l)"
    by (rule Apply_content [OF Cons.prems(1) fit fresh Cons.prems(3,4)]) (assumption, rule that)
  have "\<exists>b' v'. foldM Apply es b1 = Some b' \<and> foldM (apply_edit icmp) es v1 = Some v' \<and> SaveTo icmp b' = v'"
    by (rule Cons.IH [OF b1(2) v1(2)]) (use Cons.prems(3-) v1 b1 in simp_all)
  then show ?case
    by (simp add: v1(1) b1(1))
qed

text \<open>C27: Applying a batch of edits with one builder, as a group commit of \<open>LogAndApply\<close> and the replay of a manifest in
  \<open>Recover\<close> do, gives the same version, file for file in the same order, as building and saving an intermediate version after
  every edit, for edits that fit one after the other and do not reuse the number of a file of the first version.\<close>

theorem batch_equals_incremental:
  assumes "icmp \<in> builtin_comparators" and "version_ok icmp v" and "edits_fit icmp v es" and "list_all (fresh_in v) es"
  shows "\<exists>b v'. foldM Apply es (new_VersionBuilder v) = Some b \<and> foldM (apply_edit icmp) es v = Some v' \<and> SaveTo icmp b = v'"
  by (rule builder_tracks [OF assms(1) new_VersionBuilder_inv(1) [OF assms(2)] assms(2)])
    (use assms new_VersionBuilder_inv(2) [OF assms(2)] in \<open>simp_all add: new_VersionBuilder_def\<close>)

definition example_flush :: VersionEdit where
  "example_flush = AddFile 0 9 0 100 [97, 1, 5, 0, 0, 0, 0, 0, 0] [99, 1, 6, 0, 0, 0, 0, 0, 0] 5 6 False Clear"

definition example_compaction :: VersionEdit where
  "example_compaction = DeleteFile 0 9 (AddFile 1 11 0 90 [98, 1, 5, 0, 0, 0, 0, 0, 0] [99, 1, 6, 0, 0, 0, 0, 0, 0] 5 6 False
     (AddFile 1 10 0 90 [97, 1, 5, 0, 0, 0, 0, 0, 0] [97, 1, 5, 0, 0, 0, 0, 0, 0] 5 5 False Clear))"

lemma batch_equals_incremental_witness:
  "\<exists>b v'. foldM Apply [example_flush, example_compaction] (new_VersionBuilder [[], []]) = Some b
     \<and> foldM (apply_edit (InternalKeyComparator_Compare BytewiseComparator_Compare)) [example_flush, example_compaction] [[], []] = Some v'
     \<and> SaveTo (InternalKeyComparator_Compare BytewiseComparator_Compare) b = v' \<and> map (map file_number) v' = [[], [10, 11]]"
proof -
  let ?icmp = "InternalKeyComparator_Compare BytewiseComparator_Compare"
  let ?es = "[example_flush, example_compaction]"
  have "version_ok ?icmp [[], []]"
    by (auto simp: version_ok_def ordered_level_def nth_Cons')
  moreover have "edits_fit ?icmp [[], []] ?es" "list_all (fresh_in [[], []]) ?es"
    by code_simp+
  moreover have "map_option (map (map file_number)) (foldM (apply_edit ?icmp) ?es [[], []]) = Some [[], [10, 11]]"
    by code_simp
  ultimately show ?thesis
    using batch_equals_incremental [of ?icmp "[[], []]" ?es] by (auto simp: builtin_comparators_def)
qed

lemma VersionBuilder_correct_witness:
  "\<exists>v'. apply_edit (InternalKeyComparator_Compare BytewiseComparator_Compare) example_compaction [map snd (new_files example_flush), []] = Some v'
     \<and> set (v' ! 0) = {} \<and> set (v' ! 1) = snd ` set (new_files example_compaction)"
proof -
  let ?icmp = "InternalKeyComparator_Compare BytewiseComparator_Compare"
  let ?v = "[map snd (new_files example_flush), []]"
  have "version_ok ?icmp ?v"
    by (auto simp: version_ok_def ordered_level_def nth_Cons' example_flush_def AddFile_def Clear_def key_file_def)
  moreover have "edit_fits ?v example_compaction"
    by code_simp
  ultimately obtain v' where "apply_edit ?icmp example_compaction ?v = Some v'"
    and v': "\<forall>l<length ?v. set (v' ! l) = edited example_compaction l (set (?v ! l))"
    using VersionBuilder_correct [of ?icmp ?v example_compaction] by (auto simp: builtin_comparators_def)
  moreover have "edited example_compaction 0 (set (?v ! 0)) = {}" "edited example_compaction 1 (set (?v ! 1)) = snd ` set (new_files example_compaction)"
    by (auto simp: edited_def example_compaction_def example_flush_def AddFile_def DeleteFile_def Clear_def insort_insert_key_def
        GetNumber_def new_FileDescriptor_def PackFileNumberAndPathId_def)
  ultimately show ?thesis
    using v' [rule_format, of 0] v' [rule_format, of 1] by auto
qed

text \<open>The freshness of file numbers is needed: an edit that deletes a file and adds it again to the same level leaves the level
  with the file twice, because adding takes the number off the deleted files.\<close>

lemma readded_file_duplicated:
  assumes "deleted_files e = [(0, file_number f)]" and "new_files e = [(0, f)]"
  shows "apply_edit icmp e [[f]] = Some [[f, f]]"
  using assms by (simp add: apply_edit_def Apply_def Apply_delete_def Apply_add_def update_level_def new_VersionBuilder_def SaveTo_def
      SaveTo_level_def sort_files_def MaybeAddFile_def level_cmp_def NewestFirstBySeqNo_def)

end
