(* ===== verification/Log_Writer.thy ===== *)
theory Log_Writer
  imports Crc32c
begin

text \<open>
  The writer of log files (db/log_format.h, db/log_writer.h, db/log_writer.cc), used for the
  write-ahead log and the manifest: records are cut into physical records that do not cross a block
  of 32 KiB, with a checksum, a length, a type and, in recycled files, the number of the log.
\<close>

section \<open>Format\<close>

abbreviation (input) kZeroType :: nat where "kZeroType \<equiv> 0"
abbreviation (input) kFullType :: nat where "kFullType \<equiv> 1"
abbreviation (input) kFirstType :: nat where "kFirstType \<equiv> 2"
abbreviation (input) kMiddleType :: nat where "kMiddleType \<equiv> 3"
abbreviation (input) kLastType :: nat where "kLastType \<equiv> 4"
abbreviation (input) kRecyclableFullType :: nat where "kRecyclableFullType \<equiv> 5"
abbreviation (input) kRecyclableFirstType :: nat where "kRecyclableFirstType \<equiv> 6"
abbreviation (input) kRecyclableMiddleType :: nat where "kRecyclableMiddleType \<equiv> 7"
abbreviation (input) kRecyclableLastType :: nat where "kRecyclableLastType \<equiv> 8"
abbreviation (input) kMaxRecordType :: nat where "kMaxRecordType \<equiv> kRecyclableLastType"

definition kBlockSize :: nat where
  "kBlockSize = 32768"

definition kHeaderSize :: nat where
  "kHeaderSize = 4 + 2 + 1"

definition kRecyclableHeaderSize :: nat where
  "kRecyclableHeaderSize = 4 + 1 + 4 + 2"

text \<open>The checksum does not depend on the address of the data or on the instruction used.\<close>

definition log_Extend :: "u32 \<Rightarrow> bytes \<Rightarrow> u32" where
  "log_Extend crc data = Extend None 0 crc data"

definition log_Value :: "bytes \<Rightarrow> u32" where
  "log_Value data = Value None 0 data"

section \<open>The writer\<close>

text \<open>
  The file is its contents; what \<open>Append\<close> and \<open>Flush\<close> of the file return is a parameter.  An
  \<open>Append\<close> that fails writes nothing.
\<close>

record Writer =
  dest :: bytes
  append_status :: Status
  flush_status :: Status
  block_offset :: nat
  log_number :: u64
  recycle_log_files :: bool
  manual_flush :: bool
  type_crc :: "u32 list"

definition new_Writer :: "Status \<Rightarrow> Status \<Rightarrow> u64 \<Rightarrow> bool \<Rightarrow> bool \<Rightarrow> Writer" where
  "new_Writer append_st flush_st log_num recycle manual =
     \<lparr>dest = [], append_status = append_st, flush_status = flush_st, block_offset = 0, log_number = log_num,
      recycle_log_files = recycle, manual_flush = manual,
      type_crc = map (\<lambda>i. log_Value [word_of_nat i]) [0..<kMaxRecordType + 1]\<rparr>"

definition Append :: "bytes \<Rightarrow> Writer \<Rightarrow> Status \<times> Writer" where
  "Append data w =
     (append_status w, if ok (append_status w) then w\<lparr>dest := dest w @ data\<rparr> else w)"

definition WriteBuffer :: "Writer \<Rightarrow> Status" where
  "WriteBuffer w = flush_status w"

definition EmitPhysicalRecord :: "nat \<Rightarrow> bytes \<Rightarrow> Writer \<Rightarrow> Status \<times> Writer" where
  "EmitPhysicalRecord t ptr w =
     (let n = length ptr;
          len_type = [word_of_nat (n mod 256), word_of_nat (n div 256), word_of_nat t];
          crc = type_crc w ! t;
          (header_size, log_num, crc) =
            (if t < kRecyclableFullType then (kHeaderSize, [], crc)
             else (let num = EncodeFixed32 (ucast (log_number w))
                   in (kRecyclableHeaderSize, num, log_Extend crc num)));
          crc = Mask (log_Extend crc ptr);
          buf = EncodeFixed32 crc @ len_type @ log_num;
          (s, w) = Append buf w;
          (s, w) = (if ok s then
                      (let (s, w) = Append ptr w
                       in (if ok s then (if \<not> manual_flush w then flush_status w else s) else s, w))
                    else (s, w))
      in (s, w\<lparr>block_offset := block_offset w + (header_size + n)\<rparr>))"

definition header_size_of :: "Writer \<Rightarrow> nat" where
  "header_size_of w = (if recycle_log_files w then kRecyclableHeaderSize else kHeaderSize)"

text \<open>The start of a turn of the loop of \<open>AddRecord\<close>: a block that has no room for a header is filled up.\<close>

definition switch_block :: "Writer \<Rightarrow> Writer" where
  "switch_block w =
     (let leftover = kBlockSize - block_offset w
      in if leftover < header_size_of w then
           (let w = (if 0 < leftover then snd (Append (replicate leftover 0) w) else w)
            in w\<lparr>block_offset := 0\<rparr>)
         else w)"

definition record_type :: "bool \<Rightarrow> bool \<Rightarrow> bool \<Rightarrow> nat" where
  "record_type recycle is_begin is_end =
     (if is_begin \<and> is_end then (if recycle then kRecyclableFullType else kFullType)
      else if is_begin then (if recycle then kRecyclableFirstType else kFirstType)
      else if is_end then (if recycle then kRecyclableLastType else kLastType)
      else (if recycle then kRecyclableMiddleType else kMiddleType))"

definition avail_in_block :: "Writer \<Rightarrow> nat" where
  "avail_in_block w = kBlockSize - block_offset w - header_size_of w"

definition AddRecord_fragment :: "bool \<Rightarrow> bytes \<Rightarrow> Writer \<Rightarrow> Status \<times> bytes \<times> Writer" where
  "AddRecord_fragment is_begin ptr w =
     (let w = switch_block w;
          avail = avail_in_block w;
          fragment_length = (if length ptr < avail then length ptr else avail);
          is_end = (length ptr = fragment_length);
          (s, w) = EmitPhysicalRecord (record_type (recycle_log_files w) is_begin is_end)
                     (take fragment_length ptr) w
      in (s, drop fragment_length ptr, w))"

lemma Append_sel [simp]:
  "block_offset (snd (Append d w)) = block_offset w" "recycle_log_files (snd (Append d w)) = recycle_log_files w"
  "log_number (snd (Append d w)) = log_number w" "manual_flush (snd (Append d w)) = manual_flush w"
  "type_crc (snd (Append d w)) = type_crc w" "append_status (snd (Append d w)) = append_status w"
  "flush_status (snd (Append d w)) = flush_status w"
  by (simp_all add: Append_def)

lemma EmitPhysicalRecord_offset:
  assumes "EmitPhysicalRecord t ptr w = (s, w')"
  shows "block_offset w' = block_offset w + (if t < kRecyclableFullType then kHeaderSize else kRecyclableHeaderSize) + length ptr"
    and "recycle_log_files w' = recycle_log_files w" and "log_number w' = log_number w"
    and "type_crc w' = type_crc w" and "append_status w' = append_status w"
    and "flush_status w' = flush_status w" and "manual_flush w' = manual_flush w"
  using assms by (auto simp: EmitPhysicalRecord_def Let_def Append_def split: if_splits)

lemma switch_block_sel [simp]:
  "recycle_log_files (switch_block w) = recycle_log_files w" "log_number (switch_block w) = log_number w"
  "type_crc (switch_block w) = type_crc w" "append_status (switch_block w) = append_status w"
  "flush_status (switch_block w) = flush_status w" "header_size_of (switch_block w) = header_size_of w"
  by (simp_all add: switch_block_def Let_def header_size_of_def)

lemma header_size_small: "header_size_of w \<le> 11" "header_size_of w < kBlockSize" "7 \<le> header_size_of w"
  by (simp_all add: header_size_of_def kRecyclableHeaderSize_def kHeaderSize_def kBlockSize_def)

text \<open>A fragment is empty only when exactly the header fits, and then the next one is not.\<close>

lemma fragment_progress:
  assumes "AddRecord_fragment is_begin ptr w = (s, rest, w')" and "ptr \<noteq> []"
  shows "length rest < length ptr
    \<or> rest = ptr \<and> avail_in_block (switch_block w) = 0 \<and> 0 < avail_in_block (switch_block w')"
proof (cases "avail_in_block (switch_block w) = 0")
  case True
  let ?t = "record_type (recycle_log_files w) is_begin False"
  obtain e where e: "EmitPhysicalRecord ?t [] (switch_block w) = (s, w')" and r: "rest = ptr"
    using assms True by (auto simp: AddRecord_fragment_def Let_def split: prod.splits)
  have "header_size_of (switch_block w) \<le> kBlockSize - block_offset (switch_block w)"
    using header_size_small [of w] by (auto simp: switch_block_def Let_def header_size_of_def)
  then have o: "kBlockSize - block_offset (switch_block w) = header_size_of w"
    using True by (simp add: avail_in_block_def)
  have "(if ?t < kRecyclableFullType then kHeaderSize else kRecyclableHeaderSize) = header_size_of w"
    by (simp add: record_type_def header_size_of_def)
  then have "block_offset w' = kBlockSize" "header_size_of w' = header_size_of w"
    using EmitPhysicalRecord_offset(1,2) [OF e] o header_size_small [of w]
    by (auto simp: header_size_of_def)
  then have "0 < avail_in_block (switch_block w')"
    using header_size_small [of w] by (simp add: switch_block_def Let_def avail_in_block_def header_size_of_def)
  then show ?thesis
    using True r by simp
next
  case False
  then show ?thesis
    using assms by (auto simp: AddRecord_fragment_def Let_def split: prod.splits if_splits)
qed

function AddRecord_loop :: "bool \<Rightarrow> bytes \<Rightarrow> Writer \<Rightarrow> Status \<times> Writer" where
  "AddRecord_loop is_begin ptr w =
     (case AddRecord_fragment is_begin ptr w of (s, rest, w) \<Rightarrow>
        if ok s \<and> rest \<noteq> [] then AddRecord_loop False rest w else (s, w))"
  by pat_completeness auto
termination
proof (relation "measures [\<lambda>(_, ptr, _). length ptr, \<lambda>(_, _, w). of_bool (avail_in_block (switch_block w) = 0)]")
  show "((False, rest, w'), is_begin, ptr, w)
      \<in> measures [\<lambda>(_, ptr, _). length ptr, \<lambda>(_, _, w). of_bool (avail_in_block (switch_block w) = 0)]"
    if "(s, y) = AddRecord_fragment is_begin ptr w" "(rest, w') = y" "ok s \<and> rest \<noteq> []"
    for is_begin ptr w s y rest w'
  proof -
    have f: "AddRecord_fragment is_begin ptr w = (s, rest, w')"
      using that by metis
    then have "ptr \<noteq> []"
      using that(3) by (auto simp: AddRecord_fragment_def Let_def split: prod.splits)
    from fragment_progress [OF f this] show ?thesis
      by auto
  qed
qed simp

declare AddRecord_loop.simps [simp del]

definition AddRecord :: "bytes \<Rightarrow> Writer \<Rightarrow> Status \<times> Writer" where
  "AddRecord data w = AddRecord_loop True data w"

end
