(* ===== verification/Log_Reader.thy ===== *)
theory Log_Reader
  imports Log_Writer
begin

text \<open>
  The reader of log files (db/log_reader.h, db/log_reader.cc): physical records are taken from
  blocks of 32 KiB, checked and put together again; how damage is treated depends on the recovery
  mode.  The loop of \<open>ReadRecord\<close> is a partial function, because there are files on which it does
  not end.
\<close>

section \<open>The reader\<close>

datatype WALRecoveryMode =
  kTolerateCorruptedTailRecords | kAbsoluteConsistency | kPointInTimeRecovery | kSkipAnyCorruptedRecords

abbreviation (input) kEof :: nat where "kEof \<equiv> 9"
abbreviation (input) kBadRecord :: nat where "kBadRecord \<equiv> 10"
abbreviation (input) kBadHeader :: nat where "kBadHeader \<equiv> 11"
abbreviation (input) kOldRecord :: nat where "kOldRecord \<equiv> 12"
abbreviation (input) kBadRecordLen :: nat where "kBadRecordLen \<equiv> 13"
abbreviation (input) kBadRecordChecksum :: nat where "kBadRecordChecksum \<equiv> 14"

text \<open>
  The file is the bytes not yet read and the status its reads return; \<open>reports\<close> is what the
  reporter has been told, in order.
\<close>

record Reader =
  file_rest :: bytes
  read_status :: Status
  has_reporter :: bool
  reports :: "(nat \<times> Status) list"
  checksum :: bool
  buffer :: bytes
  eof :: bool
  read_error :: bool
  eof_offset :: nat
  last_record_offset :: u64
  end_of_buffer_offset :: u64
  initial_offset :: u64
  rd_log_number :: u64
  recycled :: bool

definition new_Reader :: "bytes \<Rightarrow> Status \<Rightarrow> bool \<Rightarrow> bool \<Rightarrow> u64 \<Rightarrow> u64 \<Rightarrow> Reader" where
  "new_Reader file st reporter check offset log_num =
     \<lparr>file_rest = file, read_status = st, has_reporter = reporter, reports = [], checksum = check,
      buffer = [], eof = False, read_error = False, eof_offset = 0, last_record_offset = 0,
      end_of_buffer_offset = 0, initial_offset = offset, rd_log_number = log_num, recycled = False\<rparr>"

definition file_Read :: "nat \<Rightarrow> Reader \<Rightarrow> Status \<times> bytes \<times> Reader" where
  "file_Read n r = (read_status r, take n (file_rest r), r\<lparr>file_rest := drop n (file_rest r)\<rparr>)"

definition ReportDrop :: "nat \<Rightarrow> Status \<Rightarrow> Reader \<Rightarrow> Reader" where
  "ReportDrop n reason r =
     (if has_reporter r
         \<and> initial_offset r \<le> end_of_buffer_offset r - word_of_nat (length (buffer r)) - word_of_nat n
      then r\<lparr>reports := reports r @ [(n, reason)]\<rparr> else r)"

definition ReportCorruption :: "nat \<Rightarrow> string \<Rightarrow> Reader \<Rightarrow> Reader" where
  "ReportCorruption n reason r = ReportDrop n (Corruption reason) r"

definition SkipToInitialBlock :: "Reader \<Rightarrow> bool \<times> Reader" where
  "SkipToInitialBlock r =
     (let initial_offset_in_block = initial_offset r mod word_of_nat kBlockSize;
          block_start_location = initial_offset r - initial_offset_in_block;
          block_start_location =
            (if word_of_nat (kBlockSize - 6) < initial_offset_in_block
             then block_start_location + word_of_nat kBlockSize else block_start_location);
          r = r\<lparr>end_of_buffer_offset := block_start_location\<rparr>
      in if 0 < block_start_location then
           (let r' = r\<lparr>file_rest := drop (unat block_start_location) (file_rest r)\<rparr>
            in if \<not> ok (read_status r)
               then (False, ReportDrop (unat block_start_location) (read_status r) r) else (True, r'))
         else (True, r))"

text \<open>What \<open>ReadMore\<close> returns: nothing when more was read, else the drop size and the error.\<close>

definition ReadMore :: "Reader \<Rightarrow> (nat \<times> nat) option \<times> Reader" where
  "ReadMore r =
     (if \<not> eof r \<and> \<not> read_error r then
        (case file_Read kBlockSize r of (status, data, r) \<Rightarrow>
           let r = r\<lparr>buffer := data,
                     end_of_buffer_offset := end_of_buffer_offset r + word_of_nat (length data)\<rparr>
           in if \<not> ok status then
                (Some (0, kEof), (ReportDrop kBlockSize status (r\<lparr>buffer := []\<rparr>))\<lparr>read_error := True\<rparr>)
              else if length data < kBlockSize
              then (None, r\<lparr>eof := True, eof_offset := length data\<rparr>)
              else (None, r))
      else if buffer r \<noteq> [] then (Some (length (buffer r), kBadHeader), r\<lparr>buffer := []\<rparr>)
      else (Some (0, kEof), r))"

text \<open>
  The type of a physical record: the byte is a \<open>char\<close>, which is signed, and is widened to
  \<open>unsigned int\<close>.
\<close>

definition header_type :: "bytes \<Rightarrow> nat" where
  "header_type header = unat (scast (header ! 6) :: u32)"

definition header_length :: "bytes \<Rightarrow> nat" where
  "header_length header = unat ((ucast (header ! 4) :: u32) OR push_bit 8 (ucast (header ! 5)))"

definition is_recyclable :: "nat \<Rightarrow> bool" where
  "is_recyclable t \<longleftrightarrow> kRecyclableFullType \<le> t \<and> t \<le> kRecyclableLastType"

text \<open>
  The rest of a turn of \<open>ReadPhysicalRecord\<close>, once the header is in the buffer: the type or special
  value, the fragment, the drop size.
\<close>

definition check_record :: "nat \<Rightarrow> Reader \<Rightarrow> nat \<times> bytes \<times> nat \<times> Reader" where
  "check_record header_size r =
     (let header = buffer r; type = header_type header; len = header_length header
      in if length (buffer r) < header_size + len then
           (let drop_size = length (buffer r); r' = r\<lparr>buffer := []\<rparr>
            in if \<not> eof r then (kBadRecordLen, [], drop_size, r')
               else if drop_size \<noteq> 0 then (kBadHeader, [], drop_size, r')
               else (kEof, [], drop_size, r'))
         else if type = kZeroType \<and> len = 0 then (kBadRecord, [], 0, r\<lparr>buffer := []\<rparr>)
         else if checksum r
           \<and> log_Value (take (len + header_size - 6) (drop 6 header)) \<noteq> Unmask (DecodeFixed32 header)
         then (kBadRecordChecksum, [], length (buffer r), r\<lparr>buffer := []\<rparr>)
         else
           (let r = r\<lparr>buffer := drop (header_size + len) header\<rparr>
            in if end_of_buffer_offset r - word_of_nat (length (buffer r)) - word_of_nat header_size
                  - word_of_nat len < initial_offset r
               then (kBadRecord, [], 0, r)
               else (type, take len (drop header_size header), 0, r)))"

lemma ReadMore_progress:
  assumes "ReadMore r = (None, r')"
  shows "length (file_rest r') + of_bool (\<not> eof r') < length (file_rest r) + of_bool (\<not> eof r)"
  using assms by (auto simp: ReadMore_def file_Read_def Let_def kBlockSize_def split: if_splits)

function ReadPhysicalRecord :: "Reader \<Rightarrow> nat \<times> bytes \<times> nat \<times> Reader" where
  "ReadPhysicalRecord r =
     (if length (buffer r) < kHeaderSize then
        (case ReadMore r of
           (Some (drop_size, e), r') \<Rightarrow> (e, [], drop_size, r')
         | (None, r') \<Rightarrow> ReadPhysicalRecord r')
      else
        (let type = header_type (buffer r)
         in if is_recyclable type then
              (let r0 = (if end_of_buffer_offset r - word_of_nat (length (buffer r)) = 0
                         then r\<lparr>recycled := True\<rparr> else r)
               in if length (buffer r) < kRecyclableHeaderSize then
                    (case ReadMore r0 of
                       (Some (drop_size, e), r') \<Rightarrow> (e, [], drop_size, r')
                     | (None, r') \<Rightarrow> ReadPhysicalRecord r')
                  else if ucast (DecodeFixed32 (drop 7 (buffer r))) \<noteq> rd_log_number r
                  then (kOldRecord, [], 0, r0)
                  else check_record kRecyclableHeaderSize r0)
            else check_record kHeaderSize r))"
  by pat_completeness auto
termination
proof (relation "measure (\<lambda>r. length (file_rest r) + of_bool (\<not> eof r))")
  show "(r', r) \<in> measure (\<lambda>r. length (file_rest r) + of_bool (\<not> eof r))"
    if "(x, r') = ReadMore r" "x = None" for r x r'
    using ReadMore_progress [of r r'] that by simp
  show "(r', r) \<in> measure (\<lambda>r. length (file_rest r) + of_bool (\<not> eof r))"
    if "r0 = (if end_of_buffer_offset r - word_of_nat (length (buffer r)) = 0 then r\<lparr>recycled := True\<rparr> else r)"
      "(x, r') = ReadMore r0" "x = None" for r r0 x r'
    using ReadMore_progress [of r0 r'] that by (auto simp: of_bool_def split: if_splits)
qed auto

declare ReadPhysicalRecord.simps [simp del]

section \<open>Records\<close>

fun decimal :: "nat \<Rightarrow> string" where
  "decimal n = (if n < 10 then [char_of (48 + n)] else decimal (n div 10) @ [char_of (48 + n mod 10)])"

declare decimal.simps [simp del]

text \<open>
  One turn of the loop of \<open>ReadRecord\<close>: \<open>Inl\<close> the result when it returns, \<open>Inr\<close> the local
  variables (whether a record has been begun, the scratch buffer, where the record started) and
  the reader when it goes on.
\<close>

type_synonym read_locals = "bool \<times> bytes \<times> u64 \<times> Reader"

definition end_of_log :: "WALRecoveryMode \<Rightarrow> bool \<Rightarrow> bytes \<Rightarrow> Reader \<Rightarrow> (bool \<times> bytes \<times> Reader) + read_locals" where
  "end_of_log mode in_fragmented_record scratch r =
     Inl (False, [],
       if in_fragmented_record \<and> mode = kAbsoluteConsistency
       then ReportCorruption (length scratch) ''error reading trailing data'' r else r)"

definition abandon_fragments :: "bool \<Rightarrow> bytes \<Rightarrow> u64 \<Rightarrow> Reader \<Rightarrow> (bool \<times> bytes \<times> Reader) + read_locals" where
  "abandon_fragments in_fragmented_record scratch prospective r =
     (if in_fragmented_record
      then Inr (False, [], prospective, ReportCorruption (length scratch) ''error in middle of record'' r)
      else Inr (False, scratch, prospective, r))"

definition ReadRecord_step ::
    "WALRecoveryMode \<Rightarrow> read_locals \<Rightarrow> (bool \<times> bytes \<times> Reader) + read_locals" where
  "ReadRecord_step mode = (\<lambda>(in_fragmented_record, scratch, prospective, r).
     let physical_record_offset = end_of_buffer_offset r - word_of_nat (length (buffer r))
     in case ReadPhysicalRecord r of (rtype, fragment, drop_size, r) \<Rightarrow>
          if rtype = kFullType \<or> rtype = kRecyclableFullType then
            (let r = (if in_fragmented_record \<and> scratch \<noteq> []
                      then ReportCorruption (length scratch) ''partial record without end(1)'' r else r)
             in Inl (True, fragment, r\<lparr>last_record_offset := physical_record_offset\<rparr>))
          else if rtype = kFirstType \<or> rtype = kRecyclableFirstType then
            (let r = (if in_fragmented_record \<and> scratch \<noteq> []
                      then ReportCorruption (length scratch) ''partial record without end(2)'' r else r)
             in Inr (True, fragment, physical_record_offset, r))
          else if rtype = kMiddleType \<or> rtype = kRecyclableMiddleType then
            (if \<not> in_fragmented_record
             then Inr (in_fragmented_record, scratch, prospective,
                    ReportCorruption (length fragment) ''missing start of fragmented record(1)'' r)
             else Inr (in_fragmented_record, scratch @ fragment, prospective, r))
          else if rtype = kLastType \<or> rtype = kRecyclableLastType then
            (if \<not> in_fragmented_record
             then Inr (in_fragmented_record, scratch, prospective,
                    ReportCorruption (length fragment) ''missing start of fragmented record(2)'' r)
             else Inl (True, scratch @ fragment, r\<lparr>last_record_offset := prospective\<rparr>))
          else if rtype = kBadHeader then
            end_of_log mode in_fragmented_record scratch
              (if mode = kAbsoluteConsistency then ReportCorruption drop_size ''truncated header'' r else r)
          else if rtype = kEof then end_of_log mode in_fragmented_record scratch r
          else if rtype = kOldRecord \<and> mode \<noteq> kSkipAnyCorruptedRecords then
            end_of_log mode in_fragmented_record scratch r
          else if rtype = kOldRecord \<or> rtype = kBadRecord then
            abandon_fragments in_fragmented_record scratch prospective r
          else if rtype = kBadRecordLen \<or> rtype = kBadRecordChecksum then
            (if recycled r \<and> mode = kTolerateCorruptedTailRecords then Inl (False, [], r)
             else abandon_fragments in_fragmented_record scratch prospective
                    (ReportCorruption drop_size
                       (if rtype = kBadRecordLen then ''bad record length'' else ''checksum mismatch'') r))
          else
            Inr (False, [], prospective,
              ReportCorruption (length fragment + (if in_fragmented_record then length scratch else 0))
                (''unknown record type '' @ decimal rtype) r))"

partial_function (option) ReadRecord_loop :: "WALRecoveryMode \<Rightarrow> read_locals \<Rightarrow> (bool \<times> bytes \<times> Reader) option" where
  "ReadRecord_loop mode s =
     (case ReadRecord_step mode s of Inl result \<Rightarrow> Some result | Inr s \<Rightarrow> ReadRecord_loop mode s)"

definition ReadRecord :: "WALRecoveryMode \<Rightarrow> Reader \<Rightarrow> (bool \<times> bytes \<times> Reader) option" where
  "ReadRecord mode r =
     (if last_record_offset r < initial_offset r then
        (case SkipToInitialBlock r of (done, r) \<Rightarrow>
           if \<not> done then Some (False, [], r) else ReadRecord_loop mode (False, [], 0, r))
      else ReadRecord_loop mode (False, [], 0, r))"

text \<open>
  \<open>UnmarkEOF\<close> reads the rest of a block that was read only in part, when the file has grown.  The
  buffer ends where the read continues, so that what is left of it and the new bytes are adjacent.
\<close>

definition UnmarkEOF :: "Reader \<Rightarrow> Reader" where
  "UnmarkEOF r =
     (if read_error r then r
      else
        (let r = r\<lparr>eof := False\<rparr>
         in if eof_offset r = 0 then r
            else
              (let remaining = kBlockSize - eof_offset r
               in case file_Read remaining r of (status, read_buffer, r) \<Rightarrow>
                    let added = length read_buffer;
                        r = r\<lparr>end_of_buffer_offset := end_of_buffer_offset r + word_of_nat added\<rparr>
                    in if \<not> ok status then
                         (if 0 < added then ReportDrop added status r else r)\<lparr>read_error := True\<rparr>
                       else
                         (let r = r\<lparr>buffer := buffer r @ read_buffer\<rparr>
                          in if added < remaining
                             then r\<lparr>eof := True, eof_offset := eof_offset r + added\<rparr>
                             else r\<lparr>eof_offset := 0\<rparr>))))"

text \<open>Reading until \<open>ReadRecord\<close> returns false, as recovery does.\<close>

partial_function (option) read_log :: "WALRecoveryMode \<Rightarrow> Reader \<Rightarrow> (bytes list \<times> Reader) option" where
  "read_log mode r =
     Option.bind (ReadRecord mode r) (\<lambda>(found, record, r).
       if found
       then Option.bind (read_log mode r) (\<lambda>(records, r). Some (record # records, r))
       else Some ([], r))"

end
