(* ===== verification/Log_Props.thy ===== *)
theory Log_Props
  imports Log_Reader
begin

text \<open>
  What the log guarantees: everything written is read back, and after a crash that cut the file at
  any byte exactly the records that are completely in the file.
\<close>

section \<open>What the writer writes\<close>

lemma log_crc: "log_Extend crc data = crc_spec crc data" "log_Value data = crc_spec 0 data"
  by (simp_all add: log_Extend_def log_Value_def Value_def Extend_def Choose_Extend_def ExtendImpl_eq crc_8_Slow)

lemma crc_spec_append: "crc_spec (crc_spec c a) b = crc_spec c (a @ b)"
  by (simp add: crc_spec_def xor.assoc)

definition hs :: "bool \<Rightarrow> nat" where
  "hs rec = (if rec then kRecyclableHeaderSize else kHeaderSize)"

lemma hs_bounds: "7 \<le> hs rec" "hs rec \<le> 11" "hs rec < kBlockSize" "\<not> rec \<Longrightarrow> hs rec = 7" "rec \<Longrightarrow> hs rec = 11"
  by (simp_all add: hs_def kRecyclableHeaderSize_def kHeaderSize_def kBlockSize_def)

definition lognum :: "bool \<Rightarrow> u64 \<Rightarrow> bytes" where
  "lognum rec num = (if rec then EncodeFixed32 (ucast num) else [])"

text \<open>The bytes of one physical record.\<close>

definition phys :: "bool \<Rightarrow> u64 \<Rightarrow> nat \<Rightarrow> bytes \<Rightarrow> bytes" where
  "phys rec num t p =
     EncodeFixed32 (Mask (crc_spec 0 (word_of_nat t # lognum rec num @ p)))
     @ [word_of_nat (length p mod 256), word_of_nat (length p div 256), word_of_nat t] @ lognum rec num @ p"

lemma length_phys [simp]: "length (phys rec num t p) = hs rec + length p"
  by (simp add: phys_def lognum_def hs_def kRecyclableHeaderSize_def kHeaderSize_def)

text \<open>The physical records of a record from a block offset with room for a header on.\<close>

inductive frags :: "bool \<Rightarrow> u64 \<Rightarrow> nat \<Rightarrow> bool \<Rightarrow> bytes \<Rightarrow> bytes \<Rightarrow> nat \<Rightarrow> bool" for rec num where
  last: "off + hs rec + length data \<le> kBlockSize \<Longrightarrow>
    frags rec num off b data (phys rec num (record_type rec b True) data) (off + hs rec + length data)"
| more: "off + hs rec + a = kBlockSize \<Longrightarrow> a < length data \<Longrightarrow>
    frags rec num 0 False (drop a data) out off' \<Longrightarrow>
    frags rec num off b data (phys rec num (record_type rec b False) (take a data) @ out) off'"

definition framed :: "bool \<Rightarrow> u64 \<Rightarrow> nat \<Rightarrow> bool \<Rightarrow> bytes \<Rightarrow> bytes \<Rightarrow> nat \<Rightarrow> bool" where
  "framed rec num off b data out off' \<longleftrightarrow>
     (if kBlockSize < off + hs rec
      then \<exists>out'. out = replicate (kBlockSize - off) 0 @ out' \<and> frags rec num 0 b data out' off'
      else frags rec num off b data out off')"

definition good_writer :: "Writer \<Rightarrow> bool" where
  "good_writer w \<longleftrightarrow> ok (append_status w) \<and> ok (flush_status w) \<and> block_offset w \<le> kBlockSize
     \<and> type_crc w = map (\<lambda>i. crc_spec 0 [word_of_nat i]) [0..<9]"

lemma EmitPhysicalRecord_good:
  assumes "good_writer w" and "t \<le> 8" and "(5 \<le> t) = recycle_log_files w"
  shows "\<exists>s. ok s \<and> EmitPhysicalRecord t p w =
    (s, w\<lparr>dest := dest w @ phys (recycle_log_files w) (log_number w) t p,
         block_offset := block_offset w + (hs (recycle_log_files w) + length p)\<rparr>)"
proof -
  have "type_crc w ! t = crc_spec 0 [word_of_nat t]"
    using assms(1,2) by (simp add: good_writer_def del: upt_Suc)
  then show ?thesis
    using assms by (auto simp: EmitPhysicalRecord_def Let_def Append_def good_writer_def log_crc
        crc_spec_append phys_def lognum_def hs_def)
qed

lemma record_type_range:
  "record_type rec b e \<le> 8" "(5 \<le> record_type rec b e) = rec" "1 \<le> record_type rec b e"
  by (simp_all add: record_type_def)

lemma switch_block_good:
  assumes "good_writer w"
  shows "switch_block w = (if kBlockSize < block_offset w + hs (recycle_log_files w)
    then w\<lparr>dest := dest w @ replicate (kBlockSize - block_offset w) 0, block_offset := 0\<rparr> else w)"
  using assms by (auto simp: switch_block_def Let_def Append_def good_writer_def header_size_of_def hs_def)

lemma AddRecord_fragment_good:
  fixes data :: bytes
  assumes "good_writer w" and "block_offset w + hs (recycle_log_files w) \<le> kBlockSize"
  defines "a \<equiv> kBlockSize - block_offset w - hs (recycle_log_files w)"
  defines "n \<equiv> min (length data) a"
  shows "\<exists>s. ok s \<and> AddRecord_fragment b data w = (s, drop n data,
    w\<lparr>dest := dest w @ phys (recycle_log_files w) (log_number w)
         (record_type (recycle_log_files w) b (length data \<le> a)) (take n data),
       block_offset := block_offset w + (hs (recycle_log_files w) + n)\<rparr>)"
proof -
  have sw: "switch_block w = w"
    using assms(1,2) by (simp add: switch_block_good)
  have a: "avail_in_block w = a"
    by (simp add: avail_in_block_def a_def header_size_of_def hs_def)
  have n: "(if length data < a then length data else a) = n" "(length data = n) = (length data \<le> a)"
    by (auto simp: n_def)
  obtain s where "ok s" "EmitPhysicalRecord (record_type (recycle_log_files w) b (length data \<le> a)) (take n data) w =
    (s, w\<lparr>dest := dest w @ phys (recycle_log_files w) (log_number w) (record_type (recycle_log_files w) b (length data \<le> a)) (take n data),
         block_offset := block_offset w + (hs (recycle_log_files w) + length (take n data))\<rparr>)"
    using EmitPhysicalRecord_good [OF assms(1)] record_type_range by metis
  then show ?thesis
    unfolding AddRecord_fragment_def Let_def sw a n by (auto simp: n_def)
qed

lemma AddRecord_frags:
  assumes "good_writer w"
  shows "\<exists>s out off. ok s \<and> AddRecord_loop b data w = (s, w\<lparr>dest := dest w @ out, block_offset := off\<rparr>)
    \<and> framed (recycle_log_files w) (log_number w) (block_offset w) b data out off \<and> off \<le> kBlockSize"
  using assms
proof (induction b data w rule: AddRecord_loop.induct)
  case (1 b data w)
  let ?rec = "recycle_log_files w" and ?num = "log_number w"
  define off where "off = (if kBlockSize < block_offset w + hs ?rec then 0 else block_offset w)"
  define pad where "pad = (if kBlockSize < block_offset w + hs ?rec then replicate (kBlockSize - block_offset w) (0 :: byte) else [])"
  define w0 where "w0 = w\<lparr>dest := dest w @ pad, block_offset := off\<rparr>"
  define a where "a = kBlockSize - off - hs ?rec"
  have sw: "switch_block w = w0" "switch_block w0 = w0" "good_writer w0" "off + hs ?rec \<le> kBlockSize"
    "off + hs ?rec + a = kBlockSize" "recycle_log_files w0 = ?rec" "log_number w0 = ?num" "block_offset w0 = off"
    using switch_block_good [OF 1(2)] switch_block_good [of w0] 1(2) hs_bounds(3) [of ?rec]
    by (auto simp: off_def pad_def w0_def good_writer_def a_def)
  have frame: "framed ?rec ?num (block_offset w) b data (pad @ out) off'" if "frags ?rec ?num off b data out off'" for out off'
    using that by (auto simp: framed_def off_def pad_def)
  define n where "n = min (length data) a"
  define w1 where "w1 = w0\<lparr>dest := dest w0 @ phys ?rec ?num (record_type ?rec b (length data \<le> a)) (take n data),
       block_offset := off + (hs ?rec + n)\<rparr>"
  obtain s where s: "ok s" and f: "AddRecord_fragment b data w = (s, drop n data, w1)"
    using AddRecord_fragment_good [OF sw(3), of b data] sw unfolding a_def n_def w1_def
    by (auto simp: AddRecord_fragment_def)
  show ?case
  proof (cases "length data \<le> a")
    case True
    then have n: "n = length data" "drop n data = []"
      by (simp_all add: n_def)
    have "frags ?rec ?num off b data (phys ?rec ?num (record_type ?rec b True) data) (off + hs ?rec + length data)"
      using sw True by (intro frags.last) simp
    then have "framed ?rec ?num (block_offset w) b data (pad @ phys ?rec ?num (record_type ?rec b True) data)
        (off + hs ?rec + length data)" "off + hs ?rec + length data \<le> kBlockSize"
      using frame sw True by simp_all
    moreover have "AddRecord_loop b data w = (s, w\<lparr>dest := dest w @ pad @ phys ?rec ?num (record_type ?rec b True) data,
        block_offset := off + hs ?rec + length data\<rparr>)"
      using s f True n by (simp add: AddRecord_loop.simps [of b data w] w1_def w0_def add.assoc)
    ultimately show ?thesis
      using s by blast
  next
    case False
    then have n: "n = a" "a < length data" "drop n data \<noteq> []"
      by (simp_all add: n_def)
    have w1: "good_writer w1" "recycle_log_files w1 = ?rec" "log_number w1 = ?num" "block_offset w1 = kBlockSize"
      using sw n by (simp_all add: w1_def good_writer_def w0_def)
    obtain s' out off' where r: "ok s'" "AddRecord_loop False (drop n data) w1 = (s', w1\<lparr>dest := dest w1 @ out, block_offset := off'\<rparr>)"
      "framed ?rec ?num kBlockSize False (drop n data) out off'" "off' \<le> kBlockSize"
      using 1(1) [OF f [symmetric] refl] s n w1 by auto
    then have "frags ?rec ?num 0 False (drop a data) out off'"
      using hs_bounds(1) [of ?rec] n by (simp add: framed_def)
    then have "frags ?rec ?num off b data (phys ?rec ?num (record_type ?rec b False) (take a data) @ out) off'"
      using sw(5) n by (intro frags.more)
    from frame [OF this] have fr: "framed ?rec ?num (block_offset w) b data
        (pad @ phys ?rec ?num (record_type ?rec b False) (take a data) @ out) off'"
      by simp
    have "AddRecord_loop b data w = (s', w\<lparr>dest := dest w @ (pad @ phys ?rec ?num (record_type ?rec b False) (take a data) @ out),
        block_offset := off'\<rparr>)"
      using s f False n r(2) by (simp add: AddRecord_loop.simps [of b data w] w1_def w0_def)
    then show ?thesis
      using r(1,4) fr by blast
  qed
qed

section \<open>Physical records are read back\<close>

lemma phys_nth:
  "phys rec num t p ! 4 = word_of_nat (length p mod 256)" "phys rec num t p ! 5 = word_of_nat (length p div 256)"
  "phys rec num t p ! 6 = word_of_nat t"
  by (simp_all add: phys_def nth_append)

lemma type_byte: "t \<le> 8 \<Longrightarrow> unat (scast (word_of_nat t :: byte) :: u32) = t"
proof -
  assume "t \<le> 8"
  then have "t \<in> {0, 1, 2, 3, 4, 5, 6, 7, 8}"
    by auto
  then show ?thesis
    by auto
qed

lemma len_bytes: "n < 65536 \<Longrightarrow>
  unat ((ucast (word_of_nat (n mod 256) :: byte) :: u32) OR push_bit 8 (ucast (word_of_nat (n div 256) :: byte))) = n"
proof -
  assume n: "n < 65536"
  let ?a = "ucast (word_of_nat (n mod 256) :: byte) :: u32" and ?b = "ucast (word_of_nat (n div 256) :: byte) :: u32"
  have "?a + push_bit 8 ?b = ?a OR push_bit 8 ?b"
    by (rule disjunctive_add) (auto simp: bit_simps dest: bit_imp_le_length)
  moreover have "unat (?a + push_bit 8 ?b) = n"
  proof -
    have "n div 256 < 256"
      using n by simp
    then have "unat ?a = n mod 256" "unat ?b = n div 256"
      by (simp_all add: unsigned_ucast_eq take_bit_nat_eq_self unat_of_nat)
    then show ?thesis
      using n by (simp add: push_bit_eq_mult unat_word_ariths)
  qed
  ultimately show ?thesis
    by simp
qed

lemma header_fields:
  assumes "t \<le> 8" and "length p < 65536" and "7 \<le> m"
  shows "header_type (take m (phys rec num t p) @ b) = t" "header_length (take m (phys rec num t p) @ b) = length p"
proof -
  have "i < length (take m (phys rec num t p))" if "i < 7" for i
    using that assms(3) hs_bounds(1) [of rec] by simp
  then have "(take m (phys rec num t p) @ b) ! i = phys rec num t p ! i" if "i < 7" for i
    using that assms(3) by (simp add: nth_append)
  then show "header_type (take m (phys rec num t p) @ b) = t" "header_length (take m (phys rec num t p) @ b) = length p"
    using assms by (simp_all add: header_type_def header_length_def phys_nth type_byte len_bytes)
qed

lemma phys_parts:
  "DecodeFixed32 (phys rec num t p @ b) = Mask (crc_spec 0 (word_of_nat t # lognum rec num @ p))"
  "take (length p + hs rec - 6) (drop 6 (phys rec num t p @ b)) = word_of_nat t # lognum rec num @ p"
  "rec \<Longrightarrow> DecodeFixed32 (drop 7 (phys rec num t p @ b)) = ucast num"
  "take (length p) (drop (hs rec) (phys rec num t p @ b)) = p"
  by (simp_all add: phys_def lognum_def hs_def kRecyclableHeaderSize_def kHeaderSize_def take_Cons')

lemma lognum_back: "unat num < 2 ^ 32 \<Longrightarrow> ucast (ucast num :: u32) = num" for num :: u64
  by (simp add: word_unat_eq_iff unsigned_ucast_eq unsigned_take_bit_eq take_bit_nat_eq_self)

text \<open>Readers that only differ in the buffer and in what has been noticed on the way.\<close>

definition same_file :: "Reader \<Rightarrow> Reader \<Rightarrow> bool" where
  "same_file r r' \<longleftrightarrow> file_rest r' = file_rest r \<and> read_status r' = read_status r \<and> reports r' = reports r
     \<and> eof r' = eof r \<and> read_error r' = read_error r \<and> initial_offset r' = initial_offset r
     \<and> rd_log_number r' = rd_log_number r"

lemma same_file_simps [simp]:
  "same_file r r" "same_file r (r'\<lparr>buffer := b\<rparr>) = same_file r r'" "same_file r (r'\<lparr>recycled := x\<rparr>) = same_file r r'"
  "same_file r (r'\<lparr>last_record_offset := y\<rparr>) = same_file r r'"
  by (simp_all add: same_file_def)

text \<open>A complete record at the start of the buffer.\<close>

lemma read_buffered:
  assumes "buffer r = phys rec num t p @ b" and "initial_offset r = 0" and "rd_log_number r = num"
    and "rec \<Longrightarrow> unat num < 2 ^ 32" and "1 \<le> t" "t \<le> 8" "(5 \<le> t) = rec" and "length p < 65536"
  shows "\<exists>r'. ReadPhysicalRecord r = (t, p, 0, r') \<and> same_file r r' \<and> buffer r' = b"
proof -
  have fields: "header_type (buffer r) = t" "header_length (buffer r) = length p"
    using header_fields [of t p "length (phys rec num t p)" rec num b] assms hs_bounds(1) [of rec]
    by simp_all
  have len: "\<not> length (buffer r) < kHeaderSize" "rec \<Longrightarrow> \<not> length (buffer r) < kRecyclableHeaderSize"
    using assms(1) hs_bounds(1) [of rec] by (auto simp: kHeaderSize_def hs_def)
  have num: "rec \<Longrightarrow> ucast (ucast num :: u32) = num"
    using assms(4) by (rule lognum_back)
  have chk: "check_record (hs rec) (r\<lparr>recycled := x\<rparr>) = (t, p, 0, r\<lparr>buffer := b, recycled := x\<rparr>)" for x
  proof -
    have "take (length p + hs rec - 6) (drop 6 (buffer r)) = word_of_nat t # lognum rec num @ p"
      "DecodeFixed32 (buffer r) = Mask (crc_spec 0 (word_of_nat t # lognum rec num @ p))"
      "take (length p) (drop (hs rec) (buffer r)) = p" "drop (hs rec + length p) (buffer r) = b"
      "\<not> length (buffer r) < hs rec + length p"
      unfolding assms(1) by (simp_all only: phys_parts) (simp_all add: assms(1))
    then show ?thesis
      using fields assms(2,5) by (simp add: check_record_def Let_def log_crc)
  qed
  show ?thesis
  proof (cases rec)
    case True
    have "ReadPhysicalRecord r = check_record kRecyclableHeaderSize (r\<lparr>recycled := x\<rparr>)"
      if "x = (recycled r \<or> end_of_buffer_offset r - word_of_nat (length (buffer r)) = 0)" for x
      using True fields len num phys_parts(3) [where rec = rec and num = num and t = t and p = p and b = b] assms that
      by (auto simp: ReadPhysicalRecord.simps [of r] is_recyclable_def Let_def)
    then show ?thesis
      using chk True by (auto simp: hs_def)
  next
    case False
    then have "ReadPhysicalRecord r = check_record (hs rec) (r\<lparr>recycled := recycled r\<rparr>)"
      using fields len assms(7) by (simp add: ReadPhysicalRecord.simps [of r] is_recyclable_def Let_def hs_def)
    then show ?thesis
      using chk [of "recycled r"] by auto
  qed
qed

text \<open>A record that the end of the file has cut off.\<close>

lemma read_cut_buffered:
  assumes "buffer r = take m (phys rec num t p)" and "m < hs rec + length p" and "eof r"
    and "rd_log_number r = num" and "rec \<Longrightarrow> unat num < 2 ^ 32"
    and "1 \<le> t" "t \<le> 8" "(5 \<le> t) = rec" and "length p < 65536"
  shows "\<exists>e d r'. ReadPhysicalRecord r = (e, [], d, r') \<and> (e = kEof \<or> e = kBadHeader) \<and> same_file r r'"
proof -
  have len: "length (buffer r) = m"
    using assms(1,2) by simp
  have more: "ReadMore (r\<lparr>recycled := x\<rparr>) = (Some (m, if m = 0 then kEof else kBadHeader), r\<lparr>buffer := [], recycled := x\<rparr>)" for x
    using assms(3) len by (auto simp: ReadMore_def)
  show ?thesis
  proof (cases "m < 7")
    case True
    then have "ReadPhysicalRecord r = (if m = 0 then kEof else kBadHeader, [], m, r\<lparr>buffer := [], recycled := recycled r\<rparr>)"
      using more [of "recycled r"] len by (simp add: ReadPhysicalRecord.simps [of r] kHeaderSize_def)
    then show ?thesis
      by auto
  next
    case False
    then have fields: "header_type (buffer r) = t" "header_length (buffer r) = length p"
      using header_fields [of t p m rec num "[]"] assms by simp_all
    have chk: "check_record (hs rec) (r\<lparr>recycled := x\<rparr>) = (kBadHeader, [], m, r\<lparr>buffer := [], recycled := x\<rparr>)" for x
      using fields assms len False by (simp add: check_record_def Let_def)
    have num: "rec \<Longrightarrow> ucast (ucast num :: u32) = num"
      using assms(5) by (rule lognum_back)
    show ?thesis
    proof (cases rec)
      case True
      define x where "x = (recycled r \<or> end_of_buffer_offset r - word_of_nat (length (buffer r)) = 0)"
      have x: "(if end_of_buffer_offset r - word_of_nat (length (buffer r)) = 0 then r\<lparr>recycled := True\<rparr> else r) = r\<lparr>recycled := x\<rparr>"
        by (auto simp: x_def)
      have t: "is_recyclable (header_type (buffer r))" "\<not> length (buffer r) < kHeaderSize"
        using True assms fields False len by (auto simp: is_recyclable_def kHeaderSize_def)
      show ?thesis
      proof (cases "m < kRecyclableHeaderSize")
        case True
        then have "ReadPhysicalRecord r = (if m = 0 then kEof else kBadHeader, [], m, r\<lparr>buffer := [], recycled := x\<rparr>)"
          using t len more [of x] unfolding ReadPhysicalRecord.simps [of r] Let_def x by simp
        then show ?thesis
          by auto
      next
        case False
        have "drop 7 (buffer r) = EncodeFixed32 (ucast num) @ drop 11 (buffer r)"
        proof -
          have "take 11 (buffer r) = take 11 (phys rec num t p)"
            using False assms(1) by (simp add: kRecyclableHeaderSize_def min_absorb1)
          then have "drop 7 (take 11 (buffer r)) = drop 7 (take 11 (phys rec num t p))"
            by simp
          then have "take 4 (drop 7 (buffer r)) = EncodeFixed32 (ucast num)"
            using \<open>rec\<close> by (simp add: drop_take phys_def lognum_def)
          then show ?thesis
            using append_take_drop_id [of 4 "drop 7 (buffer r)"] by simp
        qed
        then have "ucast (DecodeFixed32 (drop 7 (buffer r))) = rd_log_number r"
          using num \<open>rec\<close> assms(4) by simp
        then have "ReadPhysicalRecord r = check_record kRecyclableHeaderSize (r\<lparr>recycled := x\<rparr>)"
          using t len False unfolding ReadPhysicalRecord.simps [of r] Let_def x by simp
        then show ?thesis
          using chk [of x] True by (auto simp: hs_def)
      qed
    next
      case False
      then have "ReadPhysicalRecord r = check_record (hs rec) (r\<lparr>recycled := recycled r\<rparr>)"
        using fields assms(8) \<open>\<not> m < 7\<close> len
        by (simp add: ReadPhysicalRecord.simps [of r] is_recyclable_def kHeaderSize_def hs_def)
      then show ?thesis
        using chk [of "recycled r"] by auto
    qed
  qed
qed

section \<open>Positions in a file\<close>

text \<open>
  The reader \<open>r\<close> stands at byte \<open>pos\<close> of the file \<open>F\<close>: its buffer ends at the end of the block or
  of the file, and nothing has been reported but \<open>rs\<close>.
\<close>

definition at :: "bytes \<Rightarrow> u64 \<Rightarrow> (nat \<times> Status) list \<Rightarrow> nat \<Rightarrow> Reader \<Rightarrow> bool" where
  "at F num rs pos r \<longleftrightarrow> pos \<le> length F \<and> buffer r @ file_rest r = drop pos F
     \<and> pos + length (buffer r) \<le> (pos div kBlockSize + 1) * kBlockSize
     \<and> (\<not> eof r \<longrightarrow> (pos + length (buffer r)) mod kBlockSize = 0) \<and> (eof r \<longrightarrow> file_rest r = [])
     \<and> ok (read_status r) \<and> \<not> read_error r \<and> initial_offset r = 0 \<and> rd_log_number r = num \<and> reports r = rs"

definition ready :: "bytes \<Rightarrow> u64 \<Rightarrow> (nat \<times> Status) list \<Rightarrow> nat \<Rightarrow> Reader \<Rightarrow> bool" where
  "ready F num rs pos r \<longleftrightarrow> (\<exists>r1. at F num rs pos r1 \<and> ReadPhysicalRecord r = ReadPhysicalRecord r1)"

lemma at_ready: "at F num rs pos r \<Longrightarrow> ready F num rs pos r"
  by (auto simp: ready_def)

lemma K_pos: "0 < kBlockSize"
  by (simp add: kBlockSize_def)

lemma at_split:
  assumes "at F num rs pos r"
  shows "file_rest r = drop (pos + length (buffer r)) F" "pos + length (buffer r) \<le> length F"
    "buffer r = take (length (buffer r)) (drop pos F)"
proof -
  have eq: "buffer r @ file_rest r = drop pos F" "pos \<le> length F"
    using assms by (simp_all add: at_def)
  show "file_rest r = drop (pos + length (buffer r)) F" "buffer r = take (length (buffer r)) (drop pos F)"
    using arg_cong [OF eq(1), of "drop (length (buffer r))"] arg_cong [OF eq(1), of "take (length (buffer r))"]
    by (simp_all add: add.commute)
  show "pos + length (buffer r) \<le> length F"
    using arg_cong [OF eq(1), of length] eq(2) by simp
qed

lemma at_eof: "at F num rs pos r \<Longrightarrow> eof r \<Longrightarrow> buffer r = drop pos F"
  by (auto simp: at_def)

text \<open>Reading on when the rest of a block is too short for a header.\<close>

lemma at_reads_block:
  assumes "at F num rs pos r" and "\<not> eof r" and "length (buffer r) < kHeaderSize"
  shows "\<exists>r'. at F num rs (pos + length (buffer r)) r' \<and> ReadPhysicalRecord r = ReadPhysicalRecord r'
    \<and> buffer r' = take kBlockSize (drop (pos + length (buffer r)) F)
    \<and> (length (drop (pos + length (buffer r)) F) < kBlockSize \<longrightarrow> eof r')"
proof -
  let ?pos = "pos + length (buffer r)"
  let ?data = "take kBlockSize (drop ?pos F)"
  note sp = at_split [OF assms(1)]
  have r: "ok (read_status r)" "\<not> read_error r" "initial_offset r = 0" "rd_log_number r = num" "reports r = rs"
    "?pos mod kBlockSize = 0"
    using assms(1,2) by (simp_all add: at_def)
  define r' where "r' = snd (ReadMore r)"
  have more: "ReadMore r = (None, r')" and f: "buffer r' = ?data" "file_rest r' = drop kBlockSize (drop ?pos F)"
    "eof r' = (length ?data < kBlockSize)" "read_status r' = read_status r" "read_error r' = read_error r"
    "initial_offset r' = initial_offset r" "rd_log_number r' = rd_log_number r" "reports r' = reports r"
    using assms(2) r sp(1) by (auto simp: r'_def ReadMore_def file_Read_def Let_def)
  have eq: "ReadPhysicalRecord r = ReadPhysicalRecord r'"
    using more assms(3) by (simp add: ReadPhysicalRecord.simps [of r])
  have p: "?pos div kBlockSize * kBlockSize = ?pos"
    using div_mult_mod_eq [of ?pos kBlockSize] r(6) by linarith
  have "length ?data \<le> kBlockSize"
    by simp
  then have "?pos + length ?data \<le> (?pos div kBlockSize + 1) * kBlockSize"
    by (simp only: distrib_right p mult_1 add_le_cancel_left)
  moreover have "(?pos + length ?data) mod kBlockSize = 0" if "\<not> eof r'"
  proof -
    have "length ?data = kBlockSize"
      using that f(3) by simp
    then show ?thesis
      using r(6) by (simp only: mod_add_self2)
  qed
  moreover have "file_rest r' = []" if "eof r'"
    using that f(2,3) by (simp add: min_def split: if_splits)
  ultimately have "at F num rs ?pos r'"
    using f r sp(2) unfolding at_def by (metis append_take_drop_id)
  then show ?thesis
    using eq f by auto
qed

text \<open>How far the buffer reaches.\<close>

lemma at_reach:
  assumes "at F num rs pos r" and "pos mod kBlockSize + n \<le> kBlockSize" and "0 < n"
  shows "n \<le> length (buffer r) \<or> eof r \<or> pos mod kBlockSize = 0 \<and> buffer r = []"
proof (cases "eof r")
  case False
  define B off where "B = pos div kBlockSize" and "off = pos mod kBlockSize"
  have m: "(pos + length (buffer r)) mod kBlockSize = 0"
    using assms(1) False by (simp add: at_def)
  have p: "pos = B * kBlockSize + off"
    by (simp only: B_def off_def div_mult_mod_eq)
  obtain q where q: "pos + length (buffer r) = q * kBlockSize"
    using m by (metis div_mult_mod_eq add_0_right)
  have off: "off + n \<le> kBlockSize"
    using assms(2) by (simp add: off_def)
  show ?thesis
  proof (cases "B < q")
    case True
    then have "(B + 1) * kBlockSize \<le> q * kBlockSize"
      by (intro mult_le_mono1) simp
    then have "n \<le> length (buffer r)"
      using p q off by (simp add: distrib_right)
    then show ?thesis
      by simp
  next
    case False
    then have "q * kBlockSize \<le> B * kBlockSize"
      by simp
    then have "off = 0" "length (buffer r) = 0"
      using p q by linarith+
    then show ?thesis
      by (simp add: off_def)
  qed
qed simp

lemma at_advance:
  assumes "at F num rs pos r" and "same_file r r'" and "buffer r' = drop n (buffer r)" and "n \<le> length (buffer r)"
  shows "at F num rs (pos + n) r'"
proof -
  note sp = at_split [OF assms(1)]
  have l: "pos + n + length (buffer r') = pos + length (buffer r)"
    using assms(3,4) by simp
  have eqs: "file_rest r' = file_rest r" "read_status r' = read_status r" "reports r' = reports r"
    "eof r' = eof r" "read_error r' = read_error r" "initial_offset r' = initial_offset r"
    "rd_log_number r' = rd_log_number r"
    using assms(2) by (simp_all add: same_file_def)
  have "drop pos F = buffer r @ file_rest r"
    using assms(1) by (simp add: at_def)
  then have "drop n (drop pos F) = buffer r' @ file_rest r"
    using assms(3,4) by simp
  then have data: "buffer r' @ file_rest r = drop (pos + n) F"
    by (simp add: add.commute)
  have "(pos div kBlockSize + 1) * kBlockSize \<le> ((pos + n) div kBlockSize + 1) * kBlockSize"
    by (intro mult_le_mono1 add_le_mono1 div_le_mono) simp
  then have reach: "pos + length (buffer r) \<le> ((pos + n) div kBlockSize + 1) * kBlockSize"
    using assms(1) unfolding at_def by linarith
  have "pos + n \<le> length F"
    using sp(2) assms(4) by linarith
  then show ?thesis
    using data reach assms(1) [unfolded at_def] unfolding at_def l eqs by blast
qed

lemma read_complete:
  assumes "ready F num rs pos r" and "drop pos F = phys rec num t p @ tail"
    and "pos mod kBlockSize + hs rec + length p \<le> kBlockSize"
    and "rec \<Longrightarrow> unat num < 2 ^ 32" and "1 \<le> t" "t \<le> 8" "(5 \<le> t) = rec"
  shows "\<exists>r'. ReadPhysicalRecord r = (t, p, 0, r') \<and> at F num rs (pos + (hs rec + length p)) r'"
proof -
  let ?n = "hs rec + length p"
  have small: "length p < 65536"
    using assms(3) by (simp add: kBlockSize_def)
  obtain r1 where r1: "at F num rs pos r1" "ReadPhysicalRecord r = ReadPhysicalRecord r1"
    using assms(1) by (auto simp: ready_def)
  have buffered: ?thesis if at: "at F num rs pos r2" and n: "?n \<le> length (buffer r2)"
    and eq: "ReadPhysicalRecord r = ReadPhysicalRecord r2" for r2
  proof -
    have "take ?n (buffer r2) = take ?n (drop pos F)"
      using at_split(3) [OF at] n by (metis min_absorb1 take_take)
    then have "buffer r2 = phys rec num t p @ drop ?n (buffer r2)"
      using assms(2) append_take_drop_id [of ?n "buffer r2"] by simp
    from read_buffered [OF this] obtain r' where r': "ReadPhysicalRecord r2 = (t, p, 0, r')"
      "same_file r2 r'" "buffer r' = drop ?n (buffer r2)"
      using at assms(4-7) small by (auto simp: at_def)
    from at_advance [OF at this(2,3) n] show ?thesis
      using r'(1) eq by auto
  qed
  have "?n \<le> length (buffer r1) \<or> eof r1 \<or> pos mod kBlockSize = 0 \<and> buffer r1 = []"
    using at_reach [OF r1(1), of ?n] assms(3) hs_bounds(1) [of rec] by simp
  note reach = this
  have eofn: "?n \<le> length (buffer r1)" if "eof r1"
  proof -
    have "buffer r1 = drop pos F"
      using that r1(1) by (rule at_eof [rotated])
    then show ?thesis
      by (simp only: assms(2) length_append length_phys le_add1)
  qed
  show ?thesis
  proof (cases "?n \<le> length (buffer r1)")
    case False
    then have "\<not> eof r1" "buffer r1 = []"
      using reach eofn by auto
    then obtain r2 where r2: "at F num rs pos r2" "ReadPhysicalRecord r1 = ReadPhysicalRecord r2"
      "buffer r2 = take kBlockSize (drop pos F)"
      using at_reads_block [OF r1(1)] by (auto simp: kHeaderSize_def)
    have "?n \<le> length (buffer r2)"
      using r2(3) assms(2,3) by simp
    then show ?thesis
      using buffered [OF r2(1)] r1(2) r2(2) by simp
  qed (use buffered [OF r1(1)] r1(2) in blast)
qed

lemma read_cut:
  assumes "ready F num rs pos r" and "drop pos F = take m (phys rec num t p)" and "m < hs rec + length p"
    and "pos mod kBlockSize + hs rec + length p \<le> kBlockSize"
    and "rec \<Longrightarrow> unat num < 2 ^ 32" and "1 \<le> t" "t \<le> 8" "(5 \<le> t) = rec"
  shows "\<exists>e d r'. ReadPhysicalRecord r = (e, [], d, r') \<and> (e = kEof \<or> e = kBadHeader) \<and> reports r' = rs"
proof -
  have small: "length p < 65536"
    using assms(4) by (simp add: kBlockSize_def)
  obtain r1 where r1: "at F num rs pos r1" "ReadPhysicalRecord r = ReadPhysicalRecord r1"
    using assms(1) by (auto simp: ready_def)
  have ended: ?thesis if "at F num rs pos r2" "eof r2" "ReadPhysicalRecord r = ReadPhysicalRecord r2" for r2
  proof -
    have "buffer r2 = take m (phys rec num t p)"
      using at_eof [OF that(1,2)] assms(2) by simp
    from read_cut_buffered [OF this assms(3) that(2) _ assms(5-8) small] show ?thesis
      using that by (auto simp: at_def same_file_def)
  qed
  show ?thesis
  proof (cases "eof r1")
    case False
    have "length (buffer r1) \<le> m"
      using at_split(3) [OF r1(1)] assms(2) by (metis length_take min.cobounded1 min.bounded_iff take_take)
    then have "buffer r1 = []" "pos mod kBlockSize = 0"
      using at_reach [OF r1(1), of "hs rec + length p"] assms(3,4) False hs_bounds(1) [of rec] by auto
    then obtain r2 where "at F num rs pos r2" "ReadPhysicalRecord r1 = ReadPhysicalRecord r2"
      "length (drop pos F) < kBlockSize \<longrightarrow> eof r2"
      using at_reads_block [OF r1(1) False] by (auto simp: kHeaderSize_def)
    moreover have "length (drop pos F) < kBlockSize"
      using assms(2-4) by simp
    ultimately show ?thesis
      using ended r1(2) by simp
  qed (use ended [OF r1(1)] r1(2) in blast)
qed

lemma read_end:
  assumes "ready F num rs pos r" and "drop pos F = []"
  shows "\<exists>r'. ReadPhysicalRecord r = (kEof, [], 0, r') \<and> reports r' = rs"
proof -
  obtain r1 where r1: "at F num rs pos r1" "ReadPhysicalRecord r = ReadPhysicalRecord r1"
    using assms(1) by (auto simp: ready_def)
  have ended: ?thesis if "at F num rs pos r2" "eof r2" "ReadPhysicalRecord r = ReadPhysicalRecord r2" for r2
  proof -
    have "ReadPhysicalRecord r2 = (kEof, [], 0, r2)"
      using that(2) at_eof [OF that(1,2)] assms(2)
      by (simp add: ReadPhysicalRecord.simps [of r2] ReadMore_def kHeaderSize_def)
    then show ?thesis
      using that by (simp add: at_def)
  qed
  show ?thesis
  proof (cases "eof r1")
    case False
    have "buffer r1 = []"
      using r1(1) assms(2) by (simp add: at_def)
    then obtain r2 where "at F num rs pos r2" "ReadPhysicalRecord r1 = ReadPhysicalRecord r2"
      "length (drop pos F) < kBlockSize \<longrightarrow> eof r2"
      using at_reads_block [OF r1(1) False] by (auto simp: kHeaderSize_def)
    then show ?thesis
      using ended r1(2) assms(2) K_pos by simp
  qed (use ended [OF r1(1)] r1(2) in blast)
qed

section \<open>Records are read back\<close>

lemma at_last_offset [simp]: "at F num rs pos (r\<lparr>last_record_offset := x\<rparr>) = at F num rs pos r"
  by (simp add: at_def)

lemma frags_length:
  "frags rec num off b data out off' \<Longrightarrow> (off + length out) mod kBlockSize = off' mod kBlockSize \<and> out \<noteq> []"
proof (induction rule: frags.induct)
  case (last off data b)
  then show ?case
    using hs_bounds(1) [of rec] by (auto simp: add.assoc simp flip: length_0_conv)
next
  case (more off a data out off' b)
  have "off + length (phys rec num (record_type rec b False) (take a data) @ out) = length out + kBlockSize"
    using more(1,2) by simp
  then show ?case
    using more(4) by (simp only: mod_add_self2) simp
qed

lemma frags_read:
  assumes "frags rec num off b data out off'" and "rec \<Longrightarrow> unat num < 2 ^ 32"
    and "ready F num rs pos r" and "drop pos F = out @ tail" and "pos mod kBlockSize = off"
  shows "\<exists>r'. ReadRecord_loop mode (\<not> b, scratch, pr, r) = Some (True, if b then data else scratch @ data, r')
    \<and> at F num rs (pos + length out) r'"
  using assms(1,3-5)
proof (induction arbitrary: pos r scratch pr rule: frags.induct)
  case (last off data b)
  obtain r' where r': "ReadPhysicalRecord r = (record_type rec b True, data, 0, r')"
    "at F num rs (pos + (hs rec + length data)) r'"
    using read_complete [OF last(2,3) _ assms(2)] last(1,4) record_type_range by metis
  then show ?case
    by (cases b; cases rec) (auto simp: ReadRecord_loop.simps [of mode "(_, _, _, r)"] ReadRecord_step_def Let_def record_type_def)
next
  case (more off a data out off' b)
  have a: "length (take a data) = a"
    using more(2) by simp
  have bound: "pos mod kBlockSize + hs rec + length (take a data) \<le> kBlockSize"
    using more(1,7) a by simp
  have d: "drop pos F = phys rec num (record_type rec b False) (take a data) @ out @ tail"
    using more(6) by simp
  obtain r' where r': "ReadPhysicalRecord r = (record_type rec b False, take a data, 0, r')"
    "at F num rs (pos + (hs rec + a)) r'"
    using read_complete [OF more(5) d bound assms(2)] record_type_range a by auto
  have pos: "drop (pos + (hs rec + a)) F = out @ tail"
    using arg_cong [OF more(6), of "drop (hs rec + a)"] a by (simp add: add.commute)
  have "(pos + (hs rec + a)) mod kBlockSize = (pos mod kBlockSize + (hs rec + a)) mod kBlockSize"
    by (simp add: mod_add_left_eq)
  then have "(pos + (hs rec + a)) mod kBlockSize = 0"
    using more(1,7) by (simp add: add.assoc)
  from more.IH [OF at_ready [OF r'(2)] pos this, of "if b then take a data else scratch @ take a data"]
  obtain r'' where r'': "ReadRecord_loop mode (True, if b then take a data else scratch @ take a data,
      if b then end_of_buffer_offset r - word_of_nat (length (buffer r)) else pr, r')
      = Some (True, (if b then take a data else scratch @ take a data) @ drop a data, r'')"
    "at F num rs (pos + (hs rec + a) + length out) r''"
    by fastforce
  have "ReadRecord_step mode (\<not> b, scratch, pr, r) = Inr (True, if b then take a data else scratch @ take a data,
      if b then end_of_buffer_offset r - word_of_nat (length (buffer r)) else pr, r')"
    using r'(1) by (cases b; cases rec) (auto simp: ReadRecord_step_def Let_def record_type_def)
  then have "ReadRecord_loop mode (\<not> b, scratch, pr, r) = Some (True, (if b then take a data else scratch @ take a data) @ drop a data, r'')"
    using r''(1) by (simp add: ReadRecord_loop.simps [of mode "(_, _, _, r)"])
  then show ?case
    using r''(2) a by (cases b) (auto simp: add.assoc)
qed

lemma step_at_end:
  assumes "ReadPhysicalRecord r = (e, [], d, r')" and "e = kEof \<or> e = kBadHeader"
    and "mode \<noteq> kAbsoluteConsistency \<or> e = kEof \<and> \<not> infr"
  shows "ReadRecord_loop mode (infr, scratch, pr, r) = Some (False, [], r')"
  using assms by (auto simp: ReadRecord_loop.simps [of mode "(_, _, _, r)"] ReadRecord_step_def Let_def end_of_log_def)

lemma frags_cut:
  assumes "frags rec num off b data out off'" and "rec \<Longrightarrow> unat num < 2 ^ 32"
    and "ready F num rs pos r" and "drop pos F = take m out" and "m < length out" and "pos mod kBlockSize = off"
    and "mode \<noteq> kAbsoluteConsistency"
  shows "\<exists>r'. ReadRecord_loop mode (\<not> b, scratch, pr, r) = Some (False, [], r') \<and> reports r' = rs"
  using assms(1,3-6)
proof (induction arbitrary: pos r scratch pr m rule: frags.induct)
  case (last off data b)
  then have "\<exists>e d r'. ReadPhysicalRecord r = (e, [], d, r') \<and> (e = kEof \<or> e = kBadHeader) \<and> reports r' = rs"
    using read_cut [OF last(2,3) _ _ assms(2)] record_type_range by simp
  then show ?case
    using step_at_end assms(7) by metis
next
  case (more off a data out off' b)
  have a: "length (take a data) = a"
    using more(2) by simp
  let ?p = "phys rec num (record_type rec b False) (take a data)"
  have bound: "pos mod kBlockSize + hs rec + length (take a data) \<le> kBlockSize"
    using more(1,8) a by simp
  show ?case
  proof (cases "m < hs rec + a")
    case True
    then have "drop pos F = take m ?p"
      using more(6) a by simp
    then have "\<exists>e d r'. ReadPhysicalRecord r = (e, [], d, r') \<and> (e = kEof \<or> e = kBadHeader) \<and> reports r' = rs"
      using read_cut [OF more(5) _ _ bound assms(2)] True a record_type_range by simp
    then show ?thesis
      using step_at_end assms(7) by metis
  next
    case False
    then have d: "drop pos F = ?p @ take (m - (hs rec + a)) out"
      using more(6) a by simp
    obtain r' where r': "ReadPhysicalRecord r = (record_type rec b False, take a data, 0, r')"
      "at F num rs (pos + (hs rec + a)) r'"
      using read_complete [OF more(5) d bound assms(2)] record_type_range a by auto
    have pos: "drop (pos + (hs rec + a)) F = take (m - (hs rec + a)) out"
      using arg_cong [OF d, of "drop (hs rec + a)"] a by (simp add: add.commute)
    have "(pos + (hs rec + a)) mod kBlockSize = (pos mod kBlockSize + (hs rec + a)) mod kBlockSize"
      by (simp add: mod_add_left_eq)
    then have mod0: "(pos + (hs rec + a)) mod kBlockSize = 0"
      using more(1,8) by (simp add: add.assoc)
    have "m - (hs rec + a) < length out"
      using more(7) a False by simp
    from more.IH [OF at_ready [OF r'(2)] pos this mod0, of "if b then take a data else scratch @ take a data"]
    obtain r'' where r'': "ReadRecord_loop mode (True, if b then take a data else scratch @ take a data,
      if b then end_of_buffer_offset r - word_of_nat (length (buffer r)) else pr, r') = Some (False, [], r'')"
      "reports r'' = rs"
      by fastforce
    have "ReadRecord_step mode (\<not> b, scratch, pr, r) = Inr (True, if b then take a data else scratch @ take a data,
      if b then end_of_buffer_offset r - word_of_nat (length (buffer r)) else pr, r')"
      using r'(1) by (cases b; cases rec) (auto simp: ReadRecord_step_def Let_def record_type_def)
    then show ?thesis
      using r'' by (auto simp: ReadRecord_loop.simps [of mode "(_, _, _, r)"])
  qed
qed

section \<open>Trailers of blocks\<close>

lemma trailer_buffer:
  assumes "at F num rs pos r" and "drop pos F = replicate m 0 @ X" and "X = [] \<or> m = z"
    and "0 < m" "m \<le> z" and "pos mod kBlockSize + z = kBlockSize" and "z < kBlockSize"
  shows "buffer r = replicate m 0 \<and> (eof r \<longrightarrow> X = [])"
proof -
  have off: "pos mod kBlockSize \<noteq> 0"
    using assms(6,7) by simp
  have "pos + length (buffer r) \<le> (pos div kBlockSize + 1) * kBlockSize"
    using assms(1) by (simp add: at_def)
  also have "\<dots> = pos + z"
    using div_mult_mod_eq [of pos kBlockSize] assms(6) unfolding distrib_right by linarith
  finally have le: "length (buffer r) \<le> z"
    by simp
  show ?thesis
  proof (cases "eof r")
    case True
    then have "buffer r = replicate m 0 @ X"
      using at_eof [OF assms(1)] assms(2) by simp
    then show ?thesis
      using le assms(3) by auto
  next
    case False
    then have "length (buffer r) = z"
      using at_reach [OF assms(1), of z] assms(4-6) off le by auto
    moreover have "z \<le> m + length X"
      using at_split(2) [OF assms(1)] arg_cong [OF assms(2), of length] calculation by simp
    ultimately show ?thesis
      using at_split(3) [OF assms(1)] assms(2,3,5) False by auto
  qed
qed

lemma trailer_skipped:
  assumes "at F num rs pos r" and "drop pos F = replicate m 0 @ X" and "X = [] \<or> m = z"
    and "0 < m" "m \<le> z" and "pos mod kBlockSize + z = kBlockSize" and "z < kBlockSize"
    and "mode \<noteq> kAbsoluteConsistency \<or> X \<noteq> []"
  shows "(\<exists>r1. ready F num rs (pos + m) r1 \<and> ReadRecord_loop mode (False, [], pr, r) = ReadRecord_loop mode (False, [], pr, r1))
    \<or> X = [] \<and> (\<exists>r'. ReadRecord_loop mode (False, [], pr, r) = Some (False, [], r') \<and> reports r' = rs)"
proof -
  have b: "buffer r = replicate m 0" "eof r \<Longrightarrow> X = []"
    using trailer_buffer [OF assms(1-7)] by auto
  show ?thesis
  proof (cases "m < 7")
    case True
    show ?thesis
    proof (cases "eof r")
      case True
      then have "ReadPhysicalRecord r = (kBadHeader, [], m, r\<lparr>buffer := []\<rparr>)"
        using b \<open>m < 7\<close> assms(4) by (simp add: ReadPhysicalRecord.simps [of r] ReadMore_def kHeaderSize_def)
      from step_at_end [OF this] show ?thesis
        using b(2) True assms(1,8) by (simp add: at_def)
    next
      case False
      then show ?thesis
        using at_reads_block [OF assms(1) False] b(1) \<open>m < 7\<close> by (auto simp: kHeaderSize_def ready_def)
    qed
  next
    case False
    then have "header_type (buffer r) = 0" "header_length (buffer r) = 0"
      by (simp_all add: b header_type_def header_length_def)
    then have "ReadPhysicalRecord r = (kBadRecord, [], 0, r\<lparr>buffer := []\<rparr>)"
      using False b(1) by (simp add: ReadPhysicalRecord.simps [of r] is_recyclable_def check_record_def Let_def kHeaderSize_def)
    then have "ReadRecord_loop mode (False, [], pr, r) = ReadRecord_loop mode (False, [], pr, r\<lparr>buffer := []\<rparr>)"
      by (simp add: ReadRecord_loop.simps [of mode "(_, _, _, r)"] ReadRecord_step_def Let_def abandon_fragments_def)
    moreover have "at F num rs (pos + m) (r\<lparr>buffer := []\<rparr>)"
      using at_advance [OF assms(1), of "r\<lparr>buffer := []\<rparr>" m] b(1) by simp
    ultimately show ?thesis
      using at_ready by blast
  qed
qed

lemma record_read:
  assumes "at F num rs pos r" and "framed rec num off True data out off'" and "off \<le> kBlockSize"
    and "pos mod kBlockSize = off mod kBlockSize" and "drop pos F = out @ tail" and "rec \<Longrightarrow> unat num < 2 ^ 32"
  shows "\<exists>r'. ReadRecord_loop mode (False, [], pr, r) = Some (True, data, r') \<and> at F num rs (pos + length out) r'"
proof (cases "kBlockSize < off + hs rec")
  case False
  then have "frags rec num off True data out off'" "pos mod kBlockSize = off"
    using assms(2,4) hs_bounds(1) [of rec] by (simp_all add: framed_def)
  from frags_read [OF this(1) assms(6) at_ready [OF assms(1)] assms(5) this(2), of mode "[]" pr] show ?thesis
    by simp
next
  case True
  then obtain out' where out: "out = replicate (kBlockSize - off) 0 @ out'" and f: "frags rec num 0 True data out' off'"
    using assms(2) by (auto simp: framed_def)
  let ?z = "kBlockSize - off"
  have ne: "out' \<noteq> []"
    using frags_length [OF f] by simp
  show ?thesis
  proof (cases "off = kBlockSize")
    case True
    then show ?thesis
      using frags_read [OF f assms(6) at_ready [OF assms(1)], of tail mode "[]" pr] assms(4,5) out by simp
  next
    case False
    then have z: "pos mod kBlockSize + ?z = kBlockSize" "?z < kBlockSize" "0 < ?z"
      using assms(3,4) True hs_bounds(3) [of rec] by auto
    have d: "drop pos F = replicate ?z 0 @ (out' @ tail)"
      using assms(5) out by simp
    obtain r1 where r1: "ready F num rs (pos + ?z) r1"
      "ReadRecord_loop mode (False, [], pr, r) = ReadRecord_loop mode (False, [], pr, r1)"
      using trailer_skipped [OF assms(1) d _ z(3) _ z(1,2), of mode pr] ne by auto
    have "drop (pos + ?z) F = out' @ tail"
      using arg_cong [OF d, of "drop ?z"] by (simp add: add.commute)
    moreover have "(pos + ?z) mod kBlockSize = 0"
      using z(1) by (metis mod_add_left_eq mod_self)
    ultimately show ?thesis
      using frags_read [OF f assms(6) r1(1), of tail mode "[]" pr] r1(2) out assms(3) by (simp add: add.assoc)
  qed
qed

lemma record_cut:
  assumes "at F num rs pos r" and "framed rec num off True data out off'" and "off \<le> kBlockSize"
    and "pos mod kBlockSize = off mod kBlockSize" and "drop pos F = take m out" and "m < length out"
    and "rec \<Longrightarrow> unat num < 2 ^ 32" and "mode \<noteq> kAbsoluteConsistency"
  shows "\<exists>r'. ReadRecord_loop mode (False, [], pr, r) = Some (False, [], r') \<and> reports r' = rs"
proof (cases "kBlockSize < off + hs rec")
  case False
  then have "frags rec num off True data out off'" "pos mod kBlockSize = off"
    using assms(2,4) hs_bounds(1) [of rec] by (simp_all add: framed_def)
  from frags_cut [OF this(1) assms(7) at_ready [OF assms(1)] assms(5,6) this(2) assms(8), of "[]" pr] show ?thesis
    by simp
next
  case True
  then obtain out' where out: "out = replicate (kBlockSize - off) 0 @ out'" and f: "frags rec num 0 True data out' off'"
    using assms(2) by (auto simp: framed_def)
  let ?z = "kBlockSize - off"
  show ?thesis
  proof (cases "off = kBlockSize")
    case True
    then show ?thesis
      using frags_cut [OF f assms(7) at_ready [OF assms(1)] _ _ _ assms(8), of m "[]" pr] assms(4-6) out by simp
  next
    case False
    then have z: "pos mod kBlockSize + ?z = kBlockSize" "?z < kBlockSize" "0 < ?z"
      using assms(3,4) True hs_bounds(3) [of rec] by auto
    have finish: "\<exists>r'. ReadRecord_loop mode (False, [], pr, r1) = Some (False, [], r') \<and> reports r' = rs"
      if "ready F num rs (pos + n) r1" "drop (pos + n) F = []" for n r1
      using read_end [OF that] step_at_end assms(8) by metis
    show ?thesis
    proof (cases "m = 0")
      case True
      then show ?thesis
        using finish [of 0 r] at_ready [OF assms(1)] assms(5) by simp
    next
      case nz: False
      show ?thesis
      proof (cases "m \<le> ?z")
        case True
        then have d: "drop pos F = replicate m 0 @ []"
          using assms(5) out by simp
        have "drop (pos + m) F = []"
          using arg_cong [OF d, of "drop m"] by (simp add: add.commute)
        then show ?thesis
          using trailer_skipped [OF assms(1) d _ _ True z(1,2), of mode pr] nz assms(8) finish by fastforce
      next
        case False
        then have d: "drop pos F = replicate ?z 0 @ take (m - ?z) out'" "take (m - ?z) out' \<noteq> []"
          using assms(5,6) out by auto
        obtain r1 where r1: "ready F num rs (pos + ?z) r1"
          "ReadRecord_loop mode (False, [], pr, r) = ReadRecord_loop mode (False, [], pr, r1)"
          using trailer_skipped [OF assms(1) d(1) _ z(3) _ z(1,2), of mode pr] d(2) by auto
        have "drop (pos + ?z) F = take (m - ?z) out'"
          using arg_cong [OF d(1), of "drop ?z"] by (simp add: add.commute)
        moreover have "(pos + ?z) mod kBlockSize = 0"
          using z(1) by (metis mod_add_left_eq mod_self)
        ultimately show ?thesis
          using frags_cut [OF f assms(7) r1(1) _ _ _ assms(8), of "m - ?z" "[]" pr] r1(2) out assms(6) False by simp
      qed
    qed
  qed
qed

section \<open>Whole logs\<close>

text \<open>Records added one after the other, and those of them that end within the first \<open>m\<close> bytes of the file.\<close>

definition written :: "Writer \<Rightarrow> bytes list \<Rightarrow> Writer" where
  "written w ds = foldl (\<lambda>w d. snd (AddRecord d w)) w ds"

fun survivors :: "nat \<Rightarrow> Writer \<Rightarrow> bytes list \<Rightarrow> bytes list" where
  "survivors m w [] = []"
| "survivors m w (d # ds) =
     (let w' = snd (AddRecord d w) in if length (dest w') \<le> m then d # survivors m w' ds else [])"

lemma written_simps [simp]: "written w [] = w" "written w (d # ds) = written (snd (AddRecord d w)) ds"
  by (simp_all add: written_def)

lemma framed_length:
  assumes "framed rec num off True d out off'" and "off \<le> kBlockSize"
  shows "(off + length out) mod kBlockSize = off' mod kBlockSize"
proof (cases "kBlockSize < off + hs rec")
  case True
  then obtain out' where "out = replicate (kBlockSize - off) 0 @ out'" "frags rec num 0 True d out' off'"
    using assms(1) by (auto simp: framed_def)
  then show ?thesis
    using frags_length [of rec num 0 True d out' off'] assms(2) by simp
next
  case False
  then show ?thesis
    using assms frags_length [of rec num off True d out off'] by (simp add: framed_def)
qed

lemma AddRecord_good:
  assumes "good_writer w"
  obtains out off where "snd (AddRecord d w) = w\<lparr>dest := dest w @ out, block_offset := off\<rparr>"
    and "framed (recycle_log_files w) (log_number w) (block_offset w) True d out off" and "off \<le> kBlockSize"
    and "good_writer (w\<lparr>dest := dest w @ out, block_offset := off\<rparr>)"
  using AddRecord_frags [OF assms, of True d] assms by (auto simp: AddRecord_def good_writer_def)

lemma written_extends:
  assumes "good_writer w"
  shows "\<exists>more. dest (written w ds) = dest w @ more"
  using assms
proof (induction ds arbitrary: w)
  case (Cons d ds)
  obtain out off where w: "snd (AddRecord d w) = w\<lparr>dest := dest w @ out, block_offset := off\<rparr>"
    and g: "good_writer (w\<lparr>dest := dest w @ out, block_offset := off\<rparr>)"
    by (rule AddRecord_good [OF Cons.prems, of d])
  from Cons.IH [OF g] show ?case
    by (auto simp: w)
qed simp

lemma ReadRecord_at: "at F num rs pos r \<Longrightarrow> ReadRecord mode r = ReadRecord_loop mode (False, [], 0, r)"
  by (simp add: at_def ReadRecord_def)

text \<open>The reads of a client that calls \<open>ReadRecord\<close> until it returns false, when nothing more is reported on the way.\<close>

inductive log_reads :: "WALRecoveryMode \<Rightarrow> (nat \<times> Status) list \<Rightarrow> Reader \<Rightarrow> bytes list \<Rightarrow> bool" for mode rs where
  ends: "ReadRecord mode r = Some (False, x, r') \<Longrightarrow> reports r' = rs \<Longrightarrow> log_reads mode rs r []"
| another: "ReadRecord mode r = Some (True, d, r') \<Longrightarrow> reports r' = rs \<Longrightarrow> log_reads mode rs r' ds \<Longrightarrow> log_reads mode rs r (d # ds)"

lemma log_reads_read_log: "log_reads mode rs r ds \<Longrightarrow> \<exists>r'. read_log mode r = Some (ds, r') \<and> reports r' = rs"
proof (induction rule: log_reads.induct)
  case (ends r x r')
  then show ?case
    by (simp add: read_log.simps [of mode r])
next
  case (another r d r' ds)
  then show ?case
    by (auto simp: read_log.simps [of mode r])
qed

lemma written_reads:
  assumes "good_writer w" and "recycle_log_files w \<Longrightarrow> unat (log_number w) < 2 ^ 32"
    and "length (dest w) mod kBlockSize = block_offset w mod kBlockSize" and "length (dest w) \<le> m"
    and "at (take m (dest (written w ds))) (log_number w) rs (length (dest w)) r"
    and "mode \<noteq> kAbsoluteConsistency \<or> length (dest (written w ds)) \<le> m"
  shows "log_reads mode rs r (survivors m w ds)"
  using assms
proof (induction ds arbitrary: w r)
  case Nil
  then have "drop (length (dest w)) (take m (dest w)) = []"
    by simp
  then obtain r' where "ReadPhysicalRecord r = (kEof, [], 0, r')" "reports r' = rs"
    using read_end [OF at_ready [OF Nil(5)]] by auto
  then have "ReadRecord mode r = Some (False, [], r')" "reports r' = rs"
    using ReadRecord_at [OF Nil(5)] step_at_end [of r 9 0 r' mode False] by auto
  then show ?case
    by (simp add: log_reads.ends)
next
  case (Cons d ds)
  let ?rec = "recycle_log_files w" and ?num = "log_number w" and ?pos = "length (dest w)"
  obtain out off where w: "snd (AddRecord d w) = w\<lparr>dest := dest w @ out, block_offset := off\<rparr>"
    and f: "framed ?rec ?num (block_offset w) True d out off" and off: "off \<le> kBlockSize"
    and g: "good_writer (w\<lparr>dest := dest w @ out, block_offset := off\<rparr>)"
    by (rule AddRecord_good [OF Cons.prems(1), of d])
  let ?w = "w\<lparr>dest := dest w @ out, block_offset := off\<rparr>"
  obtain more where more: "dest (written ?w ds) = dest w @ out @ more"
    using written_extends [OF g, of ds] by auto
  have bo: "block_offset w \<le> kBlockSize"
    using Cons.prems(1) by (simp add: good_writer_def)
  have at: "at (take m (dest (written ?w ds))) ?num rs ?pos r"
    using Cons.prems(5) w by simp
  show ?case
  proof (cases "?pos + length out \<le> m")
    case True
    then have "drop ?pos (take m (dest (written ?w ds))) = out @ take (m - ?pos - length out) more"
      using Cons.prems(4) by (simp add: more)
    from record_read [OF at f bo Cons.prems(3) this Cons.prems(2), of mode 0] obtain r1
      where r1: "ReadRecord mode r = Some (True, d, r1)" "at (take m (dest (written ?w ds))) ?num rs (?pos + length out) r1"
      using ReadRecord_at [OF at] by auto
    have "(?pos + length out) mod kBlockSize = off mod kBlockSize"
      using framed_length [OF f bo] Cons.prems(3) mod_add_cong by metis
    then have "log_reads mode rs r1 (survivors m ?w ds)"
      using Cons.IH [of ?w r1] g r1(2) True Cons.prems(2,6) w by auto
    then show ?thesis
      using r1 True by (auto simp: w at_def intro: log_reads.another)
  next
    case False
    then have "drop ?pos (take m (dest (written ?w ds))) = take (m - ?pos) out" "m - ?pos < length out"
      using Cons.prems(4) by (simp_all add: more)
    moreover have "mode \<noteq> kAbsoluteConsistency"
      using Cons.prems(6) False w more by auto
    ultimately obtain r' where "ReadRecord mode r = Some (False, [], r')" "reports r' = rs"
      using record_cut [OF at f bo Cons.prems(3) _ _ Cons.prems(2), of "m - ?pos" mode 0] ReadRecord_at [OF at] by auto
    then show ?thesis
      using False by (simp add: w log_reads.ends)
  qed
qed

lemma new_Writer_good: "good_writer (new_Writer OK OK num rec manual)"
  by (simp add: good_writer_def new_Writer_def log_crc del: upt_Suc)

lemma new_Reader_at: "at F num [] 0 (new_Reader F OK rep check 0 num)"
  by (simp add: at_def new_Reader_def)



section \<open>Records of other logs\<close>

text \<open>The first physical record of a log that is not empty.\<close>

lemma written_starts:
  assumes "ds \<noteq> []"
  obtains t p X where "dest (written (new_Writer OK OK num rec manual) ds) = phys rec num t p @ X"
    and "1 \<le> t" "t \<le> 8" "(5 \<le> t) = rec" "hs rec + length p \<le> kBlockSize"
proof -
  let ?w = "new_Writer OK OK num rec manual"
  obtain d ds' where ds: "ds = d # ds'"
    using assms by (cases ds) auto
  obtain out off where w: "snd (AddRecord d ?w) = ?w\<lparr>dest := dest ?w @ out, block_offset := off\<rparr>"
    and f: "framed rec num 0 True d out off" and g: "good_writer (?w\<lparr>dest := dest ?w @ out, block_offset := off\<rparr>)"
    by (rule AddRecord_good [OF new_Writer_good, where d = d]) (auto simp: new_Writer_def)
  have "\<exists>t p X. out = phys rec num t p @ X \<and> 1 \<le> t \<and> t \<le> 8 \<and> (5 \<le> t) = rec \<and> hs rec + length p \<le> kBlockSize"
  proof -
    have "frags rec num 0 True d out off"
      using f hs_bounds(3) [of rec] by (simp add: framed_def)
    then show ?thesis
    proof (cases rule: frags.cases)
      case last
      then show ?thesis
        using record_type_range [of rec True True] by (metis add_0 append_Nil2)
    next
      case (more a out')
      then show ?thesis
        using record_type_range [of rec True False] by (metis add_0 eq_imp_le length_take less_imp_le min.absorb2)
    qed
  qed
  moreover obtain Y where "dest (written ?w ds) = dest ?w @ out @ Y"
    using written_extends [OF g, of ds'] w ds by auto
  ultimately show thesis
    using that by (auto simp: new_Writer_def)
qed

lemma old_record_stays:
  assumes "buffer r = phys True num t p @ b" and "ucast (ucast num :: u32) \<noteq> rd_log_number r"
    and "5 \<le> t" "t \<le> 8" and "length p < 65536"
  shows "\<exists>x. ReadPhysicalRecord r = (kOldRecord, [], 0, r\<lparr>recycled := x\<rparr>)"
proof -
  have "header_type (buffer r) = t"
    using header_fields [of t p "length (phys True num t p)" True num b] assms hs_bounds(1) [of True] by simp
  moreover have "\<not> length (buffer r) < kHeaderSize" "\<not> length (buffer r) < kRecyclableHeaderSize"
    using assms(1) by (simp_all add: kHeaderSize_def hs_def kRecyclableHeaderSize_def)
  ultimately show ?thesis
    using assms phys_parts(3) [where rec = True and num = num and t = t and p = p and b = b]
    by (auto simp: ReadPhysicalRecord.simps [of r] is_recyclable_def Let_def intro: exI [of _ "recycled r"])
qed

lemma old_record_loops:
  assumes "buffer r = phys True num t p @ b" and "ucast (ucast num :: u32) \<noteq> rd_log_number r"
    and "5 \<le> t" "t \<le> 8" and "length p < 65536"
  shows "ReadRecord_loop kSkipAnyCorruptedRecords (False, [], pr, r) = None"
proof -
  let ?stuck = "\<lambda>s. \<exists>r'. s = (False, [], pr, r') \<and> buffer r' = buffer r \<and> rd_log_number r' = rd_log_number r"
  have again: "\<exists>s'. ReadRecord_step kSkipAnyCorruptedRecords s = Inr s' \<and> ?stuck s'" if stuck: "?stuck s" for s
  proof -
    obtain r' where r': "s = (False, [], pr, r')" "buffer r' = buffer r" "rd_log_number r' = rd_log_number r"
      using stuck by blast
    then obtain x where "ReadPhysicalRecord r' = (kOldRecord, [], 0, r'\<lparr>recycled := x\<rparr>)"
      using old_record_stays [of r' num t p b] assms by auto
    then show ?thesis
      using r' by (simp add: ReadRecord_step_def Let_def abandon_fragments_def)
  qed
  have "mode = kSkipAnyCorruptedRecords \<longrightarrow> \<not> ?stuck s" if "ReadRecord_loop mode s = Some y" for mode s y
  proof (rule ReadRecord_loop.raw_induct [OF _ that, where P = "\<lambda>mode s y. mode = kSkipAnyCorruptedRecords \<longrightarrow> \<not> ?stuck s"])
    show "mode = kSkipAnyCorruptedRecords \<longrightarrow> \<not> ?stuck s"
      if IH: "\<And>mode s y. loop mode s = Some y \<Longrightarrow> mode = kSkipAnyCorruptedRecords \<longrightarrow> \<not> ?stuck s"
        and step: "(case ReadRecord_step mode s of Inl result \<Rightarrow> Some result | Inr s \<Rightarrow> loop mode s) = Some y"
      for loop mode s y
    proof (intro impI notI)
      assume "mode = kSkipAnyCorruptedRecords" "?stuck s"
      then obtain s' where "ReadRecord_step mode s = Inr s'" "?stuck s'"
        using again by blast
      then show False
        using IH [of mode s' y] step \<open>mode = _\<close> by simp
    qed
  qed
  then show ?thesis
    by (metis not_None_eq)
qed

lemma old_log_read:
  fixes manual :: bool
  assumes "ds \<noteq> []" and "ucast (ucast num :: u32) \<noteq> num'"
  defines "F \<equiv> dest (written (new_Writer OK OK num True manual) ds)"
  shows "mode \<noteq> kSkipAnyCorruptedRecords \<Longrightarrow>
      \<exists>r'. read_log mode (new_Reader F OK reporter check 0 num') = Some ([], r') \<and> reports r' = []"
    and "ReadRecord kSkipAnyCorruptedRecords (new_Reader F OK reporter check 0 num') = None"
proof -
  obtain t p X where F: "F = phys True num t p @ X" and t: "5 \<le> t" "t \<le> 8" and p: "hs True + length p \<le> kBlockSize"
    unfolding F_def by (rule written_starts [OF assms(1), of num True manual]) auto
  let ?r = "new_Reader F OK reporter check 0 num'"
  have p': "length p < 65536"
    using p by (simp add: kBlockSize_def)
  have loop: "ReadRecord mode ?r = ReadRecord_loop mode (False, [], 0, ?r)" for mode
    by (simp add: ReadRecord_def new_Reader_def)
  have F': "take kBlockSize F = phys True num t p @ take (kBlockSize - (hs True + length p)) X"
    using p by (simp add: F)
  define r1 where "r1 = snd (ReadMore ?r)"
  have more: "ReadMore ?r = (None, r1)"
    by (simp add: r1_def ReadMore_def file_Read_def new_Reader_def Let_def del: length_take)
  have r1: "buffer r1 = phys True num t p @ take (kBlockSize - (hs True + length p)) X"
    "rd_log_number r1 = num'" "reports r1 = []"
    unfolding F' [symmetric] by (simp_all add: r1_def ReadMore_def file_Read_def new_Reader_def Let_def del: length_take)
  have phys: "ReadPhysicalRecord ?r = ReadPhysicalRecord r1"
    using more by (simp add: ReadPhysicalRecord.simps [of ?r] kHeaderSize_def) (simp add: new_Reader_def)
  obtain x where old: "ReadPhysicalRecord ?r = (kOldRecord, [], 0, r1\<lparr>recycled := x\<rparr>)"
    using old_record_stays [OF r1(1) _ t p'] assms(2) r1(2) phys by auto
  show "\<exists>r'. read_log mode ?r = Some ([], r') \<and> reports r' = []" if "mode \<noteq> kSkipAnyCorruptedRecords"
  proof -
    have "ReadRecord mode ?r = Some (False, [], r1\<lparr>recycled := x\<rparr>)"
      using old that by (simp add: loop ReadRecord_loop.simps [of mode "(_, _, _, ?r)"] ReadRecord_step_def end_of_log_def Let_def)
    then show ?thesis
      using r1(3) by (simp add: read_log.simps [of mode ?r])
  qed
  have "ReadRecord_loop kSkipAnyCorruptedRecords (False, [], 0, ?r)
      = ReadRecord_loop kSkipAnyCorruptedRecords (False, [], 0, r1\<lparr>recycled := x\<rparr>)"
    using old by (simp add: ReadRecord_loop.simps [of kSkipAnyCorruptedRecords "(_, _, _, ?r)"] ReadRecord_step_def Let_def abandon_fragments_def)
  then show "ReadRecord kSkipAnyCorruptedRecords ?r = None"
    using old_record_loops [of "r1\<lparr>recycled := x\<rparr>" num t p] r1 t p' assms(2) by (simp add: loop)
qed



text \<open>
  C25: In the mode that skips corrupted records the reader never returns from \<open>ReadRecord\<close> on such a
  file: \<open>ReadPhysicalRecord\<close> reports the old record without consuming it, and the loop asks again.
\<close>

theorem ReadRecord_diverges:
  assumes "unat num < 2 ^ 32" and "num' \<noteq> num" and "ds \<noteq> []"
  shows "ReadRecord kSkipAnyCorruptedRecords
    (new_Reader (dest (written (new_Writer OK OK num True manual) ds)) OK reporter check 0 num') = None"
  using old_log_read(2) [OF assms(3), of num num'] assms(2) lognum_back [OF assms(1)] by auto

lemma ReadRecord_diverges_witness:
  "ReadRecord kSkipAnyCorruptedRecords
    (new_Reader (dest (written (new_Writer OK OK 5 True False) [[1, 2, 3], [4]])) OK True True 0 9) = None"
  using ReadRecord_diverges [of 5 9 "[[1, 2, 3], [4]]" False True True] by simp

text \<open>
  A recyclable log whose number does not fit 32 bits is lost: the header keeps the low 32 bits
  only, and the reader compares them with the whole number, so that recovery finds an empty log and
  reports nothing.
\<close>

theorem wide_log_number_lost:
  assumes "2 ^ 32 \<le> unat num" and "mode \<noteq> kSkipAnyCorruptedRecords" and "ds \<noteq> []"
  shows "\<exists>r'. read_log mode (new_Reader (dest (written (new_Writer OK OK num True manual) ds)) OK reporter check 0 num)
    = Some ([], r') \<and> reports r' = []"
proof (rule old_log_read(1) [OF assms(3) _ assms(2)])
  have "unat (ucast (ucast num :: u32) :: u64) < 2 ^ 32"
    using unsigned_less [where 'a = nat, of "ucast num :: u32"] by (simp add: unsigned_ucast_eq unsigned_take_bit_eq take_bit_nat_eq_self)
  then show "ucast (ucast num :: u32) \<noteq> num"
    using assms(1) by auto
qed

lemma wide_log_number_lost_witness:
  "\<exists>r'. read_log kPointInTimeRecovery (new_Reader (dest (written (new_Writer OK OK 0x100000005 True False) [[1, 2, 3]])) OK True True 0 0x100000005)
    = Some ([], r') \<and> reports r' = []"
  using wide_log_number_lost [of "0x100000005" kPointInTimeRecovery "[[1, 2, 3]]" False True True] by simp

section \<open>Reading ends\<close>

definition unread :: "Reader \<Rightarrow> nat" where
  "unread r = length (file_rest r) + length (buffer r)"

lemma unread_Report [simp]: "unread (ReportCorruption n reason r) = unread r" "unread (ReportDrop n st r) = unread r"
  by (simp_all add: ReportCorruption_def ReportDrop_def unread_def)

lemma unread_upd [simp]:
  "unread (r\<lparr>last_record_offset := x\<rparr>) = unread r" "unread (r\<lparr>recycled := y\<rparr>) = unread r"
  by (simp_all add: unread_def)

lemma ReadMore_unread:
  assumes "ReadMore r = (x, r')"
  shows "unread r' \<le> unread r" and "x = Some (d, e) \<Longrightarrow> e = kEof \<or> e = kBadHeader"
  using assms by (auto simp: ReadMore_def file_Read_def unread_def ReportDrop_def Let_def split: if_splits)

lemma check_record_unread:
  assumes "check_record n r = (e, f, d, r')" and "0 < n" and "\<not> length (buffer r) < kHeaderSize"
  shows "unread r' < unread r"
  using assms by (auto simp: check_record_def Let_def unread_def kHeaderSize_def split: if_splits)

lemma ReadPhysicalRecord_unread:
  "ReadPhysicalRecord r = (e, f, d, r') \<Longrightarrow>
     unread r' \<le> unread r \<and> (unread r' < unread r \<or> e = kEof \<or> e = kBadHeader \<or> e = kOldRecord)"
proof (induction r rule: ReadPhysicalRecord.induct)
  case (1 r)
  have stop: ?case if "ReadMore r0 = (Some (d', e'), r1)" "ReadPhysicalRecord r = (e', [], d', r1)" "unread r0 = unread r" for r0 d' e' r1
    using ReadMore_unread [OF that(1)] that(2,3) 1(3) by auto
  consider (short) "length (buffer r) < kHeaderSize"
    | (recyclable) "\<not> length (buffer r) < kHeaderSize" "is_recyclable (header_type (buffer r))"
    | (legacy) "\<not> length (buffer r) < kHeaderSize" "\<not> is_recyclable (header_type (buffer r))"
    by blast
  then show ?case
  proof cases
    case short
    then show ?thesis
    proof (cases "ReadMore r")
      case (Pair x r1)
      show ?thesis
      proof (cases x)
        case None
        then show ?thesis
          using 1(1) [OF short Pair [symmetric] None] 1(3) short Pair ReadMore_unread(1) [OF Pair]
          by (auto simp: ReadPhysicalRecord.simps [of r])
      next
        case (Some y)
        then show ?thesis
          using stop [of r "fst y" "snd y" r1] Pair short by (auto simp: ReadPhysicalRecord.simps [of r] split_def)
      qed
    qed
  next
    case recyclable
    define r0 where "r0 = (if end_of_buffer_offset r - word_of_nat (length (buffer r)) = 0 then r\<lparr>recycled := True\<rparr> else r)"
    have r0: "unread r0 = unread r" "buffer r0 = buffer r"
      by (simp_all add: r0_def)
    show ?thesis
    proof (cases "length (buffer r) < kRecyclableHeaderSize")
      case len: True
      show ?thesis
      proof (cases "ReadMore r0")
        case (Pair x r1)
        show ?thesis
        proof (cases x)
          case None
          then show ?thesis
            using 1(2) [OF recyclable(1) refl recyclable(2) r0_def len Pair [symmetric] None] 1(3) recyclable len Pair
              ReadMore_unread(1) [OF Pair] r0 by (auto simp: ReadPhysicalRecord.simps [of r] r0_def Let_def split_def)
        next
          case (Some y)
          then show ?thesis
            using stop [of r0 "fst y" "snd y" r1] Pair recyclable len r0
            by (auto simp: ReadPhysicalRecord.simps [of r] r0_def Let_def split_def)
        qed
      qed
    next
      case False
      then have "(e, f, d, r') = (kOldRecord, [], 0, r0) \<or> check_record kRecyclableHeaderSize r0 = (e, f, d, r')"
        using 1(3) recyclable by (auto simp: ReadPhysicalRecord.simps [of r] r0_def Let_def split: if_splits)
      then show ?thesis
        using check_record_unread [of kRecyclableHeaderSize r0 e f d r'] r0 recyclable(1)
        by (auto simp: kRecyclableHeaderSize_def)
    qed
  next
    case legacy
    then have "check_record kHeaderSize r = (e, f, d, r')"
      using 1(3) by (simp add: ReadPhysicalRecord.simps [of r])
    then show ?thesis
      using check_record_unread [of kHeaderSize r e f d r'] legacy(1)
      by (simp add: kHeaderSize_def)
  qed
qed

lemma ReadRecord_step_unread:
  assumes "mode \<noteq> kSkipAnyCorruptedRecords"
  shows "ReadRecord_step mode (b, sc, pr, r) = Inr (b', sc', pr', r') \<Longrightarrow> unread r' < unread r"
    and "ReadRecord_step mode (b, sc, pr, r) = Inl (found, d, r') \<Longrightarrow> found \<Longrightarrow> unread r' < unread r"
  using ReadPhysicalRecord_unread [of r] assms
  by (auto simp: ReadRecord_step_def Let_def end_of_log_def abandon_fragments_def split: prod.splits if_splits)

lemma ReadRecord_loop_returns:
  assumes "mode \<noteq> kSkipAnyCorruptedRecords"
  shows "\<exists>found d r'. ReadRecord_loop mode (b, sc, pr, r) = Some (found, d, r') \<and> (found \<longrightarrow> unread r' < unread r)"
proof (induction "unread r" arbitrary: b sc pr r rule: less_induct)
  case less
  show ?case
  proof (cases "ReadRecord_step mode (b, sc, pr, r)")
    case (Inl y)
    obtain found d r' where y: "y = (found, d, r')"
      by (cases y)
    then show ?thesis
      using ReadRecord_step_unread(2) [OF assms, of b sc pr r found d r'] Inl
      by (auto simp: ReadRecord_loop.simps [of mode "(b, sc, pr, r)"])
  next
    case (Inr s)
    obtain b' sc' pr' r' where s: "s = (b', sc', pr', r')"
      by (cases s)
    then have "unread r' < unread r"
      using ReadRecord_step_unread(1) [OF assms] Inr by blast
    from less.hyps [OF this, of b' sc' pr'] this show ?thesis
      using Inr s by (auto simp: ReadRecord_loop.simps [of mode "(b, sc, pr, r)"])
  qed
qed

lemma SkipToInitialBlock_unread: "unread (snd (SkipToInitialBlock r)) \<le> unread r"
  by (auto simp: SkipToInitialBlock_def Let_def) (auto simp: unread_def)

lemma ReadRecord_returns:
  assumes "mode \<noteq> kSkipAnyCorruptedRecords"
  shows "\<exists>found d r'. ReadRecord mode r = Some (found, d, r') \<and> (found \<longrightarrow> unread r' < unread r)"
proof (cases "last_record_offset r < initial_offset r")
  case True
  obtain b r1 where r1: "SkipToInitialBlock r = (b, r1)"
    by (cases "SkipToInitialBlock r")
  then have "unread r1 \<le> unread r"
    using SkipToInitialBlock_unread [of r] by simp
  then show ?thesis
    using ReadRecord_loop_returns [OF assms, of False "[]" 0 r1] True r1 by (auto simp: ReadRecord_def)
next
  case False
  then show ?thesis
    using ReadRecord_loop_returns [OF assms] by (simp add: ReadRecord_def)
qed

text \<open>
  C24: Recovery ends on every file, however damaged, whatever the reads of the file return and wherever
  the reader starts, in every recovery mode but the one that skips corrupted records: each call of
  \<open>ReadRecord\<close> returns and reading the log up to its end is finite.
\<close>

theorem read_log_terminates:
  assumes "mode \<noteq> kSkipAnyCorruptedRecords"
  shows "\<exists>records r'. read_log mode (new_Reader file status reporter check offset num) = Some (records, r')"
proof -
  have "\<exists>y. read_log mode r = Some y" for r
  proof (induction "unread r" arbitrary: r rule: less_induct)
    case less
    obtain found d r' where r': "ReadRecord mode r = Some (found, d, r')" "found \<longrightarrow> unread r' < unread r"
      using ReadRecord_returns [OF assms] by blast
    show ?case
    proof (cases found)
      case True
      then obtain y where "read_log mode r' = Some y"
        using less r'(2) by blast
      then show ?thesis
        using r' True by (cases y) (simp add: read_log.simps [of mode r])
    qed (use r' in \<open>simp add: read_log.simps [of mode r]\<close>)
  qed
  then show ?thesis
    by auto
qed

lemma read_log_terminates_witness:
  "\<exists>records r'. read_log kAbsoluteConsistency (new_Reader [1, 2, 3, 4, 5, 6, 7, 8] OK True True 0 5) = Some (records, r')"
  by (rule read_log_terminates) simp

end
