(* ===== verification/Version_Set.thy ===== *)
theory Version_Set
  imports Version_Builder Log_Props
begin

text \<open>
  The set of versions of a database and its manifest (db/version_set.cc): \<open>LogAndApply\<close> builds the
  next version from a group of edits and appends them to the manifest, a log of edits that starts
  with a snapshot; \<open>Recover\<close> replays the manifest.

  A family is identified by its number, which is never used again.  Reference counts, statistics,
  compaction scores and open tables are left out.  Messages are shortened to their fixed text.
\<close>

section \<open>State\<close>

record CFOptions =
  num_levels :: nat
  comparator_Name :: bytes
  internal_comparator :: "bytes \<Rightarrow> bytes \<Rightarrow> int"

record ColumnFamilyData =
  cf_id :: u32
  cf_name :: bytes
  cf_options :: CFOptions
  cf_log_number :: u64
  cf_dropped :: bool
  cf_current :: version

record VersionSet =
  column_family_set :: "ColumnFamilyData list"
  vs_max_column_family :: u32
  vs_next_file_number :: u64
  vs_last_sequence :: u64
  last_to_be_written_sequence :: u64
  vs_prev_log_number :: u64
  manifest_file_number :: u64
  manifest_file_size :: nat
  descriptor_log :: "Writer option"
  obsolete_manifests :: "u64 list"

definition new_VersionSet :: VersionSet where
  "new_VersionSet = \<lparr>column_family_set = [], vs_max_column_family = 0, vs_next_file_number = 2, vs_last_sequence = 0,
     last_to_be_written_sequence = 0, vs_prev_log_number = 0, manifest_file_number = 0, manifest_file_size = 0,
     descriptor_log = None, obsolete_manifests = []\<rparr>"

definition kDefaultColumnFamilyName :: bytes where
  "kDefaultColumnFamilyName = [100, 101, 102, 97, 117, 108, 116]"

definition GetColumnFamily :: "u32 \<Rightarrow> VersionSet \<Rightarrow> ColumnFamilyData option" where
  "GetColumnFamily i vs = find (\<lambda>c. cf_id c = i \<and> \<not> cf_dropped c) (column_family_set vs)"

definition update_cf :: "u32 \<Rightarrow> (ColumnFamilyData \<Rightarrow> ColumnFamilyData) \<Rightarrow> VersionSet \<Rightarrow> VersionSet" where
  "update_cf i upd vs =
     vs\<lparr>column_family_set := map (\<lambda>c. if cf_id c = i \<and> \<not> cf_dropped c then upd c else c) (column_family_set vs)\<rparr>"

definition UpdateMaxColumnFamily :: "u32 \<Rightarrow> VersionSet \<Rightarrow> VersionSet" where
  "UpdateMaxColumnFamily m vs = vs\<lparr>vs_max_column_family := max m (vs_max_column_family vs)\<rparr>"

definition CreateColumnFamily :: "CFOptions \<Rightarrow> VersionEdit \<Rightarrow> VersionSet \<Rightarrow> ColumnFamilyData \<times> VersionSet" where
  "CreateColumnFamily opts e vs =
     (let c = \<lparr>cf_id = column_family e, cf_name = column_family_name e, cf_options = opts,
               cf_log_number = Version_Edit.log_number e, cf_dropped = False, cf_current = replicate (num_levels opts) []\<rparr>
      in (c, UpdateMaxColumnFamily (column_family e) (vs\<lparr>column_family_set := column_family_set vs @ [c]\<rparr>)))"

definition NewFileNumber :: "VersionSet \<Rightarrow> u64 \<times> VersionSet" where
  "NewFileNumber vs = (vs_next_file_number vs, vs\<lparr>vs_next_file_number := vs_next_file_number vs + 1\<rparr>)"

definition MarkFileNumberUsedDuringRecovery :: "u64 \<Rightarrow> VersionSet \<Rightarrow> VersionSet" where
  "MarkFileNumberUsedDuringRecovery n vs =
     (if vs_next_file_number vs \<le> n then vs\<lparr>vs_next_file_number := n + 1\<rparr> else vs)"

section \<open>Recovery\<close>

record Recovery =
  rc_status :: Status
  rc_vs :: VersionSet
  rc_builders :: "u32 \<rightharpoonup> VersionBuilder"
  column_families_not_found :: "(u32 \<times> bytes) list"
  have_log_number :: bool
  have_prev_log_number :: bool
  have_next_file :: bool
  have_last_sequence :: bool
  rc_next_file :: u64
  rc_last_sequence :: u64
  rc_previous_log_number :: u64
  rc_max_column_family :: u32

text \<open>What is taken from every edit that is not refused.\<close>

definition recover_numbers :: "VersionEdit \<Rightarrow> Recovery \<Rightarrow> Recovery" where
  "recover_numbers e rc =
     (let rc = (if has_prev_log_number e then rc\<lparr>rc_previous_log_number := prev_log_number e, have_prev_log_number := True\<rparr> else rc);
          rc = (if has_next_file_number e then rc\<lparr>rc_next_file := next_file_number e, have_next_file := True\<rparr> else rc);
          rc = (if has_max_column_family e then rc\<lparr>rc_max_column_family := max_column_family e\<rparr> else rc)
      in if has_last_sequence e then rc\<lparr>rc_last_sequence := last_sequence e, have_last_sequence := True\<rparr> else rc)"

text \<open>The part of the loop for an edit of an open family.\<close>

definition recover_cfd :: "ColumnFamilyData \<Rightarrow> VersionEdit \<Rightarrow> Recovery \<Rightarrow> Recovery" where
  "recover_cfd c e rc =
     (let rc = (if has_log_number e \<and> \<not> Version_Edit.log_number e < cf_log_number c
                then rc\<lparr>rc_vs := update_cf (cf_id c) (cf_log_number_update (\<lambda>_. Version_Edit.log_number e)) (rc_vs rc),
                        have_log_number := True\<rparr> else rc)
      in if has_comparator e \<and> comparator_name e \<noteq> comparator_Name (cf_options c)
         then rc\<lparr>rc_status := InvalidArgument ''does not match existing comparator ''\<rparr> else recover_numbers e rc)"

text \<open>One record of the manifest, decoded; \<open>None\<close> is an access outside the levels of a version.\<close>

definition Recover_edit :: "(bytes \<rightharpoonup> CFOptions) \<Rightarrow> VersionEdit \<Rightarrow> Recovery \<Rightarrow> Recovery option" where
  "Recover_edit cf_name_to_options e rc =
     (let i = column_family e;
          cf_in_not_found = i \<in> fst ` set (column_families_not_found rc);
          cf_in_builders = rc_builders rc i \<noteq> None
      in if is_column_family_add e then
           if cf_in_builders \<or> cf_in_not_found
           then Some (rc\<lparr>rc_status := Corruption ''Manifest adding the same column family twice''\<rparr>)
           else (case cf_name_to_options (column_family_name e) of
               None \<Rightarrow>
                 Some (recover_numbers e (rc\<lparr>column_families_not_found := (i, column_family_name e) # column_families_not_found rc\<rparr>))
             | Some opts \<Rightarrow>
                 (case CreateColumnFamily opts e (rc_vs rc) of (c, vs) \<Rightarrow>
                    Some (recover_cfd c e (rc\<lparr>rc_vs := vs, rc_builders := (rc_builders rc)(i \<mapsto> new_VersionBuilder (cf_current c))\<rparr>))))
         else if is_column_family_drop e then
           if cf_in_builders
           then Some (recover_numbers e (rc\<lparr>rc_builders := (rc_builders rc)(i := None),
                  rc_vs := (rc_vs rc)\<lparr>column_family_set := filter (\<lambda>c. cf_id c \<noteq> i) (column_family_set (rc_vs rc))\<rparr>\<rparr>))
           else if cf_in_not_found
           then Some (recover_numbers e (rc\<lparr>column_families_not_found := filter (\<lambda>(j, _). j \<noteq> i) (column_families_not_found rc)\<rparr>))
           else Some (rc\<lparr>rc_status := Corruption ''Manifest - dropping non-existing column family''\<rparr>)
         else if \<not> cf_in_not_found then
           (case (rc_builders rc i, GetColumnFamily i (rc_vs rc)) of
              (Some b, Some c) \<Rightarrow>
                if int (length (cf_current c)) \<le> max_level e
                then Some (rc\<lparr>rc_status := InvalidArgument ''db has more levels than options.num_levels''\<rparr>)
                else Option.bind (Apply e b) (\<lambda>b. Some (recover_cfd c e (rc\<lparr>rc_builders := (rc_builders rc)(i \<mapsto> b)\<rparr>)))
            | (Some b, None) \<Rightarrow> None
            | (None, _) \<Rightarrow> Some (rc\<lparr>rc_status := Corruption ''Manifest record referencing unknown column family''\<rparr>))
         else Some (recover_numbers e rc))"

definition Recover_record :: "(bytes \<rightharpoonup> CFOptions) \<Rightarrow> bytes \<Rightarrow> Recovery \<Rightarrow> Recovery option" where
  "Recover_record cf_name_to_options record rc =
     (case DecodeFrom record of (s, e) \<Rightarrow>
        if ok s then Recover_edit cf_name_to_options e rc else Some (rc\<lparr>rc_status := s\<rparr>))"

text \<open>The reporter keeps the first status it is given.\<close>

definition LogReporter :: "(nat \<times> Status) list \<Rightarrow> Status \<Rightarrow> Status" where
  "LogReporter rs s = foldl (\<lambda>s (_, t). if ok s then t else s) s rs"

partial_function (option) Recover_loop :: "(bytes \<rightharpoonup> CFOptions) \<Rightarrow> Reader \<Rightarrow> Recovery \<Rightarrow> Recovery option" where
  "Recover_loop cf_name_to_options r rc =
     Option.bind (ReadRecord kTolerateCorruptedTailRecords r) (\<lambda>(found, record, r').
       let rc = rc\<lparr>rc_status := LogReporter (drop (length (reports r)) (reports r')) (rc_status rc)\<rparr>
       in if found \<and> ok (rc_status rc)
          then Option.bind (Recover_record cf_name_to_options record rc) (\<lambda>rc.
                 if ok (rc_status rc) then Recover_loop cf_name_to_options r' rc else Some rc)
          else Some rc)"

definition Recover_start :: "CFOptions \<Rightarrow> VersionSet \<Rightarrow> Recovery" where
  "Recover_start default_options vs =
     (case CreateColumnFamily default_options (SetColumnFamily 0 (AddColumnFamily kDefaultColumnFamilyName Clear)) vs of (c, vs) \<Rightarrow>
        \<lparr>rc_status = OK, rc_vs = vs, rc_builders = [0 \<mapsto> new_VersionBuilder (cf_current c)], column_families_not_found = [],
         have_log_number = False, have_prev_log_number = False, have_next_file = False, have_last_sequence = False,
         rc_next_file = 0, rc_last_sequence = 0, rc_previous_log_number = 0, rc_max_column_family = 0\<rparr>)"

text \<open>
  The end of \<open>Recover\<close>.  Its local \<open>log_number\<close> is never assigned and stays 0, and the number of the
  next file is set from the manifest whatever was marked as used.
\<close>

definition Recover_finish :: "bool \<Rightarrow> nat \<Rightarrow> Recovery \<Rightarrow> Status \<times> VersionSet" where
  "Recover_finish read_only current_size rc =
     (let (s, vs, prev) =
        (if ok (rc_status rc) then
           (if \<not> have_next_file rc then Corruption ''no meta-nextfile entry in descriptor''
            else if \<not> have_log_number rc then Corruption ''no meta-lognumber entry in descriptor''
            else if \<not> have_last_sequence rc then Corruption ''no last-sequence-number entry in descriptor'' else rc_status rc,
            MarkFileNumberUsedDuringRecovery 0
              (MarkFileNumberUsedDuringRecovery (if have_prev_log_number rc then rc_previous_log_number rc else 0)
                (UpdateMaxColumnFamily (rc_max_column_family rc) (rc_vs rc))),
            if have_prev_log_number rc then rc_previous_log_number rc else 0)
         else (rc_status rc, rc_vs rc, rc_previous_log_number rc));
          s = (if \<not> read_only \<and> column_families_not_found rc \<noteq> [] then InvalidArgument ''You have to open all column families.'' else s)
      in if ok s
         then (s, vs\<lparr>column_family_set := map (\<lambda>c. if cf_dropped c then c
                     else c\<lparr>cf_current := SaveTo (internal_comparator (cf_options c)) (the (rc_builders rc (cf_id c)))\<rparr>) (column_family_set vs),
                manifest_file_size := current_size, vs_next_file_number := rc_next_file rc + 1,
                last_to_be_written_sequence := rc_last_sequence rc, vs_last_sequence := rc_last_sequence rc, vs_prev_log_number := prev\<rparr>)
         else (s, vs))"

text \<open>\<open>None\<close>: the manifest leads to an access outside the levels of a version, or reading it does not end.\<close>

definition Recover :: "(bytes \<rightharpoonup> CFOptions) \<Rightarrow> bool \<Rightarrow> u64 \<Rightarrow> bytes \<Rightarrow> VersionSet \<Rightarrow> (Status \<times> VersionSet) option" where
  "Recover cf_name_to_options read_only manifest_number file vs =
     (let vs = vs\<lparr>manifest_file_number := manifest_number\<rparr>
      in case cf_name_to_options kDefaultColumnFamilyName of
           None \<Rightarrow> Some (InvalidArgument ''Default column family not specified'', vs)
         | Some opts \<Rightarrow>
             map_option (Recover_finish read_only (length file))
               (Recover_loop cf_name_to_options (new_Reader file OK True True 0 0) (Recover_start opts vs)))"

section \<open>Writing the manifest\<close>

text \<open>What the file system answers, and its files: the manifest that \<open>CURRENT\<close> names and the contents of the manifests.\<close>

record ManifestEnv =
  new_file_status :: Status
  new_append_status :: Status
  new_flush_status :: Status
  sync_status :: Status
  current_status :: Status
  max_manifest_file_size :: nat

record Disk =
  CURRENT :: "u64 option"
  manifests :: "u64 \<rightharpoonup> bytes"

record ManifestWriter =
  mw_cfd :: "u32 option"
  edit_list :: "VersionEdit list"

fun write_edits :: "VersionEdit list \<Rightarrow> Writer \<Rightarrow> Status \<times> Writer" where
  "write_edits [] log = (OK, log)"
| "write_edits (e # es) log =
     (case EncodeTo e [] of (valid, record) \<Rightarrow>
        if \<not> valid then (Corruption ''Unable to Encode VersionEdit:'', log)
        else (case AddRecord record log of (s, log) \<Rightarrow> if ok s then write_edits es log else (s, log)))"

definition snapshot_family :: "ColumnFamilyData \<Rightarrow> VersionEdit" where
  "snapshot_family c =
     (let e = (if cf_id c \<noteq> 0 then SetColumnFamily (cf_id c) (AddColumnFamily (cf_name c) Clear) else Clear)
      in SetComparatorName (comparator_Name (cf_options c)) e)"

definition snapshot_files :: "ColumnFamilyData \<Rightarrow> VersionEdit" where
  "snapshot_files c =
     SetLogNumber (cf_log_number c)
       (foldl (\<lambda>e level. foldl (\<lambda>e f. AddFile (int level) (GetNumber (fd f)) (GetPathId (fd f)) (file_size (fd f))
                (smallest f) (largest f) (smallest_seqno f) (largest_seqno f) (marked_for_compaction f) e) e (cf_current c ! level))
          (SetColumnFamily (cf_id c) Clear) [0..<length (cf_current c)])"

definition snapshot_edits :: "VersionSet \<Rightarrow> VersionEdit list" where
  "snapshot_edits vs =
     concat (map (\<lambda>c. [snapshot_family c, snapshot_files c]) (filter (\<lambda>c. \<not> cf_dropped c) (column_family_set vs)))"

definition WriteSnapshot :: "VersionSet \<Rightarrow> Writer \<Rightarrow> Status \<times> Writer" where
  "WriteSnapshot vs log = write_edits (snapshot_edits vs) log"

definition SetCurrentFile :: "ManifestEnv \<Rightarrow> u64 \<Rightarrow> Disk \<Rightarrow> Status \<times> Disk" where
  "SetCurrentFile env n disk = (current_status env, if ok (current_status env) then disk\<lparr>CURRENT := Some n\<rparr> else disk)"

definition NewDB :: "ManifestEnv \<Rightarrow> Disk \<Rightarrow> Status \<times> Disk" where
  "NewDB env disk =
     (if \<not> ok (new_file_status env) then (new_file_status env, disk)
      else
        (let new_db = SetLastSequence 0 (SetNextFile 2 (SetLogNumber 0 Clear));
             (s, log) = AddRecord (snd (EncodeTo new_db [])) (new_Writer (new_append_status env) (new_flush_status env) 0 False False);
             s = (if ok s then sync_status env else s)
         in if ok s then SetCurrentFile env 1 (disk\<lparr>manifests := (manifests disk)(1 \<mapsto> dest log)\<rparr>)
            else (s, disk\<lparr>manifests := (manifests disk)(1 := None)\<rparr>)))"

section \<open>LogAndApply\<close>

definition LogAndApplyCFHelper :: "VersionSet \<Rightarrow> VersionEdit \<Rightarrow> VersionEdit" where
  "LogAndApplyCFHelper vs e =
     (let e = SetLastSequence (vs_last_sequence vs) (SetNextFile (vs_next_file_number vs) e)
      in if is_column_family_drop e then SetMaxColumnFamily (vs_max_column_family vs) e else e)"

definition LogAndApplyHelper :: "VersionSet \<Rightarrow> VersionEdit \<Rightarrow> VersionEdit" where
  "LogAndApplyHelper vs e =
     SetLastSequence (vs_last_sequence vs) (SetNextFile (vs_next_file_number vs)
       (if has_prev_log_number e then e else SetPrevLogNumber (vs_prev_log_number vs) e))"

text \<open>The waiting writers that are committed together with the first one.\<close>

definition group_commit :: "u32 \<Rightarrow> ManifestWriter list \<Rightarrow> ManifestWriter list" where
  "group_commit i ws = takeWhile (\<lambda>w. \<not> IsColumnFamilyManipulation (hd (edit_list w)) \<and> mw_cfd w = Some i) ws"

text \<open>The batch of edits, the version they lead to, and how many waiting writers they come from.\<close>

definition collect_batch :: "ManifestWriter \<Rightarrow> ManifestWriter list \<Rightarrow> VersionSet \<Rightarrow> (VersionEdit list \<times> version \<times> nat) option" where
  "collect_batch w ws vs =
     (if IsColumnFamilyManipulation (hd (edit_list w)) then Some ([LogAndApplyCFHelper vs (hd (edit_list w))], [], 0)
      else
        Option.bind (mw_cfd w) (\<lambda>i. Option.bind (GetColumnFamily i vs) (\<lambda>c.
          let group = group_commit i ws;
              batch = map (LogAndApplyHelper vs) (concat (map edit_list (w # group)))
          in Option.bind (foldM Apply batch (new_VersionBuilder (cf_current c))) (\<lambda>b.
               Some (batch, SaveTo (internal_comparator (cf_options c)) b, length group)))))"

definition create_manifest :: "ManifestEnv \<Rightarrow> u64 \<Rightarrow> VersionSet \<Rightarrow> Disk \<Rightarrow> Status \<times> VersionSet \<times> Disk" where
  "create_manifest env pending vs disk =
     (if \<not> ok (new_file_status env) then (new_file_status env, vs, disk)
      else (case WriteSnapshot vs (new_Writer (new_append_status env) (new_flush_status env) 0 False False) of (s, log) \<Rightarrow>
              (s, vs\<lparr>descriptor_log := Some log\<rparr>, disk\<lparr>manifests := (manifests disk)(pending \<mapsto> dest log)\<rparr>)))"

definition write_batch :: "ManifestEnv \<Rightarrow> u64 \<Rightarrow> VersionEdit list \<Rightarrow> VersionSet \<Rightarrow> Disk \<Rightarrow> (Status \<times> VersionSet \<times> Disk) option" where
  "write_batch env pending batch vs disk =
     Option.bind (descriptor_log vs) (\<lambda>log.
       case write_edits batch log of (s, log) \<Rightarrow>
         Some (if ok s then sync_status env else s, vs\<lparr>descriptor_log := Some log\<rparr>,
               disk\<lparr>manifests := (manifests disk)(pending \<mapsto> dest log)\<rparr>))"

definition max_log_number_in_batch :: "VersionEdit list \<Rightarrow> u64" where
  "max_log_number_in_batch batch = foldl (\<lambda>m e. if has_log_number e then max m (Version_Edit.log_number e) else m) 0 batch"

definition install :: "u32 option \<Rightarrow> CFOptions option \<Rightarrow> VersionEdit list \<Rightarrow> version \<Rightarrow> VersionSet \<Rightarrow> VersionSet option" where
  "install cfd new_cf_options batch v vs =
     (if is_column_family_add (hd batch)
      then map_option (\<lambda>opts. snd (CreateColumnFamily opts (hd batch) vs)) new_cf_options
      else if is_column_family_drop (hd batch)
      then map_option (\<lambda>i. update_cf i (cf_dropped_update (\<lambda>_. True)) vs) cfd
      else map_option (\<lambda>i. update_cf i (\<lambda>c. c\<lparr>cf_log_number := (if max_log_number_in_batch batch \<noteq> 0 then max_log_number_in_batch batch
                                                                       else cf_log_number c), cf_current := v\<rparr>) vs) cfd)"

text \<open>
  Which manifest is written, with which number, and the entries of the batch that depend on it: a new
  manifest is begun when there is none or the old one is too large.
\<close>

definition choose_manifest ::
    "ManifestEnv \<Rightarrow> bool \<Rightarrow> VersionEdit list \<Rightarrow> VersionSet \<Rightarrow> u64 \<times> VersionSet \<times> VersionEdit list \<times> bool" where
  "choose_manifest env new_descriptor_log batch vs =
     (let (pending, vs, batch, new_descriptor_log) =
        (if descriptor_log vs = None \<or> max_manifest_file_size env < manifest_file_size vs
         then (case NewFileNumber vs of (n, vs) \<Rightarrow>
                 (n, vs, butlast batch @ [SetNextFile (vs_next_file_number vs) (last batch)], True))
         else (manifest_file_number vs, vs, batch, new_descriptor_log))
      in (pending, vs,
          if new_descriptor_log \<and> 0 < vs_max_column_family vs
          then SetMaxColumnFamily (vs_max_column_family vs) (hd batch) # tl batch else batch, new_descriptor_log))"

definition write_manifest ::
    "ManifestEnv \<Rightarrow> u64 \<Rightarrow> bool \<Rightarrow> VersionEdit list \<Rightarrow> VersionSet \<Rightarrow> Disk \<Rightarrow> (Status \<times> VersionSet \<times> Disk) option" where
  "write_manifest env pending new_descriptor_log batch vs disk =
     (let (s, vs, disk) = (if new_descriptor_log then create_manifest env pending vs disk else (OK, vs, disk))
      in Option.bind (if ok s then write_batch env pending batch vs disk else Some (s, vs, disk)) (\<lambda>(s, vs, disk).
           let (s, disk) = (if ok s \<and> new_descriptor_log then SetCurrentFile env pending disk else (s, disk))
           in Some (s, vs, disk)))"

text \<open>
  \<open>LogAndApply\<close> of the writer \<open>w\<close> at the head of the queue, with \<open>ws\<close> waiting behind it.  The result
  is the status, which the committed writers get too, and how many of the waiting ones were committed.
\<close>

definition LogAndApply ::
    "ManifestEnv \<Rightarrow> bool \<Rightarrow> CFOptions option \<Rightarrow> ManifestWriter \<Rightarrow> ManifestWriter list \<Rightarrow> VersionSet \<Rightarrow> Disk
     \<Rightarrow> (Status \<times> nat \<times> VersionSet \<times> Disk) option" where
  "LogAndApply env new_descriptor_log new_cf_options w ws vs disk =
     (if edit_list w = [] then Some (OK, 0, vs, disk)
      else if (case mw_cfd w of None \<Rightarrow> False | Some i \<Rightarrow> GetColumnFamily i vs = None) then Some (ShutdownInProgress, 0, vs, disk)
      else
        Option.bind (collect_batch w ws vs) (\<lambda>(batch, v, group).
          case choose_manifest env new_descriptor_log batch vs of (pending, vs, batch, new_descriptor_log) \<Rightarrow>
            Option.bind (write_manifest env pending new_descriptor_log batch vs disk) (\<lambda>(s, vs, disk).
              if ok s then
                Option.bind (install (mw_cfd w) new_cf_options batch v
                    (if new_descriptor_log then vs\<lparr>obsolete_manifests := obsolete_manifests vs @ [manifest_file_number vs]\<rparr> else vs)) (\<lambda>vs.
                  Some (s, group, vs\<lparr>manifest_file_number := pending,
                    manifest_file_size := (case descriptor_log vs of None \<Rightarrow> 0 | Some log \<Rightarrow> length (dest log)),
                    vs_prev_log_number := prev_log_number (hd batch)\<rparr>, disk))
              else if new_descriptor_log
              then Some (s, group, vs\<lparr>descriptor_log := None\<rparr>, disk\<lparr>manifests := (manifests disk)(pending := None)\<rparr>)
              else Some (s, group, vs, disk))))"

section \<open>Recovery replays the edits of the manifest\<close>

abbreviation encoded :: "VersionEdit \<Rightarrow> bytes" where
  "encoded e \<equiv> snd (EncodeTo e [])"

definition encodable :: "VersionEdit \<Rightarrow> bool" where
  "encodable e \<longleftrightarrow> edit_wf e \<and> list_all valid_file (new_files e)"

text \<open>An edit as it is read back.\<close>

definition as_read :: "VersionEdit \<Rightarrow> VersionEdit" where
  "as_read e = e\<lparr>max_level := top_level 0 (map fst (deleted_files e) @ map fst (new_files e))\<rparr>"

text \<open>The edits replayed one after the other, up to the first one that is refused.\<close>

fun replay :: "(bytes \<rightharpoonup> CFOptions) \<Rightarrow> VersionEdit list \<Rightarrow> Recovery \<Rightarrow> Recovery option" where
  "replay opts [] rc = Some rc"
| "replay opts (e # es) rc =
     Option.bind (Recover_edit opts (as_read e) rc) (\<lambda>rc. if ok (rc_status rc) then replay opts es rc else Some rc)"

lemma Recover_record_encoded: "encodable e \<Longrightarrow> Recover_record opts (encoded e) rc = Recover_edit opts (as_read e) rc"
  by (simp add: encodable_def Recover_record_def decode_encoded as_read_def)

lemma Recover_loop_reads:
  assumes "log_reads kTolerateCorruptedTailRecords rs r ds" and "ds = map encoded es" and "list_all encodable es"
    and "reports r = rs" and "ok (rc_status rc)"
  shows "Recover_loop opts r rc = replay opts es rc"
  using assms
proof (induction arbitrary: es rc rule: log_reads.induct)
  case (ends r x r')
  then show ?case
    by (simp add: Recover_loop.simps [of opts r] LogReporter_def)
next
  case (another r d r' ds)
  obtain e es' where es: "es = e # es'" "encodable e" "list_all encodable es'" "d = encoded e" "ds = map encoded es'"
    using another.prems(1,2) by (cases es) auto
  have "Recover_loop opts r rc = Option.bind (Recover_edit opts (as_read e) rc)
      (\<lambda>rc. if ok (rc_status rc) then Recover_loop opts r' rc else Some rc)"
    using another es by (simp add: Recover_loop.simps [of opts r] LogReporter_def Recover_record_encoded)
  also have "\<dots> = replay opts es rc"
    using another.IH [OF es(5,3)] another.hyps(2) by (cases "Recover_edit opts (as_read e) rc") (simp_all add: es(1))
  finally show ?case .
qed

lemma survivors_take: "survivors m w ds = take (length (survivors m w ds)) ds"
  by (induction ds arbitrary: w) (auto simp: Let_def)

definition empty_log :: Writer where
  "empty_log = new_Writer OK OK 0 False False"

abbreviation manifest :: "VersionEdit list \<Rightarrow> bytes" where
  "manifest es \<equiv> dest (written empty_log (map encoded es))"

lemma manifest_reads:
  "log_reads kTolerateCorruptedTailRecords [] (new_Reader (take m (dest (written empty_log ds))) OK True True 0 0) (survivors m empty_log ds)"
proof (rule written_reads)
  show "good_writer empty_log"
    by (simp add: empty_log_def new_Writer_good)
  show "at (take m (dest (written empty_log ds))) (Log_Writer.log_number empty_log) [] (length (dest empty_log))
     (new_Reader (take m (dest (written empty_log ds))) OK True True 0 0)"
    using new_Reader_at by (simp add: empty_log_def new_Writer_def)
qed (simp_all add: empty_log_def new_Writer_def)

lemma Recover_loop_manifest:
  assumes "list_all encodable es" and "ok (rc_status rc)"
  shows "Recover_loop opts (new_Reader (take m (manifest es)) OK True True 0 0) rc =
    replay opts (take (length (survivors m empty_log (map encoded es))) es) rc"
proof (rule Recover_loop_reads [OF manifest_reads])
  show "survivors m empty_log (map encoded es) = map encoded (take (length (survivors m empty_log (map encoded es))) es)"
    using survivors_take [of m empty_log "map encoded es"] by (simp add: take_map)
  show "list_all encodable (take (length (survivors m empty_log (map encoded es))) es)"
    using assms(1) by (auto simp: list_all_iff dest: in_set_takeD)
qed (use assms(2) in \<open>simp_all add: new_Reader_def\<close>)

lemma Recover_start_ok [simp]: "rc_status (Recover_start opts vs) = OK"
  by (simp add: Recover_start_def CreateColumnFamily_def Let_def)

end
