(* ===== verification/Version_Set_Props.thy ===== *)
theory Version_Set_Props
  imports Version_Set
begin

text \<open>
  What the manifest guarantees: everything that \<open>LogAndApply\<close> reported as done is found again by
  \<open>Recover\<close>, and what it reported as failed has changed nothing in memory.
\<close>

section \<open>Edits in the manifest\<close>

lemma AddRecord_status:
  assumes "good_writer log"
  shows "ok (fst (AddRecord d log))"
  using AddRecord_frags [OF assms, of True d] by (auto simp: AddRecord_def)

lemma AddRecord_keeps_good: "good_writer log \<Longrightarrow> good_writer (snd (AddRecord d log))"
  by (rule AddRecord_good [of log d]) simp_all

lemma written_good: "good_writer log \<Longrightarrow> good_writer (written log ds)"
  by (induction ds arbitrary: log) (simp_all add: AddRecord_keeps_good)

lemma written_append: "written log (ds @ ds') = written (written log ds) ds'"
  by (simp add: written_def)

lemma write_edits_encodable:
  assumes "good_writer log" and "list_all encodable es"
  shows "write_edits es log = (OK, written log (map encoded es))"
  using assms
proof (induction es arbitrary: log)
  case (Cons e es)
  have "fst (EncodeTo e [])"
    using Cons.prems(2) by (simp add: encodable_def EncodeTo_eq(1))
  then show ?case
    using Cons AddRecord_status [of log "encoded e"] AddRecord_keeps_good [of log "encoded e"]
    by (simp add: split_def)
qed simp

lemma empty_log_good: "good_writer empty_log"
  by (simp add: empty_log_def new_Writer_good)

text \<open>C11: Recovery from a manifest that a crash cut at any byte \<open>m\<close> replays exactly the edits whose records are complete
  in the file, in the order they were written, with every number, file and family of theirs, and ignores the rest: opening
  the database never fails because the last record is torn.\<close>

theorem manifest_recovery:
  assumes "list_all encodable es" and "cf_name_to_options kDefaultColumnFamilyName = Some opts"
  shows "Recover cf_name_to_options read_only n (take m (manifest es)) vs =
    map_option (Recover_finish read_only (min (length (manifest es)) m))
      (replay cf_name_to_options (take (length (survivors m empty_log (map encoded es))) es) (Recover_start opts (vs\<lparr>manifest_file_number := n\<rparr>)))"
  using assms by (simp add: Recover_def Recover_loop_manifest)

section \<open>Families and builders\<close>

definition live :: "VersionSet \<Rightarrow> ColumnFamilyData list" where
  "live vs = filter (\<lambda>c. \<not> cf_dropped c) (column_family_set vs)"

text \<open>A family before any of its files is replayed.\<close>

definition blank :: "ColumnFamilyData \<Rightarrow> ColumnFamilyData" where
  "blank c = c\<lparr>cf_current := replicate (num_levels (cf_options c)) []\<rparr>"

definition tracks :: "ColumnFamilyData \<Rightarrow> VersionBuilder \<Rightarrow> bool" where
  "tracks c b \<longleftrightarrow> builder_inv (internal_comparator (cf_options c)) b \<and> base_vstorage b = replicate (num_levels (cf_options c)) []
     \<and> (\<forall>l<num_levels (cf_options c). content b l = set (cf_current c ! l))"

text \<open>The state of a recovery that has seen the families \<open>cs\<close> with their files.\<close>

definition represents :: "ColumnFamilyData list \<Rightarrow> Recovery \<Rightarrow> bool" where
  "represents cs rc \<longleftrightarrow> rc_status rc = OK \<and> column_families_not_found rc = [] \<and> column_family_set (rc_vs rc) = map blank cs
     \<and> dom (rc_builders rc) = cf_id ` set cs \<and> (\<forall>c\<in>set cs. \<exists>b. rc_builders rc (cf_id c) = Some b \<and> tracks c b)"

definition family_ok :: "(bytes \<rightharpoonup> CFOptions) \<Rightarrow> ColumnFamilyData \<Rightarrow> bool" where
  "family_ok opts c \<longleftrightarrow> \<not> cf_dropped c \<and> opts (cf_name c) = Some (cf_options c) \<and> short (cf_name c) \<and> short (comparator_Name (cf_options c))
     \<and> internal_comparator (cf_options c) \<in> builtin_comparators \<and> 0 < num_levels (cf_options c) \<and> length (cf_current c) = num_levels (cf_options c)
     \<and> version_ok (internal_comparator (cf_options c)) (cf_current c)
     \<and> (\<forall>l<length (cf_current c). \<forall>f\<in>set (cf_current c ! l). file_wf (int l, f) \<and> valid_file (int l, f))"

definition families_ok :: "(bytes \<rightharpoonup> CFOptions) \<Rightarrow> ColumnFamilyData list \<Rightarrow> bool" where
  "families_ok opts cs \<longleftrightarrow> distinct (map cf_id cs) \<and> (\<forall>c\<in>set cs. family_ok opts c)"

lemma recover_numbers_keeps [simp]:
  "rc_status (recover_numbers e rc) = rc_status rc" "column_families_not_found (recover_numbers e rc) = column_families_not_found rc"
  "rc_vs (recover_numbers e rc) = rc_vs rc" "rc_builders (recover_numbers e rc) = rc_builders rc"
  "have_log_number (recover_numbers e rc) = have_log_number rc"
  by (simp_all add: recover_numbers_def Let_def)

text \<open>What an edit does to a family when it is replayed.\<close>

definition edit_family :: "VersionEdit \<Rightarrow> ColumnFamilyData \<Rightarrow> ColumnFamilyData" where
  "edit_family e c = c\<lparr>cf_log_number := (if has_log_number e \<and> \<not> Version_Edit.log_number e < cf_log_number c
       then Version_Edit.log_number e else cf_log_number c),
     cf_current := the (apply_edit (internal_comparator (cf_options c)) e (cf_current c))\<rparr>"

definition file_edit :: "ColumnFamilyData \<Rightarrow> VersionEdit \<Rightarrow> bool" where
  "file_edit c e \<longleftrightarrow> column_family e = cf_id c \<and> \<not> IsColumnFamilyManipulation e \<and> edit_fits (cf_current c) e
     \<and> (has_comparator e \<longrightarrow> comparator_name e = comparator_Name (cf_options c))"

lemma top_level_bound: "0 \<le> a \<Longrightarrow> a < n \<Longrightarrow> list_all (\<lambda>l. l < n) ls \<Longrightarrow> top_level a ls < n"
  by (induction ls arbitrary: a) auto

lemma as_read_simps [simp]:
  "column_family (as_read e) = column_family e" "is_column_family_add (as_read e) = is_column_family_add e"
  "is_column_family_drop (as_read e) = is_column_family_drop e" "column_family_name (as_read e) = column_family_name e"
  "has_log_number (as_read e) = has_log_number e" "Version_Edit.log_number (as_read e) = Version_Edit.log_number e"
  "has_comparator (as_read e) = has_comparator e" "comparator_name (as_read e) = comparator_name e"
  "deleted_files (as_read e) = deleted_files e" "new_files (as_read e) = new_files e"
  by (simp_all add: as_read_def)

lemma recover_numbers_as_read [simp]: "recover_numbers (as_read e) rc = recover_numbers e rc"
  by (simp add: recover_numbers_def as_read_def)

lemma Apply_as_read [simp]: "Apply (as_read e) b = Apply e b"
  by (simp add: Apply_def)

lemma find_blank:
  assumes "c \<in> set cs" and "distinct (map cf_id cs)" and "\<forall>c\<in>set cs. \<not> cf_dropped c"
  shows "find (\<lambda>x. cf_id x = cf_id c \<and> \<not> cf_dropped x) (map blank cs) = Some (blank c)"
  using assms by (induction cs) (auto simp: blank_def)

text \<open>The numbers that a recovery keeps.\<close>

definition numbers :: "Recovery \<Rightarrow> bool \<times> u64 \<times> bool \<times> u64" where
  "numbers rc = (have_next_file rc, rc_next_file rc, have_last_sequence rc, rc_last_sequence rc)"

lemma numbers_simps [simp]:
  "numbers (rc\<lparr>rc_vs := x\<rparr>) = numbers rc" "numbers (rc\<lparr>rc_builders := y\<rparr>) = numbers rc" "numbers (rc\<lparr>have_log_number := z\<rparr>) = numbers rc"
  "numbers (recover_numbers e rc) = (if has_next_file_number e then True else have_next_file rc,
     if has_next_file_number e then next_file_number e else rc_next_file rc, if has_last_sequence e then True else have_last_sequence rc,
     if has_last_sequence e then last_sequence e else rc_last_sequence rc)"
  by (simp_all add: numbers_def recover_numbers_def Let_def)

lemma tracks_edit:
  assumes "family_ok opts c" and "tracks c b" and "edit_fits (cf_current c) e"
  obtains b' where "Apply e b = Some b'" and "tracks (edit_family e c) b'"
proof -
  let ?icmp = "internal_comparator (cf_options c)" and ?n = "num_levels (cf_options c)"
  have c: "?icmp \<in> builtin_comparators" "length (cf_current c) = ?n" "version_ok ?icmp (cf_current c)"
    using assms(1) by (simp_all add: family_ok_def)
  have b: "builder_inv ?icmp b" "base_vstorage b = replicate ?n []" "\<And>l. l < ?n \<Longrightarrow> content b l = set (cf_current c ! l)"
    using assms(2) by (simp_all add: tracks_def)
  have fresh: "fresh_in (base_vstorage b) e"
    using assms(3) b(2) c(2) by (auto simp: fresh_in_def edit_fits_def list_all_iff)
  obtain b' where b': "Apply e b = Some b'" "builder_inv ?icmp b'" "base_vstorage b' = base_vstorage b"
    "\<And>l. l < length (base_vstorage b) \<Longrightarrow> content b' l = edited e l (content b l)"
    by (rule Apply_content [OF b(1) assms(3) fresh]) (use b c in \<open>simp_all add: that\<close>)
  obtain v where v: "apply_edit ?icmp e (cf_current c) = Some v"
    "\<And>l. l < ?n \<Longrightarrow> set (v ! l) = edited e l (set (cf_current c ! l))"
    by (rule apply_edit_content [OF c(1,3) assms(3)]) (use c in \<open>simp_all add: that\<close>)
  show ?thesis
    by (rule that [OF b'(1)]) (use b b' v in \<open>simp add: tracks_def edit_family_def\<close>)
qed

lemma same_family: "families_ok opts cs \<Longrightarrow> c \<in> set cs \<Longrightarrow> x \<in> set cs \<Longrightarrow> cf_id x = cf_id c \<Longrightarrow> x = c"
  by (auto simp: families_ok_def distinct_map inj_on_def)

text \<open>The families after an edit of one of them.\<close>

abbreviation edit_families :: "VersionEdit \<Rightarrow> u32 \<Rightarrow> ColumnFamilyData list \<Rightarrow> ColumnFamilyData list" where
  "edit_families e i cs \<equiv> map (\<lambda>x. if cf_id x = i then edit_family e x else x) cs"

lemma edit_family_id [simp]: "cf_id (edit_family e c) = cf_id c" "cf_options (edit_family e c) = cf_options c"
  "cf_dropped (edit_family e c) = cf_dropped c" "cf_name (edit_family e c) = cf_name c"
  by (simp_all add: edit_family_def)

lemma edit_families_ids: "map cf_id (edit_families e i cs) = map cf_id cs" "cf_id ` set (edit_families e i cs) = cf_id ` set cs"
proof -
  show ids: "map cf_id (edit_families e i cs) = map cf_id cs"
    by simp
  show "cf_id ` set (edit_families e i cs) = cf_id ` set cs"
    using arg_cong [OF ids, of set] by (simp only: set_map)
qed

lemma Recover_edit_files:
  assumes "families_ok opts cs" and "represents cs rc" and "c \<in> set cs" and "file_edit c e"
  obtains rc' where "Recover_edit opts' (as_read e) rc = Some rc'" and "represents (edit_families e (cf_id c) cs) rc'"
    and "have_log_number rc \<or> has_log_number e \<and> \<not> Version_Edit.log_number e < cf_log_number c \<Longrightarrow> have_log_number rc'"
    and "numbers rc' = numbers (recover_numbers e rc)"
proof -
  have ok: "family_ok opts c" "distinct (map cf_id cs)" "\<forall>c\<in>set cs. \<not> cf_dropped c"
    using assms(1,3) by (auto simp: families_ok_def family_ok_def)
  obtain b where b: "rc_builders rc (cf_id c) = Some b" "tracks c b"
    using assms(2,3) by (auto simp: represents_def)
  have e: "column_family e = cf_id c" "\<not> is_column_family_add e" "\<not> is_column_family_drop e" "edit_fits (cf_current c) e"
    "\<not> (has_comparator e \<and> comparator_name e \<noteq> comparator_Name (cf_options c))"
    using assms(4) by (auto simp: file_edit_def IsColumnFamilyManipulation_def)
  obtain b' where b': "Apply e b = Some b'" "tracks (edit_family e c) b'"
    by (rule tracks_edit [OF ok(1) b(2) e(4)]) (rule that)
  have fits: "list_all (\<lambda>l. l < int (num_levels (cf_options c))) (map fst (deleted_files e) @ map fst (new_files e))"
    using e(4) ok(1) by (auto simp: edit_fits_def list_all_iff family_ok_def)
  have level: "\<not> int (length (cf_current (blank c))) \<le> max_level (as_read e)"
    using top_level_bound [OF _ _ fits, of 0] ok(1) by (simp add: as_read_def blank_def family_ok_def)
  have found: "GetColumnFamily (cf_id c) (rc_vs rc) = Some (blank c)"
    using assms(2,3) find_blank [OF assms(3) ok(2,3)] by (simp add: GetColumnFamily_def represents_def)
  let ?rc = "recover_cfd (blank c) (as_read e) (rc\<lparr>rc_builders := (rc_builders rc)(cf_id c \<mapsto> b')\<rparr>)"
  have step: "Recover_edit opts' (as_read e) rc = Some ?rc"
    using assms(2) e b b' level found by (simp add: Recover_edit_def represents_def)
  have set: "column_family_set (rc_vs ?rc) = map blank (edit_families e (cf_id c) cs)"
  proof -
    have "\<not> cf_dropped c" "\<And>x. x \<in> set cs \<Longrightarrow> cf_id x = cf_id c \<Longrightarrow> x = c"
      using ok(1) same_family [OF assms(1,3)] by (auto simp: family_ok_def)
    moreover have "column_family_set (rc_vs rc) = map blank cs"
      using assms(2) by (simp add: represents_def)
    ultimately show ?thesis
      using e(5) by (auto simp: recover_cfd_def update_cf_def blank_def edit_family_def Let_def)
  qed
  have rest: "rc_status ?rc = OK" "column_families_not_found ?rc = []" "rc_builders ?rc = (rc_builders rc)(cf_id c \<mapsto> b')"
    using assms(2) e(5) by (auto simp: recover_cfd_def Let_def blank_def represents_def)
  have "\<exists>b. rc_builders ?rc (cf_id y) = Some b \<and> tracks y b" if y: "y \<in> set (edit_families e (cf_id c) cs)" for y
  proof -
    obtain x where x: "x \<in> set cs" "y = (if cf_id x = cf_id c then edit_family e x else x)"
      using y by auto
    show ?thesis
    proof (cases "cf_id x = cf_id c")
      case True
      then show ?thesis
        using x b'(2) rest(3) same_family [OF assms(1,3) x(1)] by simp
    next
      case False
      then show ?thesis
        using x rest(3) assms(2) by (simp add: represents_def)
    qed
  qed
  moreover have "dom (rc_builders ?rc) = cf_id ` set (edit_families e (cf_id c) cs)"
    unfolding rest(3) edit_families_ids using assms(2,3) by (auto simp: represents_def)
  ultimately have "represents (edit_families e (cf_id c) cs) ?rc"
    unfolding represents_def set using rest(1,2) by blast
  moreover have "have_log_number rc \<or> has_log_number e \<and> \<not> Version_Edit.log_number e < cf_log_number c \<Longrightarrow> have_log_number ?rc"
    using e(5) by (auto simp: recover_cfd_def Let_def blank_def)
  moreover have "numbers ?rc = numbers (recover_numbers e rc)"
    using e(5) by (auto simp: recover_cfd_def Let_def blank_def)
  ultimately show ?thesis
    using that step by blast
qed

lemma edit_family_ok:
  assumes "family_ok opts c" and "edit_fits (cf_current c) e" and "encodable e"
  shows "family_ok opts (edit_family e c)"
proof -
  let ?icmp = "internal_comparator (cf_options c)" and ?n = "length (cf_current c)"
  have c: "?icmp \<in> builtin_comparators" "version_ok ?icmp (cf_current c)"
    using assms(1) by (simp_all add: family_ok_def)
  obtain v where v: "apply_edit ?icmp e (cf_current c) = Some v" "version_ok ?icmp v" "length v = ?n"
    "\<And>l. l < ?n \<Longrightarrow> set (v ! l) = edited e l (set (cf_current c ! l))"
    by (rule apply_edit_content [OF c assms(2)]) (rule that)
  have "file_wf (int l, f) \<and> valid_file (int l, f)" if l: "l < ?n" and f: "f \<in> set (v ! l)" for l f
  proof (cases "(int l, f) \<in> set (new_files e)")
    case True
    then show ?thesis
      using assms(3) by (simp add: encodable_def edit_wf_def list_all_iff)
  next
    case False
    then show ?thesis
      using v(4) [OF l] f assms(1) l by (simp add: edited_def family_ok_def)
  qed
  then show ?thesis
    using v assms(1) by (simp add: family_ok_def edit_family_def)
qed

lemma edit_families_ok:
  assumes "families_ok opts cs" and "c \<in> set cs" and "edit_fits (cf_current c) e" and "encodable e"
  shows "families_ok opts (edit_families e (cf_id c) cs)"
proof -
  have "family_ok opts (if cf_id x = cf_id c then edit_family e x else x)" if "x \<in> set cs" for x
    using that same_family [OF assms(1,2) that] assms edit_family_ok by (auto simp: families_ok_def)
  then have "\<forall>y\<in>set (edit_families e (cf_id c) cs). family_ok opts y"
    unfolding set_map by blast
  then show ?thesis
    using assms(1) unfolding families_ok_def edit_families_ids by blast
qed

section \<open>A snapshot is replayed\<close>

definition level_files :: "version \<Rightarrow> (int \<times> FileMetaData) list" where
  "level_files v = concat (map (\<lambda>l. map (Pair (int l)) (v ! l)) [0..<length v])"

lemma in_level_files: "(l, f) \<in> set (level_files v) \<longleftrightarrow> (\<exists>k<length v. l = int k \<and> f \<in> set (v ! k))"
  by (auto simp: level_files_def)

lemma AddFile_again:
  "AddFile l (GetNumber (fd f)) (GetPathId (fd f)) (file_size (fd f)) (smallest f) (largest f) (smallest_seqno f) (largest_seqno f)
     (marked_for_compaction f) e = e\<lparr>new_files := new_files e @ [(l, f)]\<rparr>" for f :: FileMetaData
proof -
  have "new_FileMetaData\<lparr>fd := fd f, smallest := smallest f, largest := largest f, smallest_seqno := smallest_seqno f,
      largest_seqno := largest_seqno f, marked_for_compaction := marked_for_compaction f\<rparr> = f"
    by (rule FileMetaData.equality) simp_all
  then show ?thesis
    by (simp add: AddFile_def)
qed

lemma AddFiles_again:
  "foldl (\<lambda>e f. AddFile l (GetNumber (fd f)) (GetPathId (fd f)) (file_size (fd f)) (smallest f) (largest f) (smallest_seqno f) (largest_seqno f)
     (marked_for_compaction f) e) e fs = e\<lparr>new_files := new_files e @ map (Pair l) fs\<rparr>" for fs :: "FileMetaData list"
  by (induction fs arbitrary: e) (simp_all add: AddFile_again)

lemma snapshot_files_eq:
  "snapshot_files c = SetLogNumber (cf_log_number c) ((SetColumnFamily (cf_id c) Clear)\<lparr>new_files := level_files (cf_current c)\<rparr>)"
proof -
  have "foldl (\<lambda>e level. e\<lparr>new_files := new_files e @ map (Pair (int level)) (v ! level)\<rparr>) e ls
      = e\<lparr>new_files := new_files e @ concat (map (\<lambda>l. map (Pair (int l)) (v ! l)) ls)\<rparr>" for e :: VersionEdit and ls and v :: version
    by (induction ls arbitrary: e) simp_all
  then show ?thesis
    by (simp add: snapshot_files_def AddFiles_again level_files_def SetColumnFamily_def Clear_def)
qed

lemma snapshot_files_simps [simp]:
  "new_files (snapshot_files c) = level_files (cf_current c)" "deleted_files (snapshot_files c) = []"
  "column_family (snapshot_files c) = cf_id c" "has_log_number (snapshot_files c)" "\<not> has_comparator (snapshot_files c)"
  "Version_Edit.log_number (snapshot_files c) = cf_log_number c" "\<not> IsColumnFamilyManipulation (snapshot_files c)"
  by (simp_all add: snapshot_files_eq SetLogNumber_def SetColumnFamily_def Clear_def IsColumnFamilyManipulation_def)

lemma level_files_distinct:
  assumes "\<forall>l<length v. distinct (map file_number (v ! l))"
  shows "distinct (map (\<lambda>(l, f). (l, file_number f)) (level_files v))"
proof -
  have "distinct (map (\<lambda>(l, f). (l, file_number f)) (concat (map (\<lambda>l. map (Pair (int l)) (v ! l)) [0..<n])))" if "n \<le> length v" for n
    using that
  proof (induction n)
    case (Suc n)
    have "distinct (map (\<lambda>f. (int n, file_number f)) (v ! n))"
      using assms [rule_format, of n] Suc.prems by (simp add: distinct_map inj_on_def)
    then show ?case
      using Suc by (auto simp: comp_def)
  qed simp
  then show ?thesis
    by (simp add: level_files_def)
qed

lemma InternalKey_Valid_length: "InternalKey_Valid k \<Longrightarrow> 8 \<le> length k"
  by (auto simp: InternalKey_Valid_def ParseInternalKey_def Let_def split: if_splits)

lemma snapshot_files_fit:
  assumes "family_ok opts c"
  shows "edit_fits (cf_current (blank c)) (snapshot_files c)" and "encodable (snapshot_files c)"
proof -
  have c: "length (cf_current c) = num_levels (cf_options c)" "\<forall>l<length (cf_current c). distinct (map file_number (cf_current c ! l))"
    "\<forall>l<length (cf_current c). \<forall>f\<in>set (cf_current c ! l). file_wf (int l, f) \<and> valid_file (int l, f)"
    using assms by (auto simp: family_ok_def version_ok_def ordered_level_def)
  have files: "list_all (\<lambda>(l, f). 0 \<le> l \<and> nat l < length (cf_current c) \<and> file_wf (l, f) \<and> valid_file (l, f) \<and> key_file f) (level_files (cf_current c))"
    using c(3) by (auto simp: list_all_iff in_level_files key_file_def valid_file_def InternalKey_Valid_length)
  then show "edit_fits (cf_current (blank c)) (snapshot_files c)"
    using c(1) level_files_distinct [OF c(2)] by (auto simp: edit_fits_def blank_def list_all_iff)
  show "encodable (snapshot_files c)"
    using files by (auto simp: encodable_def edit_wf_def list_all_iff snapshot_files_eq SetLogNumber_def SetColumnFamily_def Clear_def short_def)
qed

text \<open>A family as it is created.\<close>

definition fresh :: "ColumnFamilyData \<Rightarrow> ColumnFamilyData" where
  "fresh c = (blank c)\<lparr>cf_log_number := 0\<rparr>"

lemma fresh_simps [simp]: "cf_id (fresh c) = cf_id c" "cf_options (fresh c) = cf_options c" "cf_log_number (fresh c) = 0"
  "cf_current (fresh c) = replicate (num_levels (cf_options c)) []" "cf_dropped (fresh c) = cf_dropped c" "cf_name (fresh c) = cf_name c"
  by (simp_all add: fresh_def blank_def)

lemma snapshot_family_simps [simp]:
  "new_files (snapshot_family c) = []" "deleted_files (snapshot_family c) = []" "column_family (snapshot_family c) = cf_id c"
  "\<not> has_log_number (snapshot_family c)" "Version_Edit.log_number (snapshot_family c) = 0" "has_comparator (snapshot_family c)"
  "comparator_name (snapshot_family c) = comparator_Name (cf_options c)" "is_column_family_add (snapshot_family c) = (cf_id c \<noteq> 0)"
  "\<not> is_column_family_drop (snapshot_family c)" "column_family_name (snapshot_family c) = (if cf_id c \<noteq> 0 then cf_name c else [])"
  by (simp_all add: snapshot_family_def SetComparatorName_def SetColumnFamily_def AddColumnFamily_def Clear_def)

lemma snapshot_family_encodable: "family_ok opts c \<Longrightarrow> encodable (snapshot_family c)"
  by (simp add: encodable_def edit_wf_def snapshot_family_def SetComparatorName_def SetColumnFamily_def AddColumnFamily_def Clear_def
      family_ok_def short_def)

lemma empty_version_ok: "version_ok icmp (replicate n [])"
  by (simp add: version_ok_def ordered_level_def)

lemma fresh_ok: "family_ok opts c \<Longrightarrow> family_ok opts (fresh c)"
  by (simp add: family_ok_def empty_version_ok)

lemma apply_edit_unique:
  assumes "icmp \<in> builtin_comparators" and "version_ok icmp v" and "edit_fits v e" and "version_ok icmp v'" and "length v' = length v"
    and "\<And>l. l < length v \<Longrightarrow> set (v' ! l) = edited e l (set (v ! l))"
  shows "apply_edit icmp e v = Some v'"
proof -
  obtain v1 where v1: "apply_edit icmp e v = Some v1" "version_ok icmp v1" "length v1 = length v"
    "\<And>l. l < length v \<Longrightarrow> set (v1 ! l) = edited e l (set (v ! l))"
    by (rule apply_edit_content [OF assms(1-3)]) (rule that)
  moreover have "v1 = v'"
    by (rule versions_equal [OF assms(1) v1(2) assms(4)]) (use v1 assms in simp_all)
  ultimately show ?thesis
    by simp
qed

lemma edit_family_snapshot:
  assumes "family_ok opts c"
  shows "edit_family (snapshot_family c) (fresh c) = fresh c" and "edit_family (snapshot_files c) (fresh c) = c"
proof -
  let ?icmp = "internal_comparator (cf_options c)"
  have c: "?icmp \<in> builtin_comparators" "version_ok ?icmp (cf_current c)" "length (cf_current c) = num_levels (cf_options c)"
    using assms by (simp_all add: family_ok_def)
  have "apply_edit ?icmp (snapshot_family c) (replicate (num_levels (cf_options c)) []) = Some (replicate (num_levels (cf_options c)) [])"
    by (rule apply_edit_unique [OF c(1) empty_version_ok _ empty_version_ok]) (simp_all add: edit_fits_def edited_def)
  then show "edit_family (snapshot_family c) (fresh c) = fresh c"
    by (simp add: edit_family_def fresh_def blank_def)
  have "apply_edit ?icmp (snapshot_files c) (replicate (num_levels (cf_options c)) []) = Some (cf_current c)"
    by (rule apply_edit_unique [OF c(1) empty_version_ok _ c(2)])
      (use snapshot_files_fit(1) [OF assms] c(3) in \<open>auto simp: edited_def blank_def in_level_files\<close>)
  then show "edit_family (snapshot_files c) (fresh c) = c"
    by (simp add: edit_family_def fresh_def blank_def)
qed

lemma snapshot_file_edits:
  assumes "family_ok opts c"
  shows "file_edit (fresh c) (snapshot_files c)" and "cf_id c = 0 \<Longrightarrow> file_edit (fresh c) (snapshot_family c)"
  using snapshot_files_fit(1) [OF assms] by (simp_all add: file_edit_def blank_def)
    (simp add: IsColumnFamilyManipulation_def edit_fits_def)

text \<open>The family that an edit adds.\<close>

definition created :: "CFOptions \<Rightarrow> VersionEdit \<Rightarrow> ColumnFamilyData" where
  "created opt e = \<lparr>cf_id = column_family e, cf_name = column_family_name e, cf_options = opt, cf_log_number = Version_Edit.log_number e,
     cf_dropped = False, cf_current = replicate (num_levels opt) []\<rparr>"

lemma CreateColumnFamily_eq:
  "CreateColumnFamily opt e vs = (created opt e, UpdateMaxColumnFamily (column_family e) (vs\<lparr>column_family_set := column_family_set vs @ [created opt e]\<rparr>))"
  by (simp add: CreateColumnFamily_def created_def Let_def)

lemma tracks_new: "tracks (created opt e) (new_VersionBuilder (replicate (num_levels opt) []))"
  using new_VersionBuilder_inv [OF empty_version_ok [of "internal_comparator opt" "num_levels opt"]]
  by (simp add: tracks_def created_def new_VersionBuilder_def)

lemma Recover_edit_add:
  assumes "represents cs rc" and "is_column_family_add e" and "opts (column_family_name e) = Some opt" and "column_family e \<notin> cf_id ` set cs"
    and "has_comparator e \<Longrightarrow> comparator_name e = comparator_Name opt"
  obtains rc' where "Recover_edit opts (as_read e) rc = Some rc'" and "represents (cs @ [created opt e]) rc'"
    and "have_log_number rc' = (have_log_number rc \<or> has_log_number e)" and "numbers rc' = numbers (recover_numbers e rc)"
proof -
  let ?vs = "UpdateMaxColumnFamily (column_family e) ((rc_vs rc)\<lparr>column_family_set := column_family_set (rc_vs rc) @ [created opt e]\<rparr>)"
  let ?b = "new_VersionBuilder (replicate (num_levels opt) [])"
  let ?rc = "recover_cfd (created opt e) (as_read e) (rc\<lparr>rc_vs := ?vs, rc_builders := (rc_builders rc)(column_family e \<mapsto> ?b)\<rparr>)"
  have new: "rc_builders rc (column_family e) = None"
    using assms(1,4) by (auto simp: represents_def dom_def)
  have "CreateColumnFamily opt (as_read e) (rc_vs rc) = (created opt e, ?vs)"
    by (simp add: CreateColumnFamily_eq created_def)
  then have "Recover_edit opts (as_read e) rc = Some ?rc"
    using assms(1-4) new by (simp add: Recover_edit_def represents_def Let_def created_def)
  moreover have cmp: "\<not> (has_comparator e \<and> comparator_name e \<noteq> comparator_Name (cf_options (created opt e)))"
    using assms(5) by (auto simp: created_def)
  have set: "column_family_set (rc_vs ?rc) = map blank (cs @ [created opt e])"
  proof -
    have "column_family_set (rc_vs rc) = map blank cs" "blank (created opt e) = created opt e"
      using assms(1) by (simp_all add: represents_def blank_def created_def)
    moreover have "cf_id x \<noteq> cf_id (created opt e)" if "x \<in> set (map blank cs)" for x
      using that assms(4) by (fastforce simp: blank_def created_def image_iff)
    ultimately show ?thesis
      using cmp by (auto simp: recover_cfd_def Let_def update_cf_def UpdateMaxColumnFamily_def) (auto simp: created_def intro!: map_idI)
  qed
  have rest: "rc_status ?rc = OK" "column_families_not_found ?rc = []" "rc_builders ?rc = (rc_builders rc)(column_family e \<mapsto> ?b)"
    using assms(1) cmp by (auto simp: recover_cfd_def Let_def represents_def)
  have "cf_id c \<noteq> column_family e" if "c \<in> set cs" for c
    using that assms(4) by (metis imageI)
  then have "represents (cs @ [created opt e]) ?rc"
    unfolding represents_def set rest using assms(1) tracks_new [of opt e] by (auto simp: represents_def created_def)
  moreover have "have_log_number ?rc = (have_log_number rc \<or> has_log_number e)" "numbers ?rc = numbers (recover_numbers e rc)"
    using cmp by (auto simp: recover_cfd_def Let_def created_def)
  ultimately show ?thesis
    using that by blast
qed

lemma created_snapshot:
  assumes "family_ok opts c" and "cf_id c \<noteq> 0"
  shows "created (cf_options c) (snapshot_family c) = fresh c"
  using assms by (simp add: created_def fresh_def blank_def family_ok_def)

lemma replay_family:
  assumes "families_ok opts (cs @ [c])" and "represents cs rc" and "cf_id c \<noteq> 0"
  obtains rc' where "replay opts [snapshot_family c, snapshot_files c] rc = Some rc'" and "represents (cs @ [c]) rc'" and "have_log_number rc'"
proof -
  have c: "family_ok opts c" "opts (cf_name c) = Some (cf_options c)" "cf_id c \<notin> cf_id ` set cs"
    using assms(1) by (auto simp: families_ok_def family_ok_def)
  then have other: "cf_id x \<noteq> cf_id c" if "x \<in> set cs" for x
    using that by (metis imageI)
  obtain rc1 where rc1: "Recover_edit opts (as_read (snapshot_family c)) rc = Some rc1" "represents (cs @ [fresh c]) rc1"
    by (rule Recover_edit_add [OF assms(2), of "snapshot_family c" opts "cf_options c"])
      (use assms(3) c created_snapshot [OF c(1) assms(3)] in \<open>simp_all add: that\<close>)
  have ok: "families_ok opts (cs @ [fresh c])" "fresh c \<in> set (cs @ [fresh c])"
    using assms(1) fresh_ok by (auto simp: families_ok_def)
  obtain rc2 where rc2: "Recover_edit opts (as_read (snapshot_files c)) rc1 = Some rc2"
    "represents (edit_families (snapshot_files c) (cf_id (fresh c)) (cs @ [fresh c])) rc2" "have_log_number rc2"
    by (rule Recover_edit_files [OF ok(1) rc1(2) ok(2) snapshot_file_edits(1) [OF c(1)], of opts]) (simp add: that)
  have "edit_families (snapshot_files c) (cf_id (fresh c)) (cs @ [fresh c]) = cs @ [c]"
    using other edit_family_snapshot(2) [OF c(1)] by (auto intro!: map_idI)
  then show ?thesis
    using that [of rc2] rc1 rc2 by (simp add: represents_def)
qed

lemma replay_append: "replay opts (es @ es') rc = Option.bind (replay opts es rc) (\<lambda>rc. if ok (rc_status rc) then replay opts es' rc else Some rc)"
  if "ok (rc_status rc)"
  using that
proof (induction es arbitrary: rc)
  case (Cons e es)
  then show ?case
    by (cases "Recover_edit opts (as_read e) rc") auto
qed simp

lemma replay_families:
  assumes "families_ok opts (cs @ ds)" and "represents cs rc" and "\<forall>c\<in>set ds. cf_id c \<noteq> 0" and "have_log_number rc"
  obtains rc' where "replay opts (concat (map (\<lambda>c. [snapshot_family c, snapshot_files c]) ds)) rc = Some rc'"
    and "represents (cs @ ds) rc'" and "have_log_number rc'"
  using assms
proof (induction ds arbitrary: cs rc thesis)
  case (Cons d ds)
  have ok: "families_ok opts (cs @ [d])" "families_ok opts ((cs @ [d]) @ ds)" "cf_id d \<noteq> 0"
    using Cons.prems(2,4) by (auto simp: families_ok_def)
  obtain rc1 where rc1: "replay opts [snapshot_family d, snapshot_files d] rc = Some rc1" "represents (cs @ [d]) rc1" "have_log_number rc1"
    by (rule replay_family [OF ok(1) Cons.prems(3) ok(3)]) (rule that)
  obtain rc' where rc': "replay opts (concat (map (\<lambda>c. [snapshot_family c, snapshot_files c]) ds)) rc1 = Some rc'"
    "represents ((cs @ [d]) @ ds) rc'" "have_log_number rc'"
    by (rule Cons.IH [OF _ ok(2) rc1(2) _ rc1(3)]) (use Cons.prems(4) in \<open>simp_all add: that\<close>)
  have "ok (rc_status rc)" "ok (rc_status rc1)"
    using Cons.prems(3) rc1(2) by (simp_all add: represents_def)
  then have "replay opts (concat (map (\<lambda>c. [snapshot_family c, snapshot_files c]) (d # ds))) rc = Some rc'"
    using rc1(1) rc'(1) replay_append [of rc opts "[snapshot_family d, snapshot_files d]"] by simp
  then show ?case
    using Cons.prems(1) [of rc'] rc'(2,3) by simp
qed simp

lemma Recover_start_represents:
  assumes "column_family_set vs = []" and "family_ok opts c" and "cf_id c = 0" and "cf_name c = kDefaultColumnFamilyName"
  shows "represents [fresh c] (Recover_start (cf_options c) vs)"
proof -
  let ?e = "SetColumnFamily 0 (AddColumnFamily kDefaultColumnFamilyName Clear)"
  have "created (cf_options c) ?e = fresh c"
    using assms by (simp add: created_def fresh_def blank_def SetColumnFamily_def AddColumnFamily_def Clear_def family_ok_def)
  then show ?thesis
    using assms(1,3) tracks_new [of "cf_options c" ?e]
    by (simp add: represents_def Recover_start_def CreateColumnFamily_eq UpdateMaxColumnFamily_def) (simp add: fresh_def blank_def)
qed

text \<open>The families of a database: the default family comes first.\<close>

definition db_ok :: "(bytes \<rightharpoonup> CFOptions) \<Rightarrow> ColumnFamilyData list \<Rightarrow> bool" where
  "db_ok opts cs \<longleftrightarrow> families_ok opts cs \<and> cs \<noteq> [] \<and> cf_id (hd cs) = 0 \<and> cf_name (hd cs) = kDefaultColumnFamilyName"

lemma replay_snapshot:
  assumes "db_ok opts (live vs)" and "column_family_set vs0 = []"
  obtains opt rc where "opts kDefaultColumnFamilyName = Some opt" and "replay opts (snapshot_edits vs) (Recover_start opt vs0) = Some rc"
    and "represents (live vs) rc" and "have_log_number rc"
proof -
  obtain c cs where cs: "live vs = c # cs"
    using assms(1) by (cases "live vs") (auto simp: db_ok_def)
  have c: "family_ok opts c" "cf_id c = 0" "cf_name c = kDefaultColumnFamilyName" "opts kDefaultColumnFamilyName = Some (cf_options c)"
    and ok: "families_ok opts ([c] @ cs)" "\<forall>c\<in>set cs. cf_id c \<noteq> 0"
    using assms(1) by (auto simp: cs db_ok_def families_ok_def family_ok_def image_iff)
  note start = Recover_start_represents [OF assms(2) c(1-3)]
  have fresh: "families_ok opts [fresh c]" "fresh c \<in> set [fresh c]"
    using fresh_ok [OF c(1)] by (simp_all add: families_ok_def)
  obtain rc1 where rc1: "Recover_edit opts (as_read (snapshot_family c)) (Recover_start (cf_options c) vs0) = Some rc1"
    "represents (edit_families (snapshot_family c) (cf_id (fresh c)) [fresh c]) rc1"
    by (rule Recover_edit_files [OF fresh(1) start fresh(2) snapshot_file_edits(2) [OF c(1,2)], of opts]) (rule that)
  have "edit_families (snapshot_family c) (cf_id (fresh c)) [fresh c] = [fresh c]"
    using edit_family_snapshot(1) [OF c(1)] by simp
  then have rep1: "represents [fresh c] rc1"
    using rc1(2) by simp
  obtain rc2 where rc2: "Recover_edit opts (as_read (snapshot_files c)) rc1 = Some rc2"
    "represents (edit_families (snapshot_files c) (cf_id (fresh c)) [fresh c]) rc2" "have_log_number rc2"
    by (rule Recover_edit_files [OF fresh(1) rep1 fresh(2) snapshot_file_edits(1) [OF c(1)], of opts]) (simp add: that)
  have rep2: "represents [c] rc2"
    using rc2(2) edit_family_snapshot(2) [OF c(1)] by simp
  obtain rc' where rc': "replay opts (concat (map (\<lambda>c. [snapshot_family c, snapshot_files c]) cs)) rc2 = Some rc'"
    "represents ([c] @ cs) rc'" "have_log_number rc'"
    by (rule replay_families [OF ok(1) rep2 ok(2) rc2(3)]) (rule that)
  have "snapshot_edits vs = snapshot_family c # snapshot_files c # concat (map (\<lambda>c. [snapshot_family c, snapshot_files c]) cs)"
    using cs by (simp add: snapshot_edits_def live_def)
  then have "replay opts (snapshot_edits vs) (Recover_start (cf_options c) vs0) = Some rc'"
    using rc1(1) rc2(1) rc'(1) rep1 rep2 by (simp add: represents_def)
  then show ?thesis
    using that c(4) rc'(2,3) cs by simp
qed

lemma snapshot_encodable: "families_ok opts (live vs) \<Longrightarrow> list_all encodable (snapshot_edits vs)"
  by (auto simp: list_all_iff snapshot_edits_def live_def families_ok_def intro: snapshot_family_encodable snapshot_files_fit(2))

section \<open>A batch is replayed\<close>

text \<open>An edit of the files of a family that can be written.\<close>

definition batch_edit :: "ColumnFamilyData \<Rightarrow> VersionEdit \<Rightarrow> bool" where
  "batch_edit c e \<longleftrightarrow> column_family e = cf_id c \<and> \<not> IsColumnFamilyManipulation e \<and> encodable e
     \<and> (has_comparator e \<longrightarrow> comparator_name e = comparator_Name (cf_options c))"

lemma batch_edit_family [simp]: "batch_edit (edit_family e' c) e = batch_edit c e"
  by (simp add: batch_edit_def)

abbreviation edits_families :: "VersionEdit list \<Rightarrow> u32 \<Rightarrow> ColumnFamilyData list \<Rightarrow> ColumnFamilyData list" where
  "edits_families es i cs \<equiv> map (\<lambda>x. if cf_id x = i then fold edit_family es x else x) cs"

lemma edits_families_Cons: "edits_families es i (edit_families e i cs) = edits_families (e # es) i cs"
  by simp

lemma edits_families_ok:
  assumes "families_ok opts cs" and "c \<in> set cs" and "list_all (batch_edit c) es"
    and "edits_fit (internal_comparator (cf_options c)) (cf_current c) es"
  shows "families_ok opts (edits_families es (cf_id c) cs)"
  using assms
proof (induction es arbitrary: cs c)
  case Nil
  then show ?case
    by (simp cong: if_cong)
next
  case (Cons e es)
  have e: "edit_fits (cf_current c) e" "encodable e" "list_all (batch_edit (edit_family e c)) es"
    "edits_fit (internal_comparator (cf_options (edit_family e c))) (cf_current (edit_family e c)) es"
    "edit_family e c \<in> set (edit_families e (cf_id c) cs)"
    using Cons.prems by (auto simp: batch_edit_def edit_family_def list_all_iff split: option.splits)
  show ?case
    using Cons.IH [OF edit_families_ok [OF Cons.prems(1,2) e(1,2)] e(5,3,4)] unfolding edit_family_id edits_families_Cons .
qed

lemma replay_batch:
  assumes "families_ok opts cs" and "represents cs rc" and "c \<in> set cs" and "list_all (batch_edit c) es"
    and "edits_fit (internal_comparator (cf_options c)) (cf_current c) es" and "have_log_number rc"
  obtains rc' where "replay opts es rc = Some rc'"
    and "represents (edits_families es (cf_id c) cs) rc'" and "have_log_number rc'"
    and "es \<noteq> [] \<Longrightarrow> has_next_file_number (last es) \<Longrightarrow> have_next_file rc' \<and> rc_next_file rc' = next_file_number (last es)"
    and "es \<noteq> [] \<Longrightarrow> has_last_sequence (last es) \<Longrightarrow> have_last_sequence rc' \<and> rc_last_sequence rc' = last_sequence (last es)"
  using assms
proof (induction es arbitrary: cs c rc thesis)
  case Nil
  have "edits_families [] (cf_id c) cs = cs"
    by (simp cong: if_cong)
  then show ?case
    using Nil.prems by auto
next
  case (Cons e es)
  have e: "file_edit c e" "edit_fits (cf_current c) e" "encodable e"
    using Cons.prems(5,6) by (simp_all add: batch_edit_def file_edit_def)
  obtain rc1 where rc1: "Recover_edit opts (as_read e) rc = Some rc1" "represents (edit_families e (cf_id c) cs) rc1"
    "have_log_number rc1" "numbers rc1 = numbers (recover_numbers e rc)"
    by (rule Recover_edit_files [OF Cons.prems(2-4) e(1), of opts]) (use Cons.prems(7) that in blast)
  have fit: "edits_fit (internal_comparator (cf_options (edit_family e c))) (cf_current (edit_family e c)) es"
    using Cons.prems(6) by (auto simp: edit_family_def split: option.splits)
  have c: "edit_family e c \<in> set (edit_families e (cf_id c) cs)" "list_all (batch_edit (edit_family e c)) es"
    using Cons.prems(4,5) by (auto simp: list_all_iff)
  obtain rc' where rc': "replay opts es rc1 = Some rc'" "represents (edits_families (e # es) (cf_id c) cs) rc'" "have_log_number rc'"
    "es \<noteq> [] \<Longrightarrow> has_next_file_number (last es) \<Longrightarrow> have_next_file rc' \<and> rc_next_file rc' = next_file_number (last es)"
    "es \<noteq> [] \<Longrightarrow> has_last_sequence (last es) \<Longrightarrow> have_last_sequence rc' \<and> rc_last_sequence rc' = last_sequence (last es)"
    by (rule Cons.IH [OF _ edit_families_ok [OF Cons.prems(2,4) e(2,3)] rc1(2) c fit rc1(3)]) (unfold edit_family_id edits_families_Cons, rule that)
  have r: "replay opts (e # es) rc = Some rc'"
    using rc1(1,2) rc'(1) by (simp add: represents_def)
  show ?case
    by (rule Cons.prems(1) [OF r rc'(2,3)]) (use rc1(4) rc'(1,4,5) in \<open>auto simp: numbers_def [of rc1]\<close>)
qed

text \<open>Edits that differ in the numbers \<open>LogAndApply\<close> fills in only.\<close>

definition alike :: "VersionEdit \<Rightarrow> VersionEdit \<Rightarrow> bool" where
  "alike e e' \<longleftrightarrow> column_family e' = column_family e \<and> column_family_name e' = column_family_name e \<and> is_column_family_add e' = is_column_family_add e
     \<and> is_column_family_drop e' = is_column_family_drop e \<and> has_comparator e' = has_comparator e \<and> comparator_name e' = comparator_name e
     \<and> deleted_files e' = deleted_files e \<and> new_files e' = new_files e \<and> has_log_number e' = has_log_number e
     \<and> Version_Edit.log_number e' = Version_Edit.log_number e \<and> (encodable e \<longrightarrow> encodable e')"

lemma alike_set:
  assumes "alike e e'"
  shows "alike e (SetNextFile n e')" "alike e (SetLastSequence n e')" "alike e (SetPrevLogNumber n e')" "alike e (SetMaxColumnFamily i e')"
  using assms by (auto simp: alike_def SetNextFile_def SetLastSequence_def SetPrevLogNumber_def SetMaxColumnFamily_def encodable_def edit_wf_def)

lemma alike_refl: "alike e e"
  by (simp add: alike_def)

lemma alike_trans: "list_all2 alike a b \<Longrightarrow> list_all2 alike b c \<Longrightarrow> list_all2 alike a c"
  by (rule list_all2_trans [of alike alike alike]) (auto simp: alike_def)

lemma alike_helper: "alike e (LogAndApplyHelper vs e)"
  by (auto simp: LogAndApplyHelper_def intro!: alike_set alike_refl)

lemma alike_Apply: "alike e e' \<Longrightarrow> Apply e' b = Apply e b" "alike e e' \<Longrightarrow> apply_edit icmp e' v = apply_edit icmp e v"
  "alike e e' \<Longrightarrow> edit_fits v e' = edit_fits v e" "alike e e' \<Longrightarrow> fresh_in v e' = fresh_in v e"
  by (simp_all add: alike_def Apply_def apply_edit_def edit_fits_def fresh_in_def)

lemma alike_foldM:
  assumes "list_all2 alike es es'"
  shows "foldM Apply es' b = foldM Apply es b"
  using assms
proof (induction arbitrary: b rule: list_all2_induct)
  case (Cons e es e' es')
  then show ?case
    by (cases "Apply e b") (simp_all add: alike_Apply)
qed simp

lemma alike_fit:
  assumes "list_all2 alike es es'"
  shows "edits_fit icmp v es' = edits_fit icmp v es"
  using assms
proof (induction arbitrary: v rule: list_all2_induct)
  case (Cons e es e' es')
  then show ?case
    by (cases "apply_edit icmp e v") (simp_all add: alike_Apply)
qed simp

lemma alike_batch:
  assumes "list_all2 alike es es'"
  shows "list_all (batch_edit c) es \<Longrightarrow> list_all (batch_edit c) es'" "list_all (fresh_in v) es' = list_all (fresh_in v) es"
    "max_log_number_in_batch es' = max_log_number_in_batch es"
proof -
  show "list_all (batch_edit c) es \<Longrightarrow> list_all (batch_edit c) es'"
    using assms by (induction rule: list_all2_induct) (auto simp: alike_def batch_edit_def IsColumnFamilyManipulation_def)
  show "list_all (fresh_in v) es' = list_all (fresh_in v) es"
    using assms by (induction rule: list_all2_induct) (auto simp: alike_Apply)
  have "foldl (\<lambda>m e. if has_log_number e then max m (Version_Edit.log_number e) else m) a es'
      = foldl (\<lambda>m e. if has_log_number e then max m (Version_Edit.log_number e) else m) a es" for a
    using assms by (induction arbitrary: a rule: list_all2_induct) (auto simp: alike_def)
  then show "max_log_number_in_batch es' = max_log_number_in_batch es"
    by (simp add: max_log_number_in_batch_def)
qed

lemma choose_manifest_batch:
  assumes "choose_manifest env nd b vs = (pending, vs1, batch, nd')" and "b \<noteq> []" and "has_next_file_number (last b)"
    and "next_file_number (last b) = vs_next_file_number vs" and "has_last_sequence (last b)" and "last_sequence (last b) = vs_last_sequence vs"
  shows "list_all2 alike b batch" "batch \<noteq> []" "has_next_file_number (last batch)" "next_file_number (last batch) = vs_next_file_number vs1"
    "has_last_sequence (last batch)" "last_sequence (last batch) = vs_last_sequence vs1"
    "column_family_set vs1 = column_family_set vs" "descriptor_log vs1 = descriptor_log vs" "manifest_file_number vs1 = manifest_file_number vs"
    "\<not> nd' \<Longrightarrow> pending = manifest_file_number vs \<and> descriptor_log vs \<noteq> None"
proof -
  obtain b0 e0 where b: "b = b0 @ [e0]"
    using assms(2) by (metis rev_exhaust)
  define fresh where "fresh \<longleftrightarrow> descriptor_log vs = None \<or> max_manifest_file_size env < manifest_file_size vs"
  define batch1 where "batch1 = b0 @ [if fresh then SetNextFile (vs_next_file_number vs + 1) e0 else e0]"
  have vs1: "vs1 = (if fresh then vs\<lparr>vs_next_file_number := vs_next_file_number vs + 1\<rparr> else vs)"
    and batch: "batch = (if nd' \<and> 0 < vs_max_column_family vs1 then SetMaxColumnFamily (vs_max_column_family vs1) (hd batch1) # tl batch1 else batch1)"
    using assms(1) by (auto simp: choose_manifest_def NewFileNumber_def b batch1_def fresh_def [symmetric] split: if_splits)
  have a1: "list_all2 alike b batch1"
    unfolding b batch1_def by (auto intro!: list_all2_appendI alike_set alike_refl list_all2_refl)
  have l1: "batch1 \<noteq> []" "has_next_file_number (last batch1)" "next_file_number (last batch1) = vs_next_file_number vs1"
    "has_last_sequence (last batch1)" "last_sequence (last batch1) = vs_last_sequence vs1"
    using assms(3-) by (simp_all add: batch1_def vs1 b SetNextFile_def)
  obtain x xs where b1: "batch1 = x # xs"
    using l1(1) by (cases batch1) auto
  obtain y ys where y: "b = y # ys" "alike y x" "list_all2 alike ys xs"
    using a1 b1 by (cases b) auto
  show "list_all2 alike b batch"
    using a1 y by (auto simp: batch b1 intro: alike_set)
  show "batch \<noteq> []" "has_next_file_number (last batch)" "next_file_number (last batch) = vs_next_file_number vs1"
    "has_last_sequence (last batch)" "last_sequence (last batch) = vs_last_sequence vs1"
    using l1 by (auto simp: batch b1 SetMaxColumnFamily_def)
  show "column_family_set vs1 = column_family_set vs" "descriptor_log vs1 = descriptor_log vs" "manifest_file_number vs1 = manifest_file_number vs"
    by (simp_all add: vs1)
  show "\<not> nd' \<Longrightarrow> pending = manifest_file_number vs \<and> descriptor_log vs \<noteq> None"
    using assms(1) by (auto simp: choose_manifest_def NewFileNumber_def split: if_splits)
qed

section \<open>What is installed\<close>

abbreviation log_max :: "u64 \<Rightarrow> VersionEdit list \<Rightarrow> u64" where
  "log_max a es \<equiv> foldl (\<lambda>m e. if has_log_number e then max m (Version_Edit.log_number e) else m) a es"

lemma log_max_from: "log_max a es = max a (log_max 0 es)"
proof (induction es arbitrary: a)
  case (Cons e es)
  show ?case
    using Cons [of "max a (Version_Edit.log_number e)"] Cons [of "max 0 (Version_Edit.log_number e)"] Cons [of a]
    by (auto simp: max.assoc)
qed simp

lemma log_max_installed:
  assumes "list_all (\<lambda>e. has_log_number e \<longrightarrow> a \<le> Version_Edit.log_number e) es"
  shows "log_max a es = (if max_log_number_in_batch es \<noteq> 0 then max_log_number_in_batch es else a)"
proof -
  have "a \<le> log_max 0 es" if "log_max 0 es \<noteq> 0"
    using assms that
  proof (induction es)
    case (Cons e es)
    then show ?case
      using log_max_from [of "max 0 (Version_Edit.log_number e)" es] by (auto split: if_splits simp: le_max_iff_disj)
  qed simp
  then show ?thesis
    using log_max_from [of a es] by (auto simp: max_log_number_in_batch_def max_def)
qed

lemma fold_edit_family:
  "edits_fit (internal_comparator (cf_options c)) (cf_current c) es \<Longrightarrow>
   fold edit_family es c = c\<lparr>cf_log_number := log_max (cf_log_number c) es,
     cf_current := the (foldM (apply_edit (internal_comparator (cf_options c))) es (cf_current c))\<rparr>"
proof (induction es arbitrary: c)
  case (Cons e es)
  obtain v where v: "apply_edit (internal_comparator (cf_options c)) e (cf_current c) = Some v"
    "edits_fit (internal_comparator (cf_options c)) v es"
    using Cons.prems by (auto split: option.splits)
  have "cf_current (edit_family e c) = v" "cf_log_number (edit_family e c) = log_max (cf_log_number c) [e]"
    using v(1) by (auto simp: edit_family_def max_def)
  then show ?case
    using Cons.IH [of "edit_family e c"] v by (simp add: edit_family_def)
qed simp

lemma fold_edit_family_id [simp]: "cf_id (fold edit_family es c) = cf_id c" "cf_name (fold edit_family es c) = cf_name c"
  by (induction es arbitrary: c) simp_all

lemma installed_family:
  assumes "family_ok opts c" and "edits_fit (internal_comparator (cf_options c)) (cf_current c) es" and "list_all (fresh_in (cf_current c)) es"
    and "list_all (\<lambda>e. has_log_number e \<longrightarrow> cf_log_number c \<le> Version_Edit.log_number e) es"
  obtains b where "foldM Apply es (new_VersionBuilder (cf_current c)) = Some b"
    and "fold edit_family es c = c\<lparr>cf_log_number := (if max_log_number_in_batch es \<noteq> 0 then max_log_number_in_batch es else cf_log_number c),
      cf_current := SaveTo (internal_comparator (cf_options c)) b\<rparr>"
proof -
  let ?icmp = "internal_comparator (cf_options c)"
  have c: "?icmp \<in> builtin_comparators" "version_ok ?icmp (cf_current c)"
    using assms(1) by (simp_all add: family_ok_def)
  have "\<exists>b v. foldM Apply es (new_VersionBuilder (cf_current c)) = Some b \<and> foldM (apply_edit ?icmp) es (cf_current c) = Some v \<and> SaveTo ?icmp b = v"
    by (rule builder_tracks [OF c(1) new_VersionBuilder_inv(1) [OF c(2)] c(2)])
      (use assms new_VersionBuilder_inv(2) [OF c(2)] in \<open>simp_all add: new_VersionBuilder_def\<close>)
  then show ?thesis
    using that fold_edit_family [OF assms(2)] log_max_installed [OF assms(4)] by auto
qed

lemma live_update:
  assumes "\<And>c. cf_dropped (upd c) = cf_dropped c"
  shows "live (update_cf i upd vs) = map (\<lambda>c. if cf_id c = i then upd c else c) (live vs)"
proof -
  have "filter (\<lambda>c. \<not> cf_dropped c) (map (\<lambda>c. if cf_id c = i \<and> \<not> cf_dropped c then upd c else c) cs)
      = map (\<lambda>c. if cf_id c = i then upd c else c) (filter (\<lambda>c. \<not> cf_dropped c) cs)" for cs
    using assms by (induction cs) auto
  then show ?thesis
    by (simp add: live_def update_cf_def)
qed

lemma Recover_finish_represents:
  assumes "families_ok opts cs" and "represents cs rc" and "have_log_number rc" "have_next_file rc" "have_last_sequence rc"
  obtains rvs where "Recover_finish ro n rc = (OK, rvs)" and "column_family_set rvs = cs" and "vs_next_file_number rvs = rc_next_file rc + 1"
    and "vs_last_sequence rvs = rc_last_sequence rc"
proof -
  have "SaveTo (internal_comparator (cf_options c)) (the (rc_builders rc (cf_id c))) = cf_current c" if c: "c \<in> set cs" for c
  proof -
    let ?icmp = "internal_comparator (cf_options c)"
    obtain b where b: "rc_builders rc (cf_id c) = Some b" "builder_inv ?icmp b" "base_vstorage b = replicate (num_levels (cf_options c)) []"
      "\<And>l. l < num_levels (cf_options c) \<Longrightarrow> content b l = set (cf_current c ! l)"
      using assms(2) c by (auto simp: represents_def tracks_def)
    have ok: "?icmp \<in> builtin_comparators" "version_ok ?icmp (cf_current c)" "length (cf_current c) = num_levels (cf_options c)"
      using assms(1) c by (auto simp: families_ok_def family_ok_def)
    have "SaveTo ?icmp b = cf_current c"
      by (rule versions_equal [OF ok(1) SaveTo_correct(1) [OF ok(1) b(2)] ok(2)])
        (use SaveTo_correct [OF ok(1) b(2)] b ok in simp_all)
    then show ?thesis
      by (simp add: b(1))
  qed
  moreover have "\<not> cf_dropped c" if "c \<in> set cs" for c
    using assms(1) that by (auto simp: families_ok_def family_ok_def)
  ultimately have "map (\<lambda>c. if cf_dropped c then c else c\<lparr>cf_current := SaveTo (internal_comparator (cf_options c)) (the (rc_builders rc (cf_id c)))\<rparr>)
      (map blank cs) = cs"
    by (auto simp: blank_def intro!: map_idI)
  then show ?thesis
    using that assms(2-) by (simp add: Recover_finish_def represents_def MarkFileNumberUsedDuringRecovery_def UpdateMaxColumnFamily_def)
qed

section \<open>Durability\<close>

definition env_ok :: "ManifestEnv \<Rightarrow> bool" where
  "env_ok env \<longleftrightarrow> new_file_status env = OK \<and> new_append_status env = OK \<and> new_flush_status env = OK \<and> sync_status env = OK
     \<and> current_status env = OK"

text \<open>The manifest on disk is the log of edits that leads to the families in memory.\<close>

definition synced :: "(bytes \<rightharpoonup> CFOptions) \<Rightarrow> VersionSet \<Rightarrow> Disk \<Rightarrow> bool" where
  "synced opts vs disk \<longleftrightarrow> (\<exists>es rc opt. descriptor_log vs = Some (written empty_log (map encoded es)) \<and> list_all encodable es
     \<and> opts kDefaultColumnFamilyName = Some opt
     \<and> replay opts es (Recover_start opt (new_VersionSet\<lparr>manifest_file_number := manifest_file_number vs\<rparr>)) = Some rc
     \<and> represents (live vs) rc \<and> have_log_number rc
     \<and> CURRENT disk = Some (manifest_file_number vs) \<and> manifests disk (manifest_file_number vs) = Some (manifest es))"

text \<open>The families are in order, and the manifest is in step with them unless none is open, as after a start.\<close>

definition consistent :: "(bytes \<rightharpoonup> CFOptions) \<Rightarrow> VersionSet \<Rightarrow> Disk \<Rightarrow> bool" where
  "consistent opts vs disk \<longleftrightarrow> db_ok opts (live vs) \<and> (descriptor_log vs = None \<or> synced opts vs disk)"

lemma write_manifest_ok:
  assumes "env_ok env" and "consistent opts vs disk" and "list_all encodable batch" and "\<not> nd \<Longrightarrow> pending = manifest_file_number vs \<and> descriptor_log vs \<noteq> None"
  obtains es rc opt disk' where
    "write_manifest env pending nd batch vs disk = Some (OK, vs\<lparr>descriptor_log := Some (written empty_log (map encoded (es @ batch)))\<rparr>, disk')"
    "list_all encodable es" "opts kDefaultColumnFamilyName = Some opt"
    "replay opts es (Recover_start opt (new_VersionSet\<lparr>manifest_file_number := pending\<rparr>)) = Some rc" "represents (live vs) rc" "have_log_number rc"
    "CURRENT disk' = Some pending" "manifests disk' pending = Some (manifest (es @ batch))"
proof (cases nd)
  case True
  have ok: "db_ok opts (live vs)" "families_ok opts (live vs)" "column_family_set (new_VersionSet\<lparr>manifest_file_number := pending\<rparr>) = []"
    using assms(2) by (simp_all add: consistent_def db_ok_def new_VersionSet_def)
  obtain opt rc where rc: "opts kDefaultColumnFamilyName = Some opt"
    "replay opts (snapshot_edits vs) (Recover_start opt (new_VersionSet\<lparr>manifest_file_number := pending\<rparr>)) = Some rc"
    "represents (live vs) rc" "have_log_number rc"
    by (rule replay_snapshot [OF ok(1,3)]) (rule that)
  note enc = snapshot_encodable [OF ok(2)]
  have "write_edits (snapshot_edits vs) empty_log = (OK, written empty_log (map encoded (snapshot_edits vs)))"
    by (rule write_edits_encodable [OF empty_log_good enc])
  moreover have "write_edits batch (written empty_log (map encoded (snapshot_edits vs))) = (OK, written empty_log (map encoded (snapshot_edits vs @ batch)))"
    using write_edits_encodable [OF written_good [OF empty_log_good] assms(3)] by (simp add: written_append)
  ultimately show ?thesis
    using True assms(1) enc rc
    by (intro that [of "snapshot_edits vs"]) (auto simp: write_manifest_def create_manifest_def WriteSnapshot_def write_batch_def
        SetCurrentFile_def env_ok_def simp flip: empty_log_def)
next
  case False
  then have "synced opts vs disk" and p: "pending = manifest_file_number vs"
    using assms(2,4) by (simp_all add: consistent_def)
  then obtain es rc opt where es: "descriptor_log vs = Some (written empty_log (map encoded es))" "list_all encodable es"
    "opts kDefaultColumnFamilyName = Some opt"
    "replay opts es (Recover_start opt (new_VersionSet\<lparr>manifest_file_number := manifest_file_number vs\<rparr>)) = Some rc"
    "represents (live vs) rc" "have_log_number rc" "CURRENT disk = Some (manifest_file_number vs)"
    by (auto simp: synced_def)
  have "write_edits batch (written empty_log (map encoded es)) = (OK, written empty_log (map encoded (es @ batch)))"
    using write_edits_encodable [OF written_good [OF empty_log_good] assms(3)] by (simp add: written_append)
  then show ?thesis
    using False assms(1) es p
    by (intro that [where es = es and disk' = "disk\<lparr>manifests := (manifests disk)(pending \<mapsto> manifest (es @ batch))\<rparr>"])
      (auto simp: write_manifest_def write_batch_def env_ok_def)
qed

lemma GetColumnFamily_live:
  assumes "families_ok opts (live vs)" and "c \<in> set (live vs)"
  shows "GetColumnFamily (cf_id c) vs = Some c"
proof -
  have "find (\<lambda>x. cf_id x = cf_id c \<and> \<not> cf_dropped x) cs = Some c"
    if "c \<in> set (filter (\<lambda>c. \<not> cf_dropped c) cs)" "distinct (map cf_id (filter (\<lambda>c. \<not> cf_dropped c) cs))" for cs
    using that by (induction cs) (auto simp: image_iff split: if_splits)
  then show ?thesis
    using assms by (simp add: GetColumnFamily_def live_def families_ok_def)
qed

lemma alike_edit_families:
  assumes "list_all2 alike es es'"
  shows "edits_families es' i cs = edits_families es i cs"
proof -
  have one: "edit_family e' c = edit_family e c" if "alike e e'" for e e' c
    using that alike_Apply(2) [OF that] by (simp add: alike_def edit_family_def)
  have "fold edit_family es' c = fold edit_family es c" for c
    using assms by (induction arbitrary: c rule: list_all2_induct) (simp_all add: one)
  then show ?thesis
    by simp
qed

lemma survivors_all:
  assumes "good_writer log" and "length (dest (written log ds)) \<le> m"
  shows "survivors m log ds = ds"
  using assms
proof (induction ds arbitrary: log)
  case (Cons d ds)
  obtain more where "dest (written (snd (AddRecord d log)) ds) = dest (snd (AddRecord d log)) @ more"
    using written_extends [OF AddRecord_keeps_good [OF Cons.prems(1)]] by blast
  then have "length (dest (snd (AddRecord d log))) \<le> m"
    using Cons.prems(2) by simp
  then show ?case
    using Cons AddRecord_keeps_good by simp
qed simp

lemma Recover_manifest:
  assumes "list_all encodable es" and "opts kDefaultColumnFamilyName = Some opt"
  shows "Recover opts ro n (manifest es) vs =
    map_option (Recover_finish ro (length (manifest es))) (replay opts es (Recover_start opt (vs\<lparr>manifest_file_number := n\<rparr>)))"
  using assms Recover_loop_manifest [of es "Recover_start opt (vs\<lparr>manifest_file_number := n\<rparr>)" opts "length (manifest es)"]
    survivors_all [OF empty_log_good, of "map encoded es" "length (manifest es)"] by (simp add: Recover_def)

text \<open>A request of the writer \<open>w\<close> at the head of the queue to edit the files of the family \<open>c\<close>, with all \<open>edits\<close> it commits: they fit
  the version one after the other, with fresh file numbers, keys that can be written and log numbers that do not go back.\<close>

definition file_request :: "VersionSet \<Rightarrow> ManifestWriter \<Rightarrow> ManifestWriter list \<Rightarrow> ColumnFamilyData \<Rightarrow> VersionEdit list \<Rightarrow> bool" where
  "file_request vs w ws c edits \<longleftrightarrow> c \<in> set (live vs) \<and> mw_cfd w = Some (cf_id c) \<and> edit_list w \<noteq> []
     \<and> edits = concat (map edit_list (w # group_commit (cf_id c) ws)) \<and> list_all (batch_edit c) edits
     \<and> edits_fit (internal_comparator (cf_options c)) (cf_current c) edits \<and> list_all (fresh_in (cf_current c)) edits
     \<and> list_all (\<lambda>e. has_log_number e \<longrightarrow> cf_log_number c \<le> Version_Edit.log_number e) edits"

lemma file_request_collected:
  assumes "families_ok opts (live vs)" and "file_request vs w ws c edits"
  obtains b where "collect_batch w ws vs =
      Some (map (LogAndApplyHelper vs) edits, SaveTo (internal_comparator (cf_options c)) b, length (group_commit (cf_id c) ws))"
    and "GetColumnFamily (cf_id c) vs = Some c" and "edits \<noteq> []"
    and "fold edit_family edits c = c\<lparr>cf_log_number := (if max_log_number_in_batch edits \<noteq> 0 then max_log_number_in_batch edits else cf_log_number c),
      cf_current := SaveTo (internal_comparator (cf_options c)) b\<rparr>"
proof -
  have r: "c \<in> set (live vs)" "mw_cfd w = Some (cf_id c)" "edits = concat (map edit_list (w # group_commit (cf_id c) ws))"
    "edits_fit (internal_comparator (cf_options c)) (cf_current c) edits" "list_all (fresh_in (cf_current c)) edits"
    "list_all (\<lambda>e. has_log_number e \<longrightarrow> cf_log_number c \<le> Version_Edit.log_number e) edits"
    "edit_list w \<noteq> []" "list_all (batch_edit c) edits"
    using assms(2) unfolding file_request_def by blast+
  have ok: "family_ok opts c"
    using assms(1) r(1) by (simp add: families_ok_def)
  have ne: "edits \<noteq> []" "\<not> IsColumnFamilyManipulation (hd (edit_list w))"
    using r(3,7,8) by (auto simp: batch_edit_def neq_Nil_conv)
  have found: "GetColumnFamily (cf_id c) vs = Some c"
    using assms(1) r(1) by (rule GetColumnFamily_live)
  obtain b where b: "foldM Apply edits (new_VersionBuilder (cf_current c)) = Some b"
    "fold edit_family edits c = c\<lparr>cf_log_number := (if max_log_number_in_batch edits \<noteq> 0 then max_log_number_in_batch edits else cf_log_number c),
      cf_current := SaveTo (internal_comparator (cf_options c)) b\<rparr>"
    by (rule installed_family [OF ok r(4-6)]) (rule that)
  have "list_all2 alike edits (map (LogAndApplyHelper vs) edits)"
    by (auto simp: list_all2_conv_all_nth alike_helper)
  then have "collect_batch w ws vs =
      Some (map (LogAndApplyHelper vs) edits, SaveTo (internal_comparator (cf_options c)) b, length (group_commit (cf_id c) ws))"
    using ne(2) r(2,3) found b(1) alike_foldM [of edits "map (LogAndApplyHelper vs) edits"] by (simp add: collect_batch_def Let_def)
  from that [OF this found ne(1) b(2)] show ?thesis .
qed

lemma installed_live:
  assumes "families_ok opts (live vs)" and "c \<in> set (live vs)" and "live vs2 = live vs"
    and "upd c = fold edit_family edits c" and "\<And>c. cf_dropped (upd c) = cf_dropped c"
  shows "live (update_cf (cf_id c) upd vs2) = edits_families edits (cf_id c) (live vs)"
  using live_update [of upd "cf_id c" vs2, OF assms(5)] assms(3,4) same_family [OF assms(1,2)] by auto

text \<open>The last edit of a replayed batch decides the numbers.\<close>

definition ends_with :: "VersionEdit list \<Rightarrow> Recovery \<Rightarrow> bool" where
  "ends_with batch rc \<longleftrightarrow> have_log_number rc \<and> (has_next_file_number (last batch) \<longrightarrow> have_next_file rc \<and> rc_next_file rc = next_file_number (last batch))
     \<and> (has_last_sequence (last batch) \<longrightarrow> have_last_sequence rc \<and> rc_last_sequence rc = last_sequence (last batch))"

text \<open>
  What the three kinds of requests have in common: a batch is collected, and however the rest of \<open>LogAndApply\<close> fills in its numbers,
  replaying it and installing it both lead to the families \<open>cs'\<close>.
\<close>

definition commits :: "(bytes \<rightharpoonup> CFOptions) \<Rightarrow> CFOptions option \<Rightarrow> ManifestWriter \<Rightarrow> ManifestWriter list \<Rightarrow> VersionSet \<Rightarrow> ColumnFamilyData list \<Rightarrow> nat \<Rightarrow> bool" where
  "commits opts opt w ws vs cs' k \<longleftrightarrow> edit_list w \<noteq> [] \<and> \<not> (case mw_cfd w of None \<Rightarrow> False | Some i \<Rightarrow> GetColumnFamily i vs = None)
     \<and> (\<exists>b v. collect_batch w ws vs = Some (b, v, k) \<and> b \<noteq> [] \<and> list_all encodable b
       \<and> has_next_file_number (last b) \<and> next_file_number (last b) = vs_next_file_number vs
       \<and> has_last_sequence (last b) \<and> last_sequence (last b) = vs_last_sequence vs
       \<and> (\<forall>batch. list_all2 alike b batch \<longrightarrow>
           (\<forall>rc. represents (live vs) rc \<and> have_log_number rc \<longrightarrow> (\<exists>rc'. replay opts batch rc = Some rc' \<and> represents cs' rc' \<and> ends_with batch rc'))
         \<and> (\<forall>vs2. column_family_set vs2 = column_family_set vs \<longrightarrow> (\<exists>cs m. install (mw_cfd w) opt batch v vs2
               = Some (vs2\<lparr>column_family_set := cs, vs_max_column_family := m\<rparr>) \<and> filter (\<lambda>c. \<not> cf_dropped c) cs = cs'))))
     \<and> db_ok opts cs'"

lemma alike_encodable: "list_all2 alike b batch \<Longrightarrow> list_all encodable b \<Longrightarrow> list_all encodable batch"
  by (induction rule: list_all2_induct) (auto simp: alike_def)

lemma LogAndApply_logged:
  assumes "consistent opts vs disk" and "env_ok env" and "commits opts opt w ws vs cs' k"
  obtains vs' disk' es rc dopt where "LogAndApply env new_descriptor_log opt w ws vs disk = Some (OK, k, vs', disk')" and "live vs' = cs'"
    and "descriptor_log vs' = Some (written empty_log (map encoded es))" and "list_all encodable es" and "opts kDefaultColumnFamilyName = Some dopt"
    and "replay opts es (Recover_start dopt (new_VersionSet\<lparr>manifest_file_number := manifest_file_number vs'\<rparr>)) = Some rc"
    and "represents cs' rc" and "have_log_number rc" and "have_next_file rc" and "have_last_sequence rc"
    and "rc_next_file rc = vs_next_file_number vs'" and "rc_last_sequence rc = vs_last_sequence vs'"
    and "CURRENT disk' = Some (manifest_file_number vs')" and "manifests disk' (manifest_file_number vs') = Some (manifest es)"
proof -
  obtain b v where w: "edit_list w \<noteq> []" "\<not> (case mw_cfd w of None \<Rightarrow> False | Some i \<Rightarrow> GetColumnFamily i vs = None)"
    and b: "collect_batch w ws vs = Some (b, v, k)" "b \<noteq> []" "has_next_file_number (last b)"
      "next_file_number (last b) = vs_next_file_number vs" "has_last_sequence (last b)" "last_sequence (last b) = vs_last_sequence vs"
    and b_enc: "list_all encodable b"
    and replays: "\<And>batch rc. list_all2 alike b batch \<Longrightarrow> represents (live vs) rc \<Longrightarrow> have_log_number rc \<Longrightarrow>
      \<exists>rc'. replay opts batch rc = Some rc' \<and> represents cs' rc' \<and> ends_with batch rc'"
    and installs: "\<And>batch vs2. list_all2 alike b batch \<Longrightarrow> column_family_set vs2 = column_family_set vs \<Longrightarrow>
      \<exists>cs m. install (mw_cfd w) opt batch v vs2 = Some (vs2\<lparr>column_family_set := cs, vs_max_column_family := m\<rparr>) \<and> filter (\<lambda>c. \<not> cf_dropped c) cs = cs'"
    using assms(3) unfolding commits_def by blast
  obtain pending vs1 batch nd where choose: "choose_manifest env new_descriptor_log b vs = (pending, vs1, batch, nd)"
    by (metis prod_cases4)
  note batch = choose_manifest_batch [OF choose b(2-)]
  have con1: "consistent opts vs1 disk" and live1: "live vs1 = live vs"
    using assms(1) batch(7-9) by (simp_all add: consistent_def synced_def live_def)
  have enc: "list_all encodable batch"
    using alike_encodable [OF batch(1) b_enc] .
  have pre: "\<not> nd \<Longrightarrow> pending = manifest_file_number vs1 \<and> descriptor_log vs1 \<noteq> None"
    using batch(8-10) by simp
  obtain es rc dopt disk' where
    written: "write_manifest env pending nd batch vs1 disk = Some (OK, vs1\<lparr>descriptor_log := Some (written empty_log (map encoded (es @ batch)))\<rparr>, disk')"
    and es: "list_all encodable es" "opts kDefaultColumnFamilyName = Some dopt"
      "replay opts es (Recover_start dopt (new_VersionSet\<lparr>manifest_file_number := pending\<rparr>)) = Some rc" "represents (live vs1) rc" "have_log_number rc"
    and disk': "CURRENT disk' = Some pending" "manifests disk' pending = Some (manifest (es @ batch))"
    by (rule write_manifest_ok [OF assms(2) con1 enc pre]) (assumption, rule that)
  obtain rc' where rc': "replay opts batch rc = Some rc'" "represents cs' rc'" "ends_with batch rc'"
    using replays [OF batch(1)] es(4,5) live1 by auto
  define vs2 where "vs2 = (let vs = vs1\<lparr>descriptor_log := Some (written empty_log (map encoded (es @ batch)))\<rparr>
    in if nd then vs\<lparr>obsolete_manifests := obsolete_manifests vs @ [manifest_file_number vs]\<rparr> else vs)"
  have "column_family_set vs2 = column_family_set vs"
    using batch(7) by (simp add: vs2_def Let_def)
  then obtain cs m where cs: "install (mw_cfd w) opt batch v vs2 = Some (vs2\<lparr>column_family_set := cs, vs_max_column_family := m\<rparr>)"
    "filter (\<lambda>c. \<not> cf_dropped c) cs = cs'"
    using installs [OF batch(1)] by blast
  define vs' where "vs' = vs2\<lparr>column_family_set := cs, vs_max_column_family := m, manifest_file_number := pending,
     manifest_file_size := length (manifest (es @ batch)), vs_prev_log_number := prev_log_number (hd batch)\<rparr>"
  have call: "LogAndApply env new_descriptor_log opt w ws vs disk = Some (OK, k, vs', disk')"
    using w b(1) choose written cs(1) by (simp add: LogAndApply_def vs'_def vs2_def Let_def)
  have all: "replay opts (es @ batch) (Recover_start dopt (new_VersionSet\<lparr>manifest_file_number := pending\<rparr>)) = Some rc'"
    using replay_append [of "Recover_start dopt (new_VersionSet\<lparr>manifest_file_number := pending\<rparr>)"] es(3,4) rc'(1) by (simp add: represents_def)
  have vs': "live vs' = cs'" "manifest_file_number vs' = pending" "descriptor_log vs' = Some (written empty_log (map encoded (es @ batch)))"
    "vs_last_sequence vs' = vs_last_sequence vs1" "vs_next_file_number vs' = vs_next_file_number vs1"
    using cs(2) by (simp_all add: vs'_def vs2_def Let_def live_def)
  show ?thesis
    by (rule that [OF call vs'(1), of "es @ batch" dopt rc'])
      (use vs' es(1,2) enc all rc' batch(3-6) disk' in \<open>simp_all add: ends_with_def\<close>)
qed

lemma helper_last:
  assumes "edits \<noteq> []"
  shows "has_next_file_number (last (map (LogAndApplyHelper vs) edits))"
    "next_file_number (last (map (LogAndApplyHelper vs) edits)) = vs_next_file_number vs"
    "has_last_sequence (last (map (LogAndApplyHelper vs) edits))" "last_sequence (last (map (LogAndApplyHelper vs) edits)) = vs_last_sequence vs"
  using assms by (simp_all add: last_map LogAndApplyHelper_def SetNextFile_def SetLastSequence_def SetPrevLogNumber_def)

lemma alike_helpers: "list_all2 alike edits (map (LogAndApplyHelper vs) edits)"
  by (auto simp: list_all2_conv_all_nth alike_helper)

lemma replay_alike_batch:
  assumes "families_ok opts (live vs)" and "file_request vs w ws c edits" and "list_all2 alike edits batch"
    and "represents (live vs) rc" and "have_log_number rc" and "edits \<noteq> []"
  shows "\<exists>rc'. replay opts batch rc = Some rc' \<and> represents (edits_families edits (cf_id c) (live vs)) rc' \<and> ends_with batch rc'"
proof -
  have r: "c \<in> set (live vs)" "list_all (batch_edit c) batch" "edits_fit (internal_comparator (cf_options c)) (cf_current c) batch"
    using assms(2) alike_batch(1) [OF assms(3)] alike_fit [OF assms(3)] unfolding file_request_def by blast+
  have ne: "batch \<noteq> []"
    using assms(3,6) by auto
  obtain rc' where "replay opts batch rc = Some rc'" "represents (edits_families batch (cf_id c) (live vs)) rc'" "have_log_number rc'"
    "batch \<noteq> [] \<Longrightarrow> has_next_file_number (last batch) \<Longrightarrow> have_next_file rc' \<and> rc_next_file rc' = next_file_number (last batch)"
    "batch \<noteq> [] \<Longrightarrow> has_last_sequence (last batch) \<Longrightarrow> have_last_sequence rc' \<and> rc_last_sequence rc' = last_sequence (last batch)"
    by (rule replay_batch [OF assms(1,4) r assms(5)]) (rule that)
  then show ?thesis
    using ne unfolding alike_edit_families [OF assms(3)] ends_with_def by blast
qed

lemma file_request_commits:
  assumes "db_ok opts (live vs)" and "file_request vs w ws c edits"
  shows "commits opts opt w ws vs (edits_families edits (cf_id c) (live vs)) (length (group_commit (cf_id c) ws))"
proof -
  let ?i = "cf_id c" and ?icmp = "internal_comparator (cf_options c)" and ?b = "map (LogAndApplyHelper vs) edits"
  have ok: "families_ok opts (live vs)"
    using assms(1) by (simp add: db_ok_def)
  have r: "c \<in> set (live vs)" "mw_cfd w = Some ?i" "edit_list w \<noteq> []" "list_all (batch_edit c) edits" "edits_fit ?icmp (cf_current c) edits"
    using assms(2) unfolding file_request_def by blast+
  obtain b where collected: "collect_batch w ws vs = Some (?b, SaveTo ?icmp b, length (group_commit ?i ws))"
    and found: "GetColumnFamily ?i vs = Some c" and ne: "edits \<noteq> []"
    and b: "fold edit_family edits c = c\<lparr>cf_log_number := (if max_log_number_in_batch edits \<noteq> 0 then max_log_number_in_batch edits else cf_log_number c),
      cf_current := SaveTo ?icmp b\<rparr>"
    by (rule file_request_collected [OF ok assms(2)]) (rule that)
  have installs: "\<exists>cs m. install (mw_cfd w) opt batch (SaveTo ?icmp b) vs2 = Some (vs2\<lparr>column_family_set := cs, vs_max_column_family := m\<rparr>)
      \<and> filter (\<lambda>c. \<not> cf_dropped c) cs = edits_families edits ?i (live vs)"
    if a: "list_all2 alike edits batch" and set: "column_family_set vs2 = column_family_set vs" for batch vs2
  proof -
    define upd where "upd = (\<lambda>x :: ColumnFamilyData. x\<lparr>cf_log_number := (if max_log_number_in_batch batch \<noteq> 0
        then max_log_number_in_batch batch else cf_log_number x), cf_current := SaveTo ?icmp b\<rparr>)"
    have "list_all (batch_edit c) batch" "batch \<noteq> []"
      using alike_batch(1) [OF a r(4)] a ne by auto
    then have "install (mw_cfd w) opt batch (SaveTo ?icmp b) vs2 = Some (update_cf ?i upd vs2)"
      by (cases batch) (auto simp: install_def r(2) batch_edit_def IsColumnFamilyManipulation_def upd_def)
    moreover have "upd c = fold edit_family edits c"
      unfolding b upd_def alike_batch(3) [OF a] ..
    then have "live (update_cf ?i upd vs2) = edits_families edits ?i (live vs)"
      using installed_live [OF ok r(1), of vs2 upd edits] set by (simp add: upd_def live_def)
    ultimately show ?thesis
      by (intro exI [of _ "column_family_set (update_cf ?i upd vs2)"] exI [of _ "vs_max_column_family vs2"]) (simp add: live_def update_cf_def)
  qed
  have "db_ok opts (edits_families edits ?i (live vs))"
    using edits_families_ok [OF ok r(1,4,5)] assms(1) unfolding db_ok_def by (cases "live vs") simp_all
  moreover have "list_all encodable ?b"
    using alike_encodable [OF alike_helpers [of edits vs]] r(4) by (auto simp: list_all_iff batch_edit_def)
  moreover have "\<not> (case mw_cfd w of None \<Rightarrow> False | Some i \<Rightarrow> GetColumnFamily i vs = None)"
    using r(2) found by simp
  moreover have alike: "list_all2 alike edits batch" if "list_all2 alike ?b batch" for batch
    using alike_trans [OF alike_helpers that] .
  ultimately show ?thesis
    unfolding commits_def using r(3) collected ne helper_last [OF ne, of vs] installs replay_alike_batch [OF ok assms(2) _ _ _ ne] by blast
qed

text \<open>
  The requests that \<open>LogAndApply\<close> serves and the families they lead to: edits of the files of a family, a new family, and the end of a
  family other than the default one.
\<close>

inductive request ::
    "(bytes \<rightharpoonup> CFOptions) \<Rightarrow> VersionSet \<Rightarrow> CFOptions option \<Rightarrow> ManifestWriter \<Rightarrow> ManifestWriter list \<Rightarrow> ColumnFamilyData list \<Rightarrow> nat \<Rightarrow> bool"
    for opts vs where
  files: "file_request vs w ws c edits \<Longrightarrow>
    request opts vs opt w ws (edits_families edits (cf_id c) (live vs)) (length (group_commit (cf_id c) ws))"
| add: "mw_cfd w = None \<Longrightarrow> edit_list w = [e] \<Longrightarrow> is_column_family_add e \<Longrightarrow> \<not> is_column_family_drop e \<Longrightarrow> encodable e \<Longrightarrow>
    family_ok opts (created opt e) \<Longrightarrow> column_family e \<notin> cf_id ` set (live vs) \<Longrightarrow>
    (has_comparator e \<longrightarrow> comparator_name e = comparator_Name opt) \<Longrightarrow>
    request opts vs (Some opt) w ws (live vs @ [created opt e]) 0"
| drop: "mw_cfd w = Some (cf_id c) \<Longrightarrow> c \<in> set (live vs) \<Longrightarrow> cf_id c \<noteq> 0 \<Longrightarrow> edit_list w = [e] \<Longrightarrow> is_column_family_drop e \<Longrightarrow>
    \<not> is_column_family_add e \<Longrightarrow> encodable e \<Longrightarrow> column_family e = cf_id c \<Longrightarrow>
    request opts vs opt w ws (filter (\<lambda>x. cf_id x \<noteq> cf_id c) (live vs)) 0"

lemma alike_cf_helper: "alike e (LogAndApplyCFHelper vs e)"
  by (auto simp: LogAndApplyCFHelper_def Let_def intro!: alike_set alike_refl)

lemma cf_helper_numbers:
  "has_next_file_number (LogAndApplyCFHelper vs e)" "next_file_number (LogAndApplyCFHelper vs e) = vs_next_file_number vs"
  "has_last_sequence (LogAndApplyCFHelper vs e)" "last_sequence (LogAndApplyCFHelper vs e) = vs_last_sequence vs"
  by (simp_all add: LogAndApplyCFHelper_def Let_def SetNextFile_def SetLastSequence_def SetMaxColumnFamily_def)

text \<open>For requests of one edit it is enough to look at that edit.\<close>

lemma commits_one:
  assumes "edit_list w = [e]" and "\<not> (case mw_cfd w of None \<Rightarrow> False | Some i \<Rightarrow> GetColumnFamily i vs = None)"
    and "IsColumnFamilyManipulation e" and "encodable e" and "db_ok opts cs'"
    and "\<And>e' rc. alike e e' \<Longrightarrow> represents (live vs) rc \<Longrightarrow> have_log_number rc \<Longrightarrow>
      \<exists>rc'. Recover_edit opts (as_read e') rc = Some rc' \<and> represents cs' rc' \<and> have_log_number rc' \<and> numbers rc' = numbers (recover_numbers e' rc)"
    and "\<And>e' vs2. alike e e' \<Longrightarrow> column_family_set vs2 = column_family_set vs \<Longrightarrow> \<exists>cs m. install (mw_cfd w) opt [e'] [] vs2
      = Some (vs2\<lparr>column_family_set := cs, vs_max_column_family := m\<rparr>) \<and> filter (\<lambda>c. \<not> cf_dropped c) cs = cs'"
  shows "commits opts opt w ws vs cs' 0"
proof -
  let ?b = "[LogAndApplyCFHelper vs e]"
  have "collect_batch w ws vs = Some (?b, [], 0)"
    using assms(1,3) by (simp add: collect_batch_def)
  moreover have "list_all encodable ?b"
    using assms(4) alike_cf_helper [of e vs] by (simp add: alike_def)
  moreover have "(\<forall>rc. represents (live vs) rc \<and> have_log_number rc \<longrightarrow> (\<exists>rc'. replay opts batch rc = Some rc' \<and> represents cs' rc' \<and> ends_with batch rc'))
     \<and> (\<forall>vs2. column_family_set vs2 = column_family_set vs \<longrightarrow> (\<exists>cs m. install (mw_cfd w) opt batch [] vs2
           = Some (vs2\<lparr>column_family_set := cs, vs_max_column_family := m\<rparr>) \<and> filter (\<lambda>c. \<not> cf_dropped c) cs = cs'))"
    if alike: "list_all2 alike ?b batch" for batch
  proof -
    obtain e' where e': "batch = [e']" "alike e e'"
      using alike_trans [of "[e]" ?b batch] alike_cf_helper alike by (auto simp: list_all2_Cons1)
    have "\<exists>rc'. replay opts batch rc = Some rc' \<and> represents cs' rc' \<and> ends_with batch rc'" if rc: "represents (live vs) rc" "have_log_number rc" for rc
    proof -
      obtain rc' where rc': "Recover_edit opts (as_read e') rc = Some rc'" "represents cs' rc'" "have_log_number rc'"
        "numbers rc' = numbers (recover_numbers e' rc)"
        using assms(6) [OF e'(2) rc] by blast
      then have "ends_with batch rc'"
        by (auto simp: ends_with_def e'(1) numbers_def [of rc'])
      then show ?thesis
        using rc' by (simp add: e'(1))
    qed
    then show ?thesis
      using assms(7) [OF e'(2)] e'(1) by blast
  qed
  ultimately show ?thesis
    unfolding commits_def using assms(1,2,5) cf_helper_numbers by fastforce
qed

lemma add_commits:
  assumes "db_ok opts (live vs)" and "mw_cfd w = None" "edit_list w = [e]" "is_column_family_add e" "\<not> is_column_family_drop e" "encodable e"
    "family_ok opts (created opt e)" "column_family e \<notin> cf_id ` set (live vs)" "has_comparator e \<longrightarrow> comparator_name e = comparator_Name opt"
  shows "commits opts (Some opt) w ws vs (live vs @ [created opt e]) 0"
proof (rule commits_one [OF assms(3)])
  show "db_ok opts (live vs @ [created opt e])"
    using assms(1,7,8) by (auto simp: db_ok_def families_ok_def created_def)
  fix e'
  assume a: "alike e e'"
  then have same: "created opt e' = created opt e" "column_family e' = column_family e" "is_column_family_add e'"
    "column_family_name e' = column_family_name e" "has_comparator e' \<Longrightarrow> comparator_name e' = comparator_Name opt"
    using assms(4,9) by (auto simp: alike_def created_def)
  show "\<exists>rc'. Recover_edit opts (as_read e') rc = Some rc' \<and> represents (live vs @ [created opt e]) rc' \<and> have_log_number rc'
      \<and> numbers rc' = numbers (recover_numbers e' rc)" if rep: "represents (live vs) rc" "have_log_number rc" for rc
  proof -
    have new: "opts (column_family_name e') = Some opt" "column_family e' \<notin> cf_id ` set (live vs)"
      using assms(7,8) same by (simp_all add: family_ok_def created_def)
    obtain rc' where "Recover_edit opts (as_read e') rc = Some rc'" "represents (live vs @ [created opt e']) rc'"
      "have_log_number rc' = (have_log_number rc \<or> has_log_number e')" "numbers rc' = numbers (recover_numbers e' rc)"
      by (rule Recover_edit_add [where e = e' and opts = opts and opt = opt, OF rep(1) same(3) new same(5)]) (assumption, rule that)
    then show ?thesis
      using rep(2) same(1) by auto
  qed
  show "\<exists>cs m. install (mw_cfd w) (Some opt) [e'] [] vs2 = Some (vs2\<lparr>column_family_set := cs, vs_max_column_family := m\<rparr>)
      \<and> filter (\<lambda>c. \<not> cf_dropped c) cs = live vs @ [created opt e]" if "column_family_set vs2 = column_family_set vs" for vs2
    using same that by (auto simp: install_def CreateColumnFamily_eq UpdateMaxColumnFamily_def live_def) (auto simp: created_def)
qed (use assms in \<open>simp_all add: IsColumnFamilyManipulation_def\<close>)

lemma drop_commits:
  assumes "db_ok opts (live vs)" and "mw_cfd w = Some (cf_id c)" "c \<in> set (live vs)" "cf_id c \<noteq> 0" "edit_list w = [e]" "is_column_family_drop e"
    "\<not> is_column_family_add e" "encodable e" "column_family e = cf_id c"
  shows "commits opts opt w ws vs (filter (\<lambda>x. cf_id x \<noteq> cf_id c) (live vs)) 0"
proof (rule commits_one [OF assms(5)])
  let ?cs = "filter (\<lambda>x. cf_id x \<noteq> cf_id c) (live vs)"
  have ok: "families_ok opts (live vs)"
    using assms(1) by (simp add: db_ok_def)
  show "\<not> (case mw_cfd w of None \<Rightarrow> False | Some i \<Rightarrow> GetColumnFamily i vs = None)"
    using GetColumnFamily_live [OF ok assms(3)] assms(2) by simp
  show "db_ok opts ?cs"
    using assms(1,4) by (cases "live vs") (auto simp: db_ok_def families_ok_def distinct_map_filter)
  fix e'
  assume a: "alike e e'"
  then have same: "column_family e' = cf_id c" "is_column_family_drop e'" "\<not> is_column_family_add e'"
    using assms(6,7,9) by (auto simp: alike_def)
  show "\<exists>rc'. Recover_edit opts (as_read e') rc = Some rc' \<and> represents ?cs rc' \<and> have_log_number rc' \<and> numbers rc' = numbers (recover_numbers e' rc)"
    if rep: "represents (live vs) rc" "have_log_number rc" for rc
  proof -
    let ?rc = "rc\<lparr>rc_builders := (rc_builders rc)(cf_id c := None),
      rc_vs := (rc_vs rc)\<lparr>column_family_set := filter (\<lambda>x. cf_id x \<noteq> cf_id c) (column_family_set (rc_vs rc))\<rparr>\<rparr>"
    have "rc_builders rc (cf_id c) \<noteq> None"
      using rep(1) assms(3) by (auto simp: represents_def)
    then have "Recover_edit opts (as_read e') rc = Some (recover_numbers e' ?rc)"
      using same by (simp add: Recover_edit_def Let_def)
    moreover have "represents ?cs (recover_numbers e' ?rc)"
    proof -
      have "filter (\<lambda>x. cf_id x \<noteq> cf_id c) (map blank (live vs)) = map blank ?cs"
        by (simp add: filter_map comp_def blank_def)
      moreover have "dom ((rc_builders rc)(cf_id c := None)) = cf_id ` set ?cs"
        using rep(1) by (auto simp: represents_def)
      ultimately show ?thesis
        using rep(1) by (simp add: represents_def)
    qed
    ultimately show ?thesis
      using rep(2) by simp
  qed
  show "\<exists>cs m. install (mw_cfd w) opt [e'] [] vs2 = Some (vs2\<lparr>column_family_set := cs, vs_max_column_family := m\<rparr>)
      \<and> filter (\<lambda>c. \<not> cf_dropped c) cs = ?cs" if set: "column_family_set vs2 = column_family_set vs" for vs2
  proof -
    have "filter (\<lambda>c. \<not> cf_dropped c) (map (\<lambda>x. if cf_id x = cf_id c \<and> \<not> cf_dropped x then x\<lparr>cf_dropped := True\<rparr> else x) cs)
        = filter (\<lambda>x. cf_id x \<noteq> cf_id c) (filter (\<lambda>c. \<not> cf_dropped c) cs)" for cs :: "ColumnFamilyData list"
      by (induction cs) auto
    then show ?thesis
      using same set by (intro exI [of _ "column_family_set (update_cf (cf_id c) (cf_dropped_update (\<lambda>_. True)) vs2)"]
          exI [of _ "vs_max_column_family vs2"]) (simp add: install_def assms(2) update_cf_def live_def)
  qed
qed (use assms in \<open>simp_all add: IsColumnFamilyManipulation_def\<close>)

lemma request_commits:
  assumes "db_ok opts (live vs)" and "request opts vs opt w ws cs' k"
  shows "commits opts opt w ws vs cs' k"
  using assms(2) by cases (use file_request_commits add_commits drop_commits assms(1) in auto)


section \<open>Failures\<close>

lemma choose_manifest_keeps:
  assumes "choose_manifest env nd batch vs = (pending, vs', batch', nd')"
  shows "column_family_set vs' = column_family_set vs" "manifest_file_number vs' = manifest_file_number vs"
    "pending = vs_next_file_number vs \<or> pending = manifest_file_number vs \<and> descriptor_log vs \<noteq> None"
  using assms by (auto simp: choose_manifest_def NewFileNumber_def split: if_splits)

text \<open>What a step that writes the manifest \<open>pending\<close> leaves alone.\<close>

definition keeps :: "u64 \<Rightarrow> VersionSet \<Rightarrow> Disk \<Rightarrow> VersionSet \<Rightarrow> Disk \<Rightarrow> bool" where
  "keeps pending vs disk vs' disk' \<longleftrightarrow> column_family_set vs' = column_family_set vs \<and> manifest_file_number vs' = manifest_file_number vs
     \<and> CURRENT disk' = CURRENT disk \<and> (\<forall>n. n \<noteq> pending \<longrightarrow> manifests disk' n = manifests disk n)"

lemma create_manifest_keeps: "create_manifest env pending vs disk = (s, vs', disk') \<Longrightarrow> keeps pending vs disk vs' disk'"
  by (auto simp: create_manifest_def keeps_def split: if_splits prod.splits)

lemma write_batch_keeps: "write_batch env pending batch vs disk = Some (s, vs', disk') \<Longrightarrow> keeps pending vs disk vs' disk'"
  by (cases "descriptor_log vs") (auto simp: write_batch_def keeps_def split: prod.splits)

lemma write_manifest_keeps:
  assumes "write_manifest env pending nd batch vs disk = Some (s, vs', disk')" and "\<not> ok s"
  shows "keeps pending vs disk vs' disk'"
proof -
  obtain s1 vs1 disk1 where c: "(if nd then create_manifest env pending vs disk else (OK, vs, disk)) = (s1, vs1, disk1)"
    by (metis prod_cases3)
  have k1: "keeps pending vs disk vs1 disk1"
    using c create_manifest_keeps by (auto simp: keeps_def split: if_splits)
  show ?thesis
  proof (cases "ok s1")
    case True
    then obtain s2 vs2 disk2 where w: "write_batch env pending batch vs1 disk1 = Some (s2, vs2, disk2)"
      using assms(1) c by (cases "write_batch env pending batch vs1 disk1") (auto simp: write_manifest_def)
    then have d: "vs2 = vs'" "(if ok s2 \<and> nd then SetCurrentFile env pending disk2 else (s2, disk2)) = (s, disk')"
      using assms(1) c True by (auto simp: write_manifest_def split_def prod_eq_iff Let_def split: if_splits)
    have "disk' = disk2"
      using d assms(2) by (auto simp: SetCurrentFile_def split: if_splits)
    then show ?thesis
      using k1 write_batch_keeps [OF w] d(1) by (simp add: keeps_def)
  next
    case False
    then show ?thesis
      using assms(1) c k1 by (auto simp: write_manifest_def)
  qed
qed

text \<open>C20: A call that fails changes neither the families in memory nor the manifest that \<open>CURRENT\<close> names, and of the files only
  the manifest in use and the one that was about to be created; when no manifest is open, only the latter.\<close>

theorem LogAndApply_failure:
  assumes "LogAndApply env new_descriptor_log opt w ws vs disk = Some (s, k, vs', disk')" and "\<not> ok s"
  shows "column_family_set vs' = column_family_set vs \<and> manifest_file_number vs' = manifest_file_number vs \<and> CURRENT disk' = CURRENT disk
    \<and> (\<forall>n. n \<noteq> vs_next_file_number vs \<longrightarrow> n \<noteq> manifest_file_number vs \<or> descriptor_log vs = None \<longrightarrow> manifests disk' n = manifests disk n)"
proof -
  define dropped where "dropped \<longleftrightarrow> (case mw_cfd w of None \<Rightarrow> False | Some i \<Rightarrow> GetColumnFamily i vs = None)"
  have ne: "edit_list w \<noteq> []"
    using assms by (auto simp: LogAndApply_def)
  show ?thesis
  proof (cases dropped)
    case True
    then show ?thesis
      using assms ne by (auto simp: LogAndApply_def dropped_def)
  next
    case False
    note call = assms(1) [unfolded LogAndApply_def dropped_def [symmetric]]
    obtain b v k' where b: "collect_batch w ws vs = Some (b, v, k')"
      using call ne False by (cases "collect_batch w ws vs") auto
    obtain pending vs1 batch nd where p: "choose_manifest env new_descriptor_log b vs = (pending, vs1, batch, nd)"
      by (metis prod_cases4)
    obtain s2 vs2 disk2 where m: "write_manifest env pending nd batch vs1 disk = Some (s2, vs2, disk2)"
      using call ne False b p by (cases "write_manifest env pending nd batch vs1 disk") auto
    have "s2 = s" "vs' = (if nd then vs2\<lparr>descriptor_log := None\<rparr> else vs2)"
      "disk' = (if nd then disk2\<lparr>manifests := (manifests disk2)(pending := None)\<rparr> else disk2)"
      using call ne False b p m assms(2) by (auto simp: bind_eq_Some_conv split: if_splits)
    then show ?thesis
      using choose_manifest_keeps [OF p] write_manifest_keeps [OF m] assms(2) by (auto simp: keeps_def)
  qed
qed

text \<open>C21: A failed call is not undone in the manifest.  If the manifest is open and small enough to be used again and only the last step, its
  synchronisation, fails, the call returns the error and installs nothing, but the edits stay in the manifest, and the next \<open>Recover\<close>
  applies them.\<close>

theorem failed_edits_recovered:
  assumes "consistent opts vs disk" and "descriptor_log vs \<noteq> None" and "manifest_file_size vs \<le> max_manifest_file_size env"
    and "\<not> ok (sync_status env)" and "request opts vs opt w ws cs' k"
  shows "\<exists>vs' disk' n file rvs. LogAndApply env False opt w ws vs disk = Some (sync_status env, k, vs', disk')
    \<and> live vs' = live vs \<and> CURRENT disk' = Some n \<and> manifests disk' n = Some file
    \<and> Recover opts False n file new_VersionSet = Some (OK, rvs) \<and> column_family_set rvs = cs'"
proof -
  let ?n = "manifest_file_number vs"
  have com: "commits opts opt w ws vs cs' k"
    using request_commits assms(1,5) by (simp add: consistent_def)
  then obtain b v where w: "edit_list w \<noteq> []" "\<not> (case mw_cfd w of None \<Rightarrow> False | Some i \<Rightarrow> GetColumnFamily i vs = None)"
    and b: "collect_batch w ws vs = Some (b, v, k)" "has_next_file_number (last b)" "has_last_sequence (last b)" "list_all encodable b"
    and replays: "\<And>rc. represents (live vs) rc \<Longrightarrow> have_log_number rc \<Longrightarrow> \<exists>rc'. replay opts b rc = Some rc' \<and> represents cs' rc' \<and> ends_with b rc'"
    unfolding commits_def using list_all2_refl [of alike, OF alike_refl] by blast
  have choose: "choose_manifest env False b vs = (?n, vs, b, False)"
    using assms(2,3) by (auto simp: choose_manifest_def)
  obtain es rc dopt where es: "descriptor_log vs = Some (written empty_log (map encoded es))" "list_all encodable es"
    "opts kDefaultColumnFamilyName = Some dopt" "replay opts es (Recover_start dopt (new_VersionSet\<lparr>manifest_file_number := ?n\<rparr>)) = Some rc"
    "represents (live vs) rc" "have_log_number rc" "CURRENT disk = Some ?n"
    using assms(1,2) by (auto simp: consistent_def synced_def)
  obtain rc' where rc': "replay opts b rc = Some rc'" "represents cs' rc'" "have_log_number rc'" "have_next_file rc'" "have_last_sequence rc'"
    using replays [OF es(5,6)] b(2,3) by (auto simp: ends_with_def)
  have "write_edits b (written empty_log (map encoded es)) = (OK, written empty_log (map encoded (es @ b)))"
    using write_edits_encodable [OF written_good [OF empty_log_good] b(4)] by (simp add: written_append)
  then have "LogAndApply env False opt w ws vs disk = Some (sync_status env, k,
      vs\<lparr>descriptor_log := Some (written empty_log (map encoded (es @ b)))\<rparr>, disk\<lparr>manifests := (manifests disk)(?n \<mapsto> manifest (es @ b))\<rparr>)"
    using w b(1) choose es(1) assms(4) by (simp add: LogAndApply_def write_manifest_def write_batch_def)
  moreover obtain rvs where "Recover_finish False (length (manifest (es @ b))) rc' = (OK, rvs)" "column_family_set rvs = cs'"
    by (rule Recover_finish_represents [OF _ rc'(2-5)]) (use com that in \<open>auto simp: commits_def db_ok_def\<close>)
  moreover have "replay opts (es @ b) (Recover_start dopt (new_VersionSet\<lparr>manifest_file_number := ?n\<rparr>)) = Some rc'"
    using replay_append [of "Recover_start dopt (new_VersionSet\<lparr>manifest_file_number := ?n\<rparr>)"] es(4,5) rc'(1) by (simp add: represents_def)
  ultimately show ?thesis
    using Recover_manifest [of "es @ b" opts dopt False ?n new_VersionSet] es(2,3,7) b(4) by (simp add: live_def)
qed

section \<open>An example\<close>

text \<open>A new database with two levels, and the flush of a first file.\<close>

definition example_options :: CFOptions where
  "example_options = \<lparr>num_levels = 2, comparator_Name = [98], internal_comparator = InternalKeyComparator_Compare BytewiseComparator_Compare\<rparr>"

definition example_opts :: "bytes \<rightharpoonup> CFOptions" where
  "example_opts = [kDefaultColumnFamilyName \<mapsto> example_options]"

definition example_family :: ColumnFamilyData where
  "example_family = \<lparr>cf_id = 0, cf_name = kDefaultColumnFamilyName, cf_options = example_options, cf_log_number = 0, cf_dropped = False,
     cf_current = [[], []]\<rparr>"

definition example_set :: VersionSet where
  "example_set = new_VersionSet\<lparr>column_family_set := [example_family]\<rparr>"

definition example_env :: ManifestEnv where
  "example_env = \<lparr>new_file_status = OK, new_append_status = OK, new_flush_status = OK, sync_status = OK, current_status = OK,
     max_manifest_file_size = 1000\<rparr>"

definition example_writer :: ManifestWriter where
  "example_writer = \<lparr>mw_cfd = Some 0, edit_list = [example_flush]\<rparr>"

lemma example_keys: "InternalKey_Valid [97, 1, 5, 0, 0, 0, 0, 0, 0]" "InternalKey_Valid [99, 1, 6, 0, 0, 0, 0, 0, 0]"
  by code_simp+

lemma example_flush_encodable: "encodable example_flush"
  using example_keys by (simp add: encodable_def example_flush_def AddFile_def Clear_def edit_wf_def file_wf_def valid_file_def is_int32_def short_def)

lemma example_live: "live example_set = [example_family]"
  by (simp add: live_def example_set_def example_family_def)

lemma example_db_ok: "db_ok example_opts [example_family]"
  by (auto simp: db_ok_def families_ok_def family_ok_def example_family_def example_opts_def example_options_def short_def
      kDefaultColumnFamilyName_def builtin_comparators_def version_ok_def ordered_level_def nth_Cons')

lemma example_consistent: "consistent example_opts example_set disk"
  using example_db_ok by (simp add: consistent_def example_live) (simp add: example_set_def new_VersionSet_def)

lemma example_fits: "edits_fit (InternalKeyComparator_Compare BytewiseComparator_Compare) [[], []] [example_flush]"
  "fresh_in [[], []] example_flush"
  by code_simp+

lemma example_request:
  assumes "live vs = [example_family]"
  shows "file_request vs example_writer [] example_family [example_flush]"
  using example_fits example_flush_encodable
  by (simp add: file_request_def assms group_commit_def example_writer_def batch_edit_def example_family_def example_options_def)
    (simp add: example_flush_def AddFile_def Clear_def IsColumnFamilyManipulation_def)

lemma example_applied:
  "map (map file_number) (cf_current (fold edit_family [example_flush] example_family)) = [[9], []]"
  by code_simp


lemma LogAndApply_failure_witness:
  "\<exists>vs' disk'. LogAndApply (example_env\<lparr>new_file_status := Status kIOError []\<rparr>) False None example_writer [] example_set
      \<lparr>CURRENT = Some 1, manifests = [1 \<mapsto> [7]]\<rparr> = Some (Status kIOError [], 0, vs', disk')
    \<and> column_family_set vs' = [example_family] \<and> CURRENT disk' = Some 1 \<and> manifests disk' 1 = Some [7]"
proof -
  let ?disk = "\<lparr>CURRENT = Some 1, manifests = [1 \<mapsto> [7]]\<rparr>" and ?env = "example_env\<lparr>new_file_status := Status kIOError []\<rparr>"
  have fam: "families_ok example_opts (live example_set)"
    using example_db_ok by (simp add: db_ok_def example_live)
  have "\<exists>vs' disk'. LogAndApply ?env False None example_writer [] example_set ?disk = Some (Status kIOError [], 0, vs', disk')"
    by (rule file_request_collected [OF fam example_request [OF example_live]])
      (simp add: LogAndApply_def example_writer_def example_set_def new_VersionSet_def choose_manifest_def write_manifest_def create_manifest_def
        NewFileNumber_def example_env_def ok_def group_commit_def example_family_def)
  then obtain vs' disk' where call: "LogAndApply ?env False None example_writer [] example_set ?disk = Some (Status kIOError [], 0, vs', disk')"
    by blast
  then show ?thesis
    using LogAndApply_failure [OF call] by (auto simp: ok_def example_set_def new_VersionSet_def)
qed

text \<open>The same database with its first manifest, a snapshot.\<close>

definition example_open :: VersionSet where
  "example_open = example_set\<lparr>manifest_file_number := 1, descriptor_log := Some (written empty_log (map encoded (snapshot_edits example_set)))\<rparr>"

definition example_disk :: Disk where
  "example_disk = \<lparr>CURRENT = Some 1, manifests = [1 \<mapsto> manifest (snapshot_edits example_set)]\<rparr>"

lemma example_open_live: "live example_open = [example_family]"
  using example_live by (simp add: live_def example_open_def)

lemma example_open_consistent: "consistent example_opts example_open example_disk"
proof -
  have db: "db_ok example_opts (live example_set)" "families_ok example_opts (live example_set)"
    using example_db_ok by (simp_all add: example_live db_ok_def)
  have "column_family_set (new_VersionSet\<lparr>manifest_file_number := 1\<rparr>) = []"
    by (simp add: new_VersionSet_def)
  then obtain opt rc where "example_opts kDefaultColumnFamilyName = Some opt"
    "replay example_opts (snapshot_edits example_set) (Recover_start opt (new_VersionSet\<lparr>manifest_file_number := 1\<rparr>)) = Some rc"
    "represents (live example_set) rc" "have_log_number rc"
    by (rule replay_snapshot [OF db(1)]) (rule that)
  then have "synced example_opts example_open example_disk"
    unfolding synced_def example_open_live using snapshot_encodable [OF db(2)]
    by (intro exI [of _ "snapshot_edits example_set"] exI [of _ rc] exI [of _ opt])
      (simp add: example_open_def example_disk_def example_live)
  then show ?thesis
    using example_db_ok by (simp add: consistent_def example_open_live)
qed

lemma failed_edits_recovered_witness:
  "\<exists>vs' disk' n file rvs. LogAndApply (example_env\<lparr>sync_status := Status kIOError []\<rparr>) False None example_writer [] example_open example_disk
      = Some (Status kIOError [], 0, vs', disk') \<and> map (\<lambda>c. map (map file_number) (cf_current c)) (live vs') = [[[], []]]
    \<and> CURRENT disk' = Some n \<and> manifests disk' n = Some file \<and> Recover example_opts False n file new_VersionSet = Some (OK, rvs)
    \<and> map (\<lambda>c. map (map file_number) (cf_current c)) (column_family_set rvs) = [[[9], []]]"
proof -
  let ?env = "example_env\<lparr>sync_status := Status kIOError []\<rparr>"
  have "descriptor_log example_open \<noteq> None" "manifest_file_size example_open \<le> max_manifest_file_size ?env" "\<not> ok (sync_status ?env)"
    by (simp_all add: example_open_def example_env_def example_set_def new_VersionSet_def ok_def)
  from failed_edits_recovered [OF example_open_consistent this request.files [OF example_request [OF example_open_live], of example_opts None]] show ?thesis
    using example_applied unfolding example_open_live by (auto simp: group_commit_def example_family_def)
qed

lemma example_torn: "survivors 3 empty_log [encoded example_flush] = []"
proof -
  obtain out off where w: "snd (AddRecord (encoded example_flush) empty_log) = empty_log\<lparr>dest := dest empty_log @ out, block_offset := off\<rparr>"
    and f: "framed False 0 0 True (encoded example_flush) out off"
    by (rule AddRecord_good [OF empty_log_good, of "encoded example_flush"]) (auto simp: empty_log_def new_Writer_def)
  have "frags False 0 0 True (encoded example_flush) out off"
    using f by (simp add: framed_def hs_def kBlockSize_def kHeaderSize_def)
  then have "7 \<le> length out"
    by (cases rule: frags.cases) (simp_all add: hs_def kHeaderSize_def)
  then show ?thesis
    using w by (simp add: empty_log_def new_Writer_def)
qed

lemma manifest_recovery_witness:
  "\<exists>vs. Recover example_opts False 1 (take 3 (manifest [example_flush])) new_VersionSet = Some (Corruption ''no meta-nextfile entry in descriptor'', vs)"
proof -
  have "list_all encodable [example_flush]" "example_opts kDefaultColumnFamilyName = Some example_options"
    using example_flush_encodable by (simp_all add: example_opts_def)
  then show ?thesis
    using manifest_recovery [where es = "[example_flush]" and cf_name_to_options = example_opts and opts = example_options and read_only = False
        and n = 1 and m = 3 and vs = new_VersionSet] example_torn by (simp add: Recover_finish_def Recover_start_def CreateColumnFamily_def Let_def)
qed

end
