(* ===== verification/Thread_Pool.thy ===== *)
theory Thread_Pool
  imports Prelude
begin

text \<open>
  The background thread pool of util/threadpool_imp.cc (\<open>ThreadPoolImpl::Impl\<close>) and the two
  pools the environment keeps (env/env_posix.cc).  Every routine runs under the pool's mutex, so
  it is a function of the pool's state; \<open>BGThread\<close> is the function a worker runs each time it
  holds the mutex, with the decision it takes as its result.  The jobs are values of a type
  parameter, since the pool never looks inside them.

  The locale \<open>job_queue\<close> is what the database relies on: a first-in first-out queue whose entries
  can be withdrawn by tag.  It is interpreted on the pool's own operations.
\<close>

section \<open>State\<close>

datatype Priority = LOW | HIGH

record 'j BGItem =
  tag :: "nat option"
  func :: 'j
  unschedFunction :: "'j option"

record 'j pool =
  low_io_priority :: bool
  priority :: Priority
  total_threads_limit :: int
  queue_len :: u32
  exit_all_threads :: bool
  wait_for_jobs_to_complete :: bool
  queue :: "'j BGItem list"
  bgthreads :: nat

definition Impl :: "'j pool" where
  "Impl = \<lparr>low_io_priority = False, priority = LOW, total_threads_limit = 1, queue_len = 0,
     exit_all_threads = False, wait_for_jobs_to_complete = False, queue = [], bgthreads = 0\<rparr>"

section \<open>Operations\<close>

definition GetQueueLen :: "'j pool \<Rightarrow> u32" where
  "GetQueueLen p = queue_len p"

definition GetBackgroundThreads :: "'j pool \<Rightarrow> int" where
  "GetBackgroundThreads p = total_threads_limit p"

definition HasExcessiveThread :: "'j pool \<Rightarrow> bool" where
  "HasExcessiveThread p \<longleftrightarrow> total_threads_limit p < int (bgthreads p)"

definition IsLastExcessiveThread :: "'j pool \<Rightarrow> nat \<Rightarrow> bool" where
  "IsLastExcessiveThread p thread_id \<longleftrightarrow>
     HasExcessiveThread p \<and> int thread_id = int (bgthreads p) - 1"

definition IsExcessiveThread :: "'j pool \<Rightarrow> nat \<Rightarrow> bool" where
  "IsExcessiveThread p thread_id \<longleftrightarrow> total_threads_limit p \<le> int thread_id"

definition LowerIOPriority :: "'j pool \<Rightarrow> 'j pool" where
  "LowerIOPriority p = p\<lparr>low_io_priority := True\<rparr>"

text \<open>One thread is created per iteration while there are fewer than the limit.\<close>

function StartBGThreads :: "'j pool \<Rightarrow> 'j pool" where
  "StartBGThreads p =
     (if int (bgthreads p) < total_threads_limit p
      then StartBGThreads (p\<lparr>bgthreads := bgthreads p + 1\<rparr>) else p)"
  by pat_completeness auto
termination
  by (relation "measure (\<lambda>p. nat (total_threads_limit p - int (bgthreads p)))") auto

declare StartBGThreads.simps [simp del]

definition SetBackgroundThreadsInternal :: "int \<Rightarrow> bool \<Rightarrow> 'j pool \<Rightarrow> 'j pool" where
  "SetBackgroundThreadsInternal num allow_reduce p =
     (if exit_all_threads p then p
      else if total_threads_limit p < num \<or> (num < total_threads_limit p \<and> allow_reduce)
      then StartBGThreads (p\<lparr>total_threads_limit := max 0 num\<rparr>)
      else p)"

definition Submit :: "'j \<Rightarrow> 'j option \<Rightarrow> nat option \<Rightarrow> 'j pool \<Rightarrow> 'j pool" where
  "Submit schedule unschedule t p =
     (if exit_all_threads p then p
      else
        (let p = StartBGThreads p;
             q = queue p @ [\<lparr>tag = t, func = schedule, unschedFunction = unschedule\<rparr>]
         in p\<lparr>queue := q, queue_len := word_of_nat (length q)\<rparr>))"

text \<open>The loop of \<open>UnSchedule\<close>: what stays in the queue, the callbacks to run, and the count.\<close>

fun UnSchedule_loop ::
  "nat option \<Rightarrow> 'j BGItem list \<Rightarrow> 'j list \<Rightarrow> nat \<Rightarrow> 'j BGItem list \<times> 'j list \<times> nat" where
  "UnSchedule_loop arg [] candidates count = ([], candidates, count)"
| "UnSchedule_loop arg (it # its) candidates count =
     (if arg = tag it then
        UnSchedule_loop arg its
          (case unschedFunction it of Some f \<Rightarrow> candidates @ [f] | None \<Rightarrow> candidates) (count + 1)
      else
        (case UnSchedule_loop arg its candidates count of (q, c, n) \<Rightarrow> (it # q, c, n)))"

definition UnSchedule :: "nat option \<Rightarrow> 'j pool \<Rightarrow> 'j pool \<times> 'j list \<times> nat" where
  "UnSchedule arg p =
     (case UnSchedule_loop arg (queue p) [] 0 of
        (q, candidates, count) \<Rightarrow>
          (p\<lparr>queue := q, queue_len := word_of_nat (length q)\<rparr>, candidates, count))"

text \<open>\<open>JoinThreads\<close> announces the exit, waits for every thread, and then resets the flags.\<close>

definition JoinThreads_begin :: "bool \<Rightarrow> 'j pool \<Rightarrow> 'j pool" where
  "JoinThreads_begin wait_for_jobs p =
     p\<lparr>wait_for_jobs_to_complete := wait_for_jobs, exit_all_threads := True\<rparr>"

definition JoinThreads_end :: "'j pool \<Rightarrow> 'j pool" where
  "JoinThreads_end p =
     p\<lparr>bgthreads := 0, exit_all_threads := False, wait_for_jobs_to_complete := False\<rparr>"

text \<open>
  One turn of \<open>BGThread\<close>: wait for a signal, leave because the pool is joined, leave as the last
  excessive thread (waking the others when more are excessive), or run the job at the front.
  \<open>EmptyFront\<close> marks a call of \<open>front()\<close> on an empty deque, which the code must never make.
\<close>

datatype 'j bg_action = WaitSignal | ExitThread | Detach bool | RunJob 'j | EmptyFront

definition BGThread :: "nat \<Rightarrow> 'j pool \<Rightarrow> 'j bg_action \<times> 'j pool" where
  "BGThread thread_id p =
     (if \<not> exit_all_threads p \<and> \<not> IsLastExcessiveThread p thread_id
         \<and> (queue p = [] \<or> IsExcessiveThread p thread_id)
      then (WaitSignal, p)
      else if exit_all_threads p \<and> (\<not> wait_for_jobs_to_complete p \<or> queue p = [])
      then (ExitThread, p)
      else if IsLastExcessiveThread p thread_id
      then (let p' = p\<lparr>bgthreads := bgthreads p - 1\<rparr> in (Detach (HasExcessiveThread p'), p'))
      else (case queue p of
              [] \<Rightarrow> (EmptyFront, p)
            | it # q \<Rightarrow>
                (RunJob (func it), p\<lparr>queue := q, queue_len := word_of_nat (length q)\<rparr>)))"

section \<open>The pool as a queue of jobs\<close>

definition pool_inv :: "'j pool \<Rightarrow> bool" where
  "pool_inv p \<longleftrightarrow> queue_len p = word_of_nat (length (queue p)) \<and> \<not> exit_all_threads p"

lemma StartBGThreads_eq:
  "StartBGThreads p = p\<lparr>bgthreads := max (bgthreads p) (nat (total_threads_limit p))\<rparr>"
proof (induction p rule: StartBGThreads.induct)
  case (1 p)
  show ?case
  proof (cases "int (bgthreads p) < total_threads_limit p")
    case True
    with 1 have "StartBGThreads p =
        p\<lparr>bgthreads := max (bgthreads p + 1) (nat (total_threads_limit p))\<rparr>"
      by (simp add: StartBGThreads.simps[of p])
    moreover have "max (bgthreads p + 1) (nat (total_threads_limit p)) =
        max (bgthreads p) (nat (total_threads_limit p))"
      using True by linarith
    ultimately show ?thesis by simp
  next
    case False
    then show ?thesis by (simp add: StartBGThreads.simps[of p] max_def)
  qed
qed

lemma UnSchedule_loop_eq:
  "UnSchedule_loop arg its cs n =
     (filter (\<lambda>it. tag it \<noteq> arg) its,
      cs @ List.map_filter unschedFunction (filter (\<lambda>it. tag it = arg) its),
      n + length (filter (\<lambda>it. tag it = arg) its))"
  by (induction arg its cs n rule: UnSchedule_loop.induct)
    (auto simp: List.map_filter_simps split: option.split)

lemmas UnSchedule_eq = UnSchedule_def[unfolded UnSchedule_loop_eq, simplified]

locale job_queue =
  fixes invar :: "'q \<Rightarrow> bool" and jobs :: "'q \<Rightarrow> (nat option \<times> 'j) list"
    and put :: "'j \<Rightarrow> 'j option \<Rightarrow> nat option \<Rightarrow> 'q \<Rightarrow> 'q"
    and withdraw :: "nat option \<Rightarrow> 'q \<Rightarrow> 'q \<times> 'j list \<times> nat"
    and take_job :: "nat \<Rightarrow> 'q \<Rightarrow> 'j bg_action \<times> 'q"
  assumes put: "invar q \<Longrightarrow> jobs (put f u t q) = jobs q @ [(t, f)] \<and> invar (put f u t q)"
    and withdraw: "invar q \<Longrightarrow> withdraw t q = (q', cs, n) \<Longrightarrow>
      jobs q' = filter (\<lambda>j. fst j \<noteq> t) (jobs q) \<and> n + length (jobs q') = length (jobs q) \<and> invar q'"
    and take_job: "invar q \<Longrightarrow> take_job i q = (RunJob f, q') \<Longrightarrow>
      \<exists>t. jobs q = (t, f) # jobs q' \<and> invar q'"
    and take_other: "invar q \<Longrightarrow> take_job i q = (a, q') \<Longrightarrow> \<forall>f. a \<noteq> RunJob f \<Longrightarrow>
      jobs q' = jobs q \<and> invar q' \<and> a \<noteq> EmptyFront"
begin

text \<open>After the jobs of a tag are withdrawn none of them is ever run.\<close>

lemma withdrawn_not_run:
  assumes "invar q" "withdraw t q = (q', cs, n)" "take_job i q' = (RunJob f, q'')"
  shows "\<exists>t'. t' \<noteq> t \<and> (t', f) \<in> set (jobs q)"
proof -
  have q': "jobs q' = filter (\<lambda>j. fst j \<noteq> t) (jobs q)" "invar q'"
    using withdraw[OF assms(1,2)] by auto
  obtain t' where "jobs q' = (t', f) # jobs q''"
    using take_job[OF q'(2) assms(3)] by blast
  then have "(t', f) \<in> set (jobs q')" by simp
  with q'(1) show ?thesis by auto
qed

text \<open>A job submitted to an empty queue is the one that runs next.\<close>

lemma put_then_take:
  assumes "invar q" "jobs q = []" "take_job i (put f u t q) = (RunJob g, q')"
  shows "g = f \<and> jobs q' = []"
  using put[OF assms(1), of f u t] take_job[OF _ assms(3)] assms(2) by auto

end

definition pool_jobs :: "'j pool \<Rightarrow> (nat option \<times> 'j) list" where
  "pool_jobs p = map (\<lambda>it. (tag it, func it)) (queue p)"

lemma pool_jobs_filter:
  "map (\<lambda>it. (tag it, func it)) (filter (\<lambda>it. tag it \<noteq> t) q)
     = filter (\<lambda>j. fst j \<noteq> t) (map (\<lambda>it. (tag it, func it)) q)"
  by (induction q) auto

lemma BGThread_front: "fst (BGThread i p) \<noteq> EmptyFront"
  by (auto simp: BGThread_def Let_def split: list.split)

lemma BGThread_RunJob:
  "BGThread i p = (RunJob f, p') \<Longrightarrow>
     \<exists>it q. queue p = it # q \<and> f = func it
       \<and> p' = p\<lparr>queue := q, queue_len := word_of_nat (length q)\<rparr>"
  by (auto simp: BGThread_def Let_def split: if_splits list.splits)

lemma BGThread_other:
  "BGThread i p = (a, p') \<Longrightarrow> \<forall>f. a \<noteq> RunJob f \<Longrightarrow>
     queue p' = queue p \<and> queue_len p' = queue_len p \<and> exit_all_threads p' = exit_all_threads p"
  by (auto simp: BGThread_def Let_def split: if_splits list.splits)

lemma pool_inv_frame:
  "queue p' = queue p \<Longrightarrow> queue_len p' = queue_len p \<Longrightarrow> exit_all_threads p' = exit_all_threads p
     \<Longrightarrow> pool_inv p \<Longrightarrow> pool_inv p'"
  by (simp add: pool_inv_def)

interpretation bg_pool: job_queue pool_inv pool_jobs Submit UnSchedule BGThread
proof (unfold_locales, goal_cases)
  case (1 q f u t)
  then show ?case
    by (simp add: pool_inv_def pool_jobs_def Submit_def Let_def StartBGThreads_eq)
next
  case (2 q t q' cs n)
  then show ?case
    by (auto simp: pool_inv_def pool_jobs_def UnSchedule_eq pool_jobs_filter sum_length_filter_compl
        add.commute)
next
  case (3 q i f q')
  then show ?case
    by (auto simp: pool_jobs_def pool_inv_def dest!: BGThread_RunJob)
next
  case (4 q i a q')
  then show ?case
    using BGThread_front[of i q] BGThread_other[of i q a q'] pool_inv_frame[of q' q]
    by (auto simp: pool_jobs_def)
qed

section \<open>Properties\<close>

text \<open>Withdrawing the jobs of one owner removes exactly that owner's jobs, keeps the others in
  order, reports how many it removed, runs their cancellation callbacks in queue order, and leaves
  the published queue length equal to the length of the queue.\<close>

theorem UnSchedule_withdraws:
  "case UnSchedule arg p of (p', cs, n) \<Rightarrow>
     queue p' = filter (\<lambda>it. tag it \<noteq> arg) (queue p)
     \<and> n = length (filter (\<lambda>it. tag it = arg) (queue p))
     \<and> cs = List.map_filter unschedFunction (filter (\<lambda>it. tag it = arg) (queue p))
     \<and> GetQueueLen p' = word_of_nat (length (queue p'))"
  by (simp add: UnSchedule_eq GetQueueLen_def)

text \<open>A worker never pops an empty queue, runs jobs in the order they were submitted, and
  leaves the pool only when it is joined (with the queue drained if the jobs must complete) or when
  it is the most recently created of too many threads.\<close>

theorem BGThread_decisions:
  "case BGThread i p of (a, p') \<Rightarrow>
     a \<noteq> EmptyFront
     \<and> (\<forall>f. a = RunJob f \<longrightarrow> (\<exists>t. pool_jobs p = (t, f) # pool_jobs p'))
     \<and> (a = ExitThread \<longrightarrow> exit_all_threads p \<and> (wait_for_jobs_to_complete p \<longrightarrow> queue p = []))
     \<and> (\<forall>more. a = Detach more \<longrightarrow>
          int i = int (bgthreads p) - 1 \<and> total_threads_limit p < int (bgthreads p)
          \<and> bgthreads p' = bgthreads p - 1 \<and> (more \<longleftrightarrow> total_threads_limit p < int (bgthreads p')))"
  by (auto simp: BGThread_def Let_def pool_jobs_def IsLastExcessiveThread_def
      HasExcessiveThread_def split: list.splits)

theorem BGThread_decisions_witness:
  "BGThread 0 (Submit 5 None None (Impl :: nat pool)) =
     (RunJob 5, (Impl :: nat pool)\<lparr>bgthreads := 1\<rparr>)"
  using BGThread_decisions[where i = 0 and p = "Submit 5 None None (Impl :: nat pool)"]
  by (simp add: Submit_def Impl_def StartBGThreads_eq Let_def BGThread_def
      IsLastExcessiveThread_def HasExcessiveThread_def IsExcessiveThread_def)

end
