(* ===== verification/Write_Controller.thy ===== *)
theory Write_Controller
  imports Complex_Main Prelude
begin

text \<open>
  Write stalls: the token counters and the delay computation of db/write_controller.{h,cc}, and
  the decision \<open>ColumnFamilyData::RecalculateWriteStallConditions\<close> of db/column_family.cc that
  holds a stop, delay or compaction-pressure token for a column family.  Counters are \<open>int\<close>,
  rates and byte counts are 64-bit words.  The C++ standard leaves the precision of \<open>double\<close> and
  \<open>long double\<close> to the implementation, so their rounding is a parameter: \<open>rd\<close> and \<open>rl\<close> map an
  exact result to the nearest representable one.
\<close>

section \<open>State and tokens\<close>

record WriteController =
  total_stopped :: int
  total_delayed :: int
  total_compaction_pressure :: int
  bytes_left :: u64
  last_refill_time :: u64
  max_delayed_write_rate :: u64
  delayed_write_rate :: u64

datatype WriteControllerToken = StopWriteToken | DelayWriteToken | CompactionPressureToken

definition set_max_delayed_write_rate :: "u64 \<Rightarrow> WriteController \<Rightarrow> WriteController" where
  "set_max_delayed_write_rate write_rate wc =
     (let write_rate = (if write_rate = 0 then 1 else write_rate)
      in wc\<lparr>max_delayed_write_rate := write_rate, delayed_write_rate := write_rate\<rparr>)"

definition set_delayed_write_rate :: "u64 \<Rightarrow> WriteController \<Rightarrow> WriteController" where
  "set_delayed_write_rate write_rate wc =
     (let write_rate =
            (if write_rate = 0 then 1
             else if max_delayed_write_rate wc < write_rate then max_delayed_write_rate wc
             else write_rate)
      in wc\<lparr>delayed_write_rate := write_rate\<rparr>)"

definition new_WriteController :: "u64 \<Rightarrow> WriteController" where
  "new_WriteController rate =
     set_max_delayed_write_rate rate
       \<lparr>total_stopped = 0, total_delayed = 0, total_compaction_pressure = 0, bytes_left = 0,
        last_refill_time = 0, max_delayed_write_rate = 0, delayed_write_rate = 0\<rparr>"

definition GetStopToken :: "WriteController \<Rightarrow> WriteControllerToken \<times> WriteController" where
  "GetStopToken wc = (StopWriteToken, wc\<lparr>total_stopped := total_stopped wc + 1\<rparr>)"

definition GetDelayToken :: "u64 \<Rightarrow> WriteController \<Rightarrow> WriteControllerToken \<times> WriteController" where
  "GetDelayToken write_rate wc =
     (DelayWriteToken,
      set_delayed_write_rate write_rate
        (wc\<lparr>total_delayed := total_delayed wc + 1, last_refill_time := 0, bytes_left := 0\<rparr>))"

definition GetCompactionPressureToken ::
    "WriteController \<Rightarrow> WriteControllerToken \<times> WriteController" where
  "GetCompactionPressureToken wc =
     (CompactionPressureToken,
      wc\<lparr>total_compaction_pressure := total_compaction_pressure wc + 1\<rparr>)"

text \<open>The destructors of the three kinds of token.\<close>

fun release_token :: "WriteControllerToken \<Rightarrow> WriteController \<Rightarrow> WriteController" where
  "release_token StopWriteToken wc = wc\<lparr>total_stopped := total_stopped wc - 1\<rparr>"
| "release_token DelayWriteToken wc = wc\<lparr>total_delayed := total_delayed wc - 1\<rparr>"
| "release_token CompactionPressureToken wc =
     wc\<lparr>total_compaction_pressure := total_compaction_pressure wc - 1\<rparr>"

definition IsStopped :: "WriteController \<Rightarrow> bool" where
  "IsStopped wc \<longleftrightarrow> 0 < total_stopped wc"

definition NeedsDelay :: "WriteController \<Rightarrow> bool" where
  "NeedsDelay wc \<longleftrightarrow> 0 < total_delayed wc"

definition NeedSpeedupCompaction :: "WriteController \<Rightarrow> bool" where
  "NeedSpeedupCompaction wc \<longleftrightarrow>
     IsStopped wc \<or> NeedsDelay wc \<or> 0 < total_compaction_pressure wc"

text \<open>A conversion from \<open>double\<close> to \<open>uint64_t\<close> drops the fraction.\<close>

definition to_u64 :: "rat \<Rightarrow> u64" where
  "to_u64 x = word_of_int \<lfloor>x\<rfloor>"

definition of_u64 :: "u64 \<Rightarrow> rat" where
  "of_u64 w = of_nat (unat w)"

text \<open>\<open>GetDelay\<close>: the microseconds a write of \<open>num_bytes\<close> bytes has to sleep at time \<open>time_now\<close>.\<close>

definition GetDelay ::
    "(rat \<Rightarrow> rat) \<Rightarrow> (rat \<Rightarrow> rat) \<Rightarrow> u64 \<Rightarrow> u64 \<Rightarrow> WriteController \<Rightarrow> u64 \<times> WriteController" where
  "GetDelay rd rl time_now num_bytes wc =
     (if 0 < total_stopped wc then (0, wc)
      else if total_delayed wc = 0 then (0, wc)
      else if num_bytes \<le> bytes_left wc then (0, wc\<lparr>bytes_left := bytes_left wc - num_bytes\<rparr>)
      else
        (let kMicrosPerSecond = 1000000; kRefillInterval = 1024;
             ahead = (last_refill_time wc \<noteq> 0 \<and> time_now < last_refill_time wc);
             sleep_debt = (if ahead then last_refill_time wc - time_now else 0);
             time_since_last_refill =
               (if last_refill_time wc \<noteq> 0 \<and> \<not> ahead then time_now - last_refill_time wc else 0);
             left =
               (if last_refill_time wc \<noteq> 0 \<and> \<not> ahead
                then bytes_left wc
                     + to_u64 (rd (rd (rd (of_u64 time_since_last_refill) / 1000000)
                                   * rd (of_u64 (delayed_write_rate wc))))
                else bytes_left wc)
         in if last_refill_time wc \<noteq> 0 \<and> \<not> ahead
               \<and> kRefillInterval \<le> time_since_last_refill \<and> num_bytes < left
            then (0, wc\<lparr>last_refill_time := time_now, bytes_left := left - num_bytes\<rparr>)
            else
              (let single_refill_amount =
                     delayed_write_rate wc * kRefillInterval div kMicrosPerSecond
               in if num_bytes \<le> left + single_refill_amount
                  then (kRefillInterval + sleep_debt,
                        wc\<lparr>bytes_left := left + single_refill_amount - num_bytes,
                           last_refill_time := time_now + kRefillInterval\<rparr>)
                  else
                    (let sleep_amount =
                           to_u64 (rl (rl (of_u64 num_bytes / rl (of_u64 (delayed_write_rate wc)))
                                       * 1000000))
                           + sleep_debt
                     in (sleep_amount,
                         wc\<lparr>bytes_left := left, last_refill_time := time_now + sleep_amount\<rparr>)))))"

section \<open>Write stall conditions of a column family\<close>

definition kIncSlowdownRatio :: "(rat \<Rightarrow> rat) \<Rightarrow> rat" where
  "kIncSlowdownRatio rd = rd (8 / 10)"

definition kDecSlowdownRatio :: "(rat \<Rightarrow> rat) \<Rightarrow> rat" where
  "kDecSlowdownRatio rd = rd (1 / kIncSlowdownRatio rd)"

definition kNearStopSlowdownRatio :: "(rat \<Rightarrow> rat) \<Rightarrow> rat" where
  "kNearStopSlowdownRatio rd = rd (6 / 10)"

definition kDelayRecoverSlowdownRatio :: "(rat \<Rightarrow> rat) \<Rightarrow> rat" where
  "kDelayRecoverSlowdownRatio rd = rd (14 / 10)"

text \<open>\<open>static_cast<uint64_t>(static_cast<double>(write_rate) * ratio)\<close>\<close>

definition scale_rate :: "(rat \<Rightarrow> rat) \<Rightarrow> u64 \<Rightarrow> rat \<Rightarrow> u64" where
  "scale_rate rd write_rate ratio = to_u64 (rd (rd (of_u64 write_rate) * ratio))"

definition SetupDelay ::
    "(rat \<Rightarrow> rat) \<Rightarrow> u64 \<Rightarrow> u64 \<Rightarrow> bool \<Rightarrow> bool \<Rightarrow> WriteController
     \<Rightarrow> WriteControllerToken \<times> WriteController" where
  "SetupDelay rd compaction_needed_bytes prev_compaction_need_bytes penalize_stop
      auto_comapctions_disabled wc =
     (let kMinWriteRate = 16 * 1024;
          max_write_rate = max_delayed_write_rate wc;
          write_rate = delayed_write_rate wc;
          write_rate =
            (if auto_comapctions_disabled then max_write_rate
             else if NeedsDelay wc \<and> kMinWriteRate < max_write_rate then
               (if penalize_stop then
                  max kMinWriteRate (scale_rate rd write_rate (kNearStopSlowdownRatio rd))
                else if 0 < prev_compaction_need_bytes
                     \<and> prev_compaction_need_bytes \<le> compaction_needed_bytes then
                  max kMinWriteRate (scale_rate rd write_rate (kIncSlowdownRatio rd))
                else if compaction_needed_bytes < prev_compaction_need_bytes then
                  min max_write_rate (scale_rate rd write_rate (kDecSlowdownRatio rd))
                else write_rate)
             else write_rate)
      in GetDelayToken write_rate wc)"

text \<open>C++ integer division truncates towards zero.\<close>

definition tdiv :: "int \<Rightarrow> int \<Rightarrow> int" where
  "tdiv a b = sgn a * sgn b * (\<bar>a\<bar> div \<bar>b\<bar>)"

definition kMaxInt32 :: int where
  "kMaxInt32 = 2 ^ 31 - 1"

definition GetL0ThresholdSpeedupCompaction :: "int \<Rightarrow> int \<Rightarrow> int" where
  "GetL0ThresholdSpeedupCompaction level0_file_num_compaction_trigger
      level0_slowdown_writes_trigger =
     (if level0_file_num_compaction_trigger < 0 then kMaxInt32
      else
        (let twice_level0_trigger = level0_file_num_compaction_trigger * 2;
             one_fourth_trigger_slowdown =
               level0_file_num_compaction_trigger
               + tdiv (level0_slowdown_writes_trigger - level0_file_num_compaction_trigger) 4;
             res = min twice_level0_trigger one_fourth_trigger_slowdown
         in if kMaxInt32 \<le> res then kMaxInt32 else res))"

record MutableCFOptions =
  max_write_buffer_number :: int
  disable_auto_compactions :: bool
  level0_file_num_compaction_trigger :: int
  level0_slowdown_writes_trigger :: int
  level0_stop_writes_trigger :: int
  soft_pending_compaction_bytes_limit :: u64
  hard_pending_compaction_bytes_limit :: u64

text \<open>What the decision reads of a column family, and the two fields it writes.\<close>

record stall_cf =
  NumNotFlushed :: int
  l0_delay_trigger_count :: int
  estimated_compaction_needed_bytes :: u64
  write_controller_token :: "WriteControllerToken option"
  prev_compaction_needed_bytes :: u64

text \<open>Assigning to the \<open>unique_ptr\<close> creates the new token before the old one is destroyed.\<close>

definition assign_token ::
    "WriteControllerToken option \<Rightarrow> WriteController \<Rightarrow> stall_cf \<Rightarrow> WriteController \<times> stall_cf" where
  "assign_token t wc cf =
     ((case write_controller_token cf of None \<Rightarrow> wc | Some old \<Rightarrow> release_token old wc),
      cf\<lparr>write_controller_token := t\<rparr>)"

text \<open>The result carries the rate handed to \<open>low_pri_rate_limiter()->SetBytesPerSecond\<close>, if any.\<close>

definition RecalculateWriteStallConditions ::
    "(rat \<Rightarrow> rat) \<Rightarrow> MutableCFOptions \<Rightarrow> WriteController \<Rightarrow> stall_cf
     \<Rightarrow> WriteController \<times> stall_cf \<times> u64 option" where
  "RecalculateWriteStallConditions rd opts wc cf =
     (let compaction_needed_bytes = estimated_compaction_needed_bytes cf;
          was_stopped = IsStopped wc;
          needed_delay = NeedsDelay wc;
          stop = (\<lambda>_ :: unit. case GetStopToken wc of (t, wc) \<Rightarrow>
                    (case assign_token (Some t) wc cf of (wc, cf) \<Rightarrow> (wc, cf, None)));
          delay = (\<lambda>penalize_stop.
                    case SetupDelay rd compaction_needed_bytes (prev_compaction_needed_bytes cf)
                           penalize_stop (disable_auto_compactions opts) wc of (t, wc) \<Rightarrow>
                      (case assign_token (Some t) wc cf of (wc, cf) \<Rightarrow> (wc, cf, None)));
          recover = (\<lambda>(wc, cf).
                    if needed_delay then
                      (let write_rate = delayed_write_rate wc
                       in (set_delayed_write_rate
                             (scale_rate rd write_rate (kDelayRecoverSlowdownRatio rd)) wc,
                           cf, Some (write_rate div 4)))
                    else (wc, cf, None));
          (wc', cf', r) =
            (if max_write_buffer_number opts \<le> NumNotFlushed cf then stop ()
             else if \<not> disable_auto_compactions opts
                     \<and> level0_stop_writes_trigger opts \<le> l0_delay_trigger_count cf then stop ()
             else if \<not> disable_auto_compactions opts
                     \<and> 0 < hard_pending_compaction_bytes_limit opts
                     \<and> hard_pending_compaction_bytes_limit opts \<le> compaction_needed_bytes then stop ()
             else if 3 < max_write_buffer_number opts
                     \<and> max_write_buffer_number opts - 1 \<le> NumNotFlushed cf then delay was_stopped
             else if \<not> disable_auto_compactions opts \<and> 0 \<le> level0_slowdown_writes_trigger opts
                     \<and> level0_slowdown_writes_trigger opts \<le> l0_delay_trigger_count cf then
               delay (was_stopped \<or> level0_stop_writes_trigger opts - 2 \<le> l0_delay_trigger_count cf)
             else if \<not> disable_auto_compactions opts
                     \<and> 0 < soft_pending_compaction_bytes_limit opts
                     \<and> soft_pending_compaction_bytes_limit opts \<le> compaction_needed_bytes then
               delay (was_stopped
                      \<or> 0 < hard_pending_compaction_bytes_limit opts
                         \<and> 3 * (hard_pending_compaction_bytes_limit opts
                                - soft_pending_compaction_bytes_limit opts) div 4
                            < compaction_needed_bytes - soft_pending_compaction_bytes_limit opts)
             else if GetL0ThresholdSpeedupCompaction (level0_file_num_compaction_trigger opts)
                       (level0_slowdown_writes_trigger opts) \<le> l0_delay_trigger_count cf then
               (case GetCompactionPressureToken wc of (t, wc) \<Rightarrow> recover (assign_token (Some t) wc cf))
             else if soft_pending_compaction_bytes_limit opts div 4 \<le> compaction_needed_bytes then
               (case GetCompactionPressureToken wc of (t, wc) \<Rightarrow> recover (assign_token (Some t) wc cf))
             else recover (assign_token None wc cf))
      in (wc', cf'\<lparr>prev_compaction_needed_bytes := compaction_needed_bytes\<rparr>, r))"

section \<open>The stall decision as a classification\<close>

text \<open>
  The specification: which token a column family has to hold, as a function of its memtables,
  level-0 files and compaction debt alone, and how severe each kind of token is for the writers.
\<close>

definition must_stop :: "MutableCFOptions \<Rightarrow> int \<Rightarrow> int \<Rightarrow> nat \<Rightarrow> bool" where
  "must_stop opts imm l0 debt \<longleftrightarrow>
     max_write_buffer_number opts \<le> imm
     \<or> \<not> disable_auto_compactions opts
        \<and> (level0_stop_writes_trigger opts \<le> l0
            \<or> 0 < unat (hard_pending_compaction_bytes_limit opts)
               \<and> unat (hard_pending_compaction_bytes_limit opts) \<le> debt)"

definition must_delay :: "MutableCFOptions \<Rightarrow> int \<Rightarrow> int \<Rightarrow> nat \<Rightarrow> bool" where
  "must_delay opts imm l0 debt \<longleftrightarrow>
     3 < max_write_buffer_number opts \<and> max_write_buffer_number opts - 1 \<le> imm
     \<or> \<not> disable_auto_compactions opts
        \<and> (0 \<le> level0_slowdown_writes_trigger opts \<and> level0_slowdown_writes_trigger opts \<le> l0
            \<or> 0 < unat (soft_pending_compaction_bytes_limit opts)
               \<and> unat (soft_pending_compaction_bytes_limit opts) \<le> debt)"

definition under_pressure :: "MutableCFOptions \<Rightarrow> int \<Rightarrow> nat \<Rightarrow> bool" where
  "under_pressure opts l0 debt \<longleftrightarrow>
     GetL0ThresholdSpeedupCompaction (level0_file_num_compaction_trigger opts)
       (level0_slowdown_writes_trigger opts) \<le> l0
     \<or> unat (soft_pending_compaction_bytes_limit opts) div 4 \<le> debt"

definition stall_token :: "MutableCFOptions \<Rightarrow> int \<Rightarrow> int \<Rightarrow> nat \<Rightarrow> WriteControllerToken option" where
  "stall_token opts imm l0 debt =
     (if must_stop opts imm l0 debt then Some StopWriteToken
      else if must_delay opts imm l0 debt then Some DelayWriteToken
      else if under_pressure opts l0 debt then Some CompactionPressureToken
      else None)"

fun severity :: "WriteControllerToken option \<Rightarrow> nat" where
  "severity None = 0"
| "severity (Some CompactionPressureToken) = 1"
| "severity (Some DelayWriteToken) = 2"
| "severity (Some StopWriteToken) = 3"

lemma stall_token_mono:
  assumes "imm \<le> imm'" and "l0 \<le> l0'" and "debt \<le> debt'"
  shows "severity (stall_token opts imm l0 debt) \<le> severity (stall_token opts imm' l0' debt')"
  using assms
  by (auto simp: stall_token_def must_stop_def must_delay_def under_pressure_def)

section \<open>Counters and rates\<close>

definition rate_inv :: "WriteController \<Rightarrow> bool" where
  "rate_inv wc \<longleftrightarrow> 1 \<le> delayed_write_rate wc \<and> delayed_write_rate wc \<le> max_delayed_write_rate wc"

fun total :: "WriteControllerToken \<Rightarrow> WriteController \<Rightarrow> int" where
  "total StopWriteToken wc = total_stopped wc"
| "total DelayWriteToken wc = total_delayed wc"
| "total CompactionPressureToken wc = total_compaction_pressure wc"

lemma word_pos_iff: "1 \<le> (w :: u64) \<longleftrightarrow> w \<noteq> 0"
  by (simp add: word_le_nat_alt Suc_le_eq unat_gt_0)

lemma set_delayed_write_rate_inv:
  assumes "rate_inv wc"
  shows "rate_inv (set_delayed_write_rate r wc)"
  using assms
  by (auto simp: rate_inv_def set_delayed_write_rate_def Let_def word_pos_iff)

lemma set_delayed_write_rate_sel [simp]:
  "total k (set_delayed_write_rate r wc) = total k wc"
  "max_delayed_write_rate (set_delayed_write_rate r wc) = max_delayed_write_rate wc"
  by (cases k; simp add: set_delayed_write_rate_def Let_def)
    (simp add: set_delayed_write_rate_def Let_def)

lemma release_token_sel [simp]:
  "total k (release_token t wc) = total k wc - of_bool (k = t)"
  "rate_inv (release_token t wc) = rate_inv wc"
  "delayed_write_rate (release_token t wc) = delayed_write_rate wc"
  by (cases t; cases k; simp) (cases t; simp add: rate_inv_def)+

lemma get_token_sel [simp]:
  "total k (snd (GetStopToken wc)) = total k wc + of_bool (k = StopWriteToken)"
  "total k (snd (GetDelayToken r wc)) = total k wc + of_bool (k = DelayWriteToken)"
  "total k (snd (GetCompactionPressureToken wc)) = total k wc + of_bool (k = CompactionPressureToken)"
  "fst (GetStopToken wc) = StopWriteToken"
  "fst (GetDelayToken r wc) = DelayWriteToken"
  "fst (GetCompactionPressureToken wc) = CompactionPressureToken"
  "rate_inv (snd (GetStopToken wc)) = rate_inv wc"
  "rate_inv (snd (GetCompactionPressureToken wc)) = rate_inv wc"
  by (cases k; simp add: GetStopToken_def GetDelayToken_def GetCompactionPressureToken_def
      rate_inv_def)+

lemma GetDelayToken_inv:
  "rate_inv wc \<Longrightarrow> rate_inv (snd (GetDelayToken r wc))"
  unfolding GetDelayToken_def snd_conv
  by (rule set_delayed_write_rate_inv) (simp add: rate_inv_def)

lemma assign_token_sel [simp]:
  "total k (fst (assign_token t wc cf)) = total k wc - of_bool (write_controller_token cf = Some k)"
  "rate_inv (fst (assign_token t wc cf)) = rate_inv wc"
  "write_controller_token (snd (assign_token t wc cf)) = t"
  by (auto simp: assign_token_def split: option.split)

lemma SetupDelay_sel [simp]:
  "fst (SetupDelay rd need prev pen dis wc) = DelayWriteToken"
  "total k (snd (SetupDelay rd need prev pen dis wc)) = total k wc + of_bool (k = DelayWriteToken)"
  "rate_inv wc \<Longrightarrow> rate_inv (snd (SetupDelay rd need prev pen dis wc))"
  by (simp_all only: SetupDelay_def Let_def get_token_sel GetDelayToken_inv)

lemma stall_conditions_words:
  fixes h n :: u64
  shows "0 < h \<and> h \<le> n \<longleftrightarrow> 0 < unat h \<and> unat h \<le> unat n"
    and "h div 4 \<le> n \<longleftrightarrow> unat h div 4 \<le> unat n"
  by (simp_all add: word_le_nat_alt word_less_nat_alt unat_div)

lemma Recalculate_token:
  fixes rd opts wc cf
  defines "res \<equiv> RecalculateWriteStallConditions rd opts wc cf"
  shows "write_controller_token (fst (snd res)) =
           stall_token opts (NumNotFlushed cf) (l0_delay_trigger_count cf)
             (unat (estimated_compaction_needed_bytes cf))"
    and "total k (fst res) = total k wc
           + of_bool (write_controller_token (fst (snd res)) = Some k)
           - of_bool (write_controller_token cf = Some k)"
    and "rate_inv wc \<Longrightarrow> rate_inv (fst res)"
  unfolding res_def
  by (simp_all add: RecalculateWriteStallConditions_def Let_def case_prod_beta stall_token_def
      must_stop_def must_delay_def under_pressure_def stall_conditions_words
      set_delayed_write_rate_inv eq_commute [of k]) blast

section \<open>Sequences of recalculations\<close>

text \<open>
  All callers hold the DB mutex, so a run is a list of calls: the column family recalculated, its
  options, and the memtable, level-0 and debt figures it has at that moment.
\<close>

record stall_call =
  call_cf :: nat
  call_opts :: MutableCFOptions
  call_imm :: int
  call_l0 :: int
  call_debt :: u64

definition recalculate_at ::
    "(rat \<Rightarrow> rat) \<Rightarrow> stall_call \<Rightarrow> WriteController \<times> stall_cf list \<Rightarrow> WriteController \<times> stall_cf list" where
  "recalculate_at rd c s =
     (case s of (wc, cfs) \<Rightarrow>
        if call_cf c < length cfs then
          (let cf = (cfs ! call_cf c)\<lparr>NumNotFlushed := call_imm c, l0_delay_trigger_count := call_l0 c,
                      estimated_compaction_needed_bytes := call_debt c\<rparr>;
               res = RecalculateWriteStallConditions rd (call_opts c) wc cf
           in (fst res, cfs[call_cf c := fst (snd res)]))
        else s)"

definition new_stall_cf :: stall_cf where
  "new_stall_cf = \<lparr>NumNotFlushed = 0, l0_delay_trigger_count = 0,
     estimated_compaction_needed_bytes = 0, write_controller_token = None,
     prev_compaction_needed_bytes = 0\<rparr>"

definition stall_run ::
    "(rat \<Rightarrow> rat) \<Rightarrow> u64 \<Rightarrow> nat \<Rightarrow> stall_call list \<Rightarrow> WriteController \<times> stall_cf list" where
  "stall_run rd rate n calls =
     fold (recalculate_at rd) calls (new_WriteController rate, replicate n new_stall_cf)"

definition held :: "WriteControllerToken \<Rightarrow> stall_cf list \<Rightarrow> nat" where
  "held k cfs = length (filter (\<lambda>cf. write_controller_token cf = Some k) cfs)"

definition stall_inv :: "WriteController \<times> stall_cf list \<Rightarrow> bool" where
  "stall_inv s \<longleftrightarrow> rate_inv (fst s)
     \<and> total_stopped (fst s) = int (held StopWriteToken (snd s))
     \<and> total_delayed (fst s) = int (held DelayWriteToken (snd s))
     \<and> total_compaction_pressure (fst s) = int (held CompactionPressureToken (snd s))"

lemma all_tokens:
  "(\<forall>k. P k) \<longleftrightarrow> P StopWriteToken \<and> P DelayWriteToken \<and> P CompactionPressureToken"
  by (metis WriteControllerToken.exhaust)

lemma stall_inv_total:
  "stall_inv s \<longleftrightarrow> rate_inv (fst s) \<and> (\<forall>k. total k (fst s) = int (held k (snd s)))"
  by (simp add: stall_inv_def all_tokens)

lemma held_update:
  assumes "i < length cfs"
  shows "int (held k (cfs[i := cf])) = int (held k cfs) + of_bool (write_controller_token cf = Some k)
           - of_bool (write_controller_token (cfs ! i) = Some k)"
proof -
  have split: "cfs = take i cfs @ cfs ! i # drop (Suc i) cfs"
    using assms by (rule id_take_nth_drop)
  have "held k (xs @ y # ys) = held k xs + of_bool (write_controller_token y = Some k) + held k ys"
    for xs y ys by (simp add: held_def)
  with assms show ?thesis
    by (subst (2) split) (simp add: upd_conv_take_nth_drop)
qed

lemma recalculate_at_inv:
  assumes "stall_inv s"
  shows "stall_inv (recalculate_at rd c s)"
  using assms unfolding stall_inv_total recalculate_at_def
  by (auto simp: Let_def held_update Recalculate_token split: prod.split)

lemma fold_recalculate_inv: "stall_inv s \<Longrightarrow> stall_inv (fold (recalculate_at rd) cs s)"
  by (induction cs arbitrary: s) (simp_all add: recalculate_at_inv)

lemma new_stall_inv: "stall_inv (new_WriteController rate, replicate n new_stall_cf)"
  by (simp add: stall_inv_def new_WriteController_def set_max_delayed_write_rate_def Let_def
      held_def new_stall_cf_def rate_inv_def word_pos_iff)

lemma held_pos: "0 < held k cfs \<longleftrightarrow> (\<exists>cf\<in>set cfs. write_controller_token cf = Some k)"
  by (auto simp: held_def filter_empty_conv)

lemma token_held:
  "(\<exists>cf\<in>set cfs. \<exists>t. write_controller_token cf = Some t) \<longleftrightarrow>
     0 < held StopWriteToken cfs \<or> 0 < held DelayWriteToken cfs \<or> 0 < held CompactionPressureToken cfs"
  using all_tokens [of "\<lambda>k. \<not> (\<exists>cf\<in>set cfs. write_controller_token cf = Some k)"]
  unfolding held_pos by blast

text \<open>
  C29: In every run of recalculations from a new controller, the three counters count the tokens
  the column families hold, so that writes are stopped exactly when some column family holds a
  stop token and delayed exactly when one holds a delay token, compaction is sped up exactly when
  some token is held, and the delayed write rate stays at least one byte per second and at most
  the maximum.
\<close>
theorem stall_tokens_counted:
  "case stall_run rd rate n calls of (wc, cfs) \<Rightarrow>
     (IsStopped wc \<longleftrightarrow> (\<exists>cf\<in>set cfs. write_controller_token cf = Some StopWriteToken))
     \<and> (NeedsDelay wc \<longleftrightarrow> (\<exists>cf\<in>set cfs. write_controller_token cf = Some DelayWriteToken))
     \<and> (NeedSpeedupCompaction wc \<longleftrightarrow> (\<exists>cf\<in>set cfs. write_controller_token cf \<noteq> None))
     \<and> 1 \<le> delayed_write_rate wc \<and> delayed_write_rate wc \<le> max_delayed_write_rate wc"
proof -
  obtain wc cfs where run: "stall_run rd rate n calls = (wc, cfs)"
    by fastforce
  then have inv: "stall_inv (wc, cfs)"
    using fold_recalculate_inv [OF new_stall_inv] by (metis stall_run_def)
  then show ?thesis
    by (simp add: run token_held flip: held_pos) (simp add: stall_inv_def IsStopped_def NeedsDelay_def
        NeedSpeedupCompaction_def rate_inv_def)
qed

text \<open>
  C30: The decision is a function of memtables, level-0 files and compaction debt only, and it is
  monotone: recalculating with more memtables waiting, more level-0 files and more debt never
  leaves the column family with a less severe token, whatever the state of the controller.
\<close>
theorem stall_severity_mono:
  assumes "NumNotFlushed cf \<le> NumNotFlushed cf'"
    and "l0_delay_trigger_count cf \<le> l0_delay_trigger_count cf'"
    and "estimated_compaction_needed_bytes cf \<le> estimated_compaction_needed_bytes cf'"
  shows "severity (write_controller_token
            (fst (snd (RecalculateWriteStallConditions rd opts wc cf))))
       \<le> severity (write_controller_token
            (fst (snd (RecalculateWriteStallConditions rd opts wc' cf'))))"
  using assms stall_token_mono by (simp add: Recalculate_token word_le_nat_alt)

text \<open>
  The witness moves a column family from six level-0 files to twenty-one, from an unremarkable
  state to one that is delayed.
\<close>
theorem stall_severity_mono_witness:
  "severity (write_controller_token (fst (snd (RecalculateWriteStallConditions id
       \<lparr>max_write_buffer_number = 2, disable_auto_compactions = False,
        level0_file_num_compaction_trigger = 4, level0_slowdown_writes_trigger = 20,
        level0_stop_writes_trigger = 36, soft_pending_compaction_bytes_limit = 1000,
        hard_pending_compaction_bytes_limit = 4000\<rparr>
       (new_WriteController 100000) (new_stall_cf\<lparr>l0_delay_trigger_count := 6\<rparr>)))))
   \<le> severity (write_controller_token (fst (snd (RecalculateWriteStallConditions id
       \<lparr>max_write_buffer_number = 2, disable_auto_compactions = False,
        level0_file_num_compaction_trigger = 4, level0_slowdown_writes_trigger = 20,
        level0_stop_writes_trigger = 36, soft_pending_compaction_bytes_limit = 1000,
        hard_pending_compaction_bytes_limit = 4000\<rparr>
       (new_WriteController 100000) (new_stall_cf\<lparr>l0_delay_trigger_count := 21\<rparr>)))))"
  by (rule stall_severity_mono) (simp_all add: new_stall_cf_def)

end
