(* ===== verification/Silk_State.thy ===== *)
theory Silk_State
  imports Thread_Pool Write_Controller
begin

text \<open>
  The state of \<open>DBImpl\<close> that decides which background work runs (db/db_impl.h), and the helpers
  of db/db_impl_compaction_flush.cc that keep its queues: the flush and compaction queues of column
  families, the queue of manual compactions, the job limits, and the scheduling of a job in one of
  the two thread pools of the environment.  All of it is guarded by the DB mutex.

  The memtables, versions and picked compactions are seen through the figures the scheduler reads
  of them; a step that changes them takes the new figures as an argument.
\<close>

section \<open>Column families\<close>

record cf_facts =
  IsFlushPending :: bool
  NeedsCompaction :: bool
  NumLevelFiles :: "nat list"
  NumLevelBytes :: "nat list"
  MaxBytesForLevel :: "nat list"
  imm_NumNotFlushed :: int
  mem_IsEmpty :: bool
  cf_l0_delay_trigger_count :: int
  cf_estimated_compaction_needed_bytes :: u64

record ColumnFamilyData =
  refs :: int
  deleted :: bool
  IsDropped :: bool
  pending_flush :: bool
  pending_compaction :: bool
  facts :: cf_facts
  cf_options :: MutableCFOptions
  stall :: stall_cf

section \<open>Compactions and jobs\<close>

datatype compaction_kind = DeletionCompaction | TrivialMove | FullCompaction

record Compaction =
  column_family_data :: nat
  kind :: compaction_kind

text \<open>
  A \<open>ManualCompaction\<close> lives on the stack of \<open>RunManualCompaction\<close>; \<open>mc_scheduled\<close> is the local
  flag \<open>scheduled\<close> of the same frame.
\<close>

record ManualCompaction =
  mc_cfd :: nat
  input_level :: int
  output_level :: int
  exclusive :: bool
  disallow_trivial_move :: bool
  mc_status :: Status
  mc_done :: bool
  in_progress :: bool
  incomplete :: bool
  mc_begin :: "bytes option"
  mc_end :: "bytes option"
  manual_end :: "bytes option"
  mc_compaction :: "Compaction option"
  mc_scheduled :: bool

text \<open>
  A queued job is one of the three entry points with its argument.  A job that has been started
  but has not finished holds on to the column family or the compaction it picked; what is left of
  it in the end is the last critical section of its entry point.
\<close>

datatype bg_job = BGWorkFlush | BGWorkCompaction "nat option" | BGWorkPurge

datatype running_job =
    RunningFlush nat
  | EndingFlush
  | RunningCompaction "nat option" "Compaction option"
  | EndingCompaction
  | RunningPurge

record DBImpl =
  opened_successfully :: bool
  shutting_down :: bool
  bg_work_paused :: int
  bg_compaction_paused :: int
  unscheduled_flushes :: int
  unscheduled_compactions :: int
  bg_flush_scheduled :: int
  bg_compaction_scheduled :: int
  bg_purge_scheduled :: int
  num_running_flushes :: int
  num_running_compactions :: int
  num_running_ingest_file :: int
  flush_queue :: "nat list"
  compaction_queue :: "nat list"
  manual_compaction_dequeue :: "nat list"
  manuals :: "nat \<Rightarrow> ManualCompaction"
  refitting_level :: bool
  bg_error :: Status
  paranoid_checks :: bool
  max_background_flushes :: int
  max_background_compactions :: int
  max_background_jobs :: int
  write_controller :: WriteController
  cfds :: "nat \<Rightarrow> ColumnFamilyData"
  env_pool :: "Priority \<Rightarrow> bg_job pool"
  purge_queue :: "nat list"
  logs_to_free_queue :: "nat list"
  taken :: "bg_job list"
  running :: "running_job list"

text \<open>The pointer to the database as the tag of its jobs, and the default column family.\<close>

definition db_tag :: "nat option" where
  "db_tag = Some 1"

definition DefaultColumnFamily :: nat where
  "DefaultColumnFamily = 0"

definition update_cfd :: "nat \<Rightarrow> (ColumnFamilyData \<Rightarrow> ColumnFamilyData) \<Rightarrow> DBImpl \<Rightarrow> DBImpl" where
  "update_cfd cfd f db = db\<lparr>cfds := (cfds db)(cfd := f (cfds db cfd))\<rparr>"

definition update_manual :: "nat \<Rightarrow> (ManualCompaction \<Rightarrow> ManualCompaction) \<Rightarrow> DBImpl \<Rightarrow> DBImpl" where
  "update_manual m f db = db\<lparr>manuals := (manuals db)(m := f (manuals db m))\<rparr>"

section \<open>Reference counts and queues\<close>

definition Ref :: "nat \<Rightarrow> DBImpl \<Rightarrow> DBImpl" where
  "Ref cfd = update_cfd cfd (\<lambda>c. c\<lparr>refs := refs c + 1\<rparr>)"

text \<open>\<open>Unref\<close> with the \<open>delete\<close> its callers do when it returns true.\<close>

definition Unref :: "nat \<Rightarrow> DBImpl \<Rightarrow> bool \<times> DBImpl" where
  "Unref cfd db =
     (let old_refs = refs (cfds db cfd);
          db = update_cfd cfd (\<lambda>c. c\<lparr>refs := refs c - 1\<rparr>) db
      in if old_refs = 1 then (True, update_cfd cfd (\<lambda>c. c\<lparr>deleted := True\<rparr>) db) else (False, db))"

definition AddToCompactionQueue :: "nat \<Rightarrow> DBImpl \<Rightarrow> DBImpl" where
  "AddToCompactionQueue cfd db =
     (let db = Ref cfd db; db = db\<lparr>compaction_queue := compaction_queue db @ [cfd]\<rparr>
      in update_cfd cfd (\<lambda>c. c\<lparr>pending_compaction := True\<rparr>) db)"

definition PopFirstFromCompactionQueue :: "DBImpl \<Rightarrow> nat \<times> DBImpl" where
  "PopFirstFromCompactionQueue db =
     (let cfd = hd (compaction_queue db); db = db\<lparr>compaction_queue := tl (compaction_queue db)\<rparr>
      in (cfd, update_cfd cfd (\<lambda>c. c\<lparr>pending_compaction := False\<rparr>) db))"

definition AddToFlushQueue :: "nat \<Rightarrow> DBImpl \<Rightarrow> DBImpl" where
  "AddToFlushQueue cfd db =
     (let db = Ref cfd db; db = db\<lparr>flush_queue := flush_queue db @ [cfd]\<rparr>
      in update_cfd cfd (\<lambda>c. c\<lparr>pending_flush := True\<rparr>) db)"

definition PopFirstFromFlushQueue :: "DBImpl \<Rightarrow> nat \<times> DBImpl" where
  "PopFirstFromFlushQueue db =
     (let cfd = hd (flush_queue db); db = db\<lparr>flush_queue := tl (flush_queue db)\<rparr>
      in (cfd, update_cfd cfd (\<lambda>c. c\<lparr>pending_flush := False\<rparr>) db))"

definition SchedulePendingFlush :: "nat \<Rightarrow> DBImpl \<Rightarrow> DBImpl" where
  "SchedulePendingFlush cfd db =
     (if \<not> pending_flush (cfds db cfd) \<and> IsFlushPending (facts (cfds db cfd))
      then (let db = AddToFlushQueue cfd db in db\<lparr>unscheduled_flushes := unscheduled_flushes db + 1\<rparr>)
      else db)"

definition SchedulePendingCompaction :: "nat \<Rightarrow> DBImpl \<Rightarrow> DBImpl" where
  "SchedulePendingCompaction cfd db =
     (if \<not> pending_compaction (cfds db cfd) \<and> NeedsCompaction (facts (cfds db cfd))
      then (let db = AddToCompactionQueue cfd db
            in db\<lparr>unscheduled_compactions := unscheduled_compactions db + 1\<rparr>)
      else db)"

section \<open>Manual compactions\<close>

definition HasPendingManualCompaction :: "DBImpl \<Rightarrow> bool" where
  "HasPendingManualCompaction db \<longleftrightarrow> manual_compaction_dequeue db \<noteq> []"

definition AddManualCompaction :: "nat \<Rightarrow> DBImpl \<Rightarrow> DBImpl" where
  "AddManualCompaction m db =
     db\<lparr>manual_compaction_dequeue := manual_compaction_dequeue db @ [m]\<rparr>"

definition RemoveManualCompaction :: "nat \<Rightarrow> DBImpl \<Rightarrow> DBImpl" where
  "RemoveManualCompaction m db =
     db\<lparr>manual_compaction_dequeue := remove1 m (manual_compaction_dequeue db)\<rparr>"

definition MCOverlap :: "ManualCompaction \<Rightarrow> ManualCompaction \<Rightarrow> bool" where
  "MCOverlap m m1 \<longleftrightarrow> exclusive m \<or> exclusive m1 \<or> mc_cfd m = mc_cfd m1"

fun ShouldntRunManualCompaction_loop :: "nat \<Rightarrow> bool \<Rightarrow> DBImpl \<Rightarrow> nat list \<Rightarrow> bool" where
  "ShouldntRunManualCompaction_loop m seen db [] = False"
| "ShouldntRunManualCompaction_loop m seen db (it # its) =
     (if m = it then ShouldntRunManualCompaction_loop m True db its
      else if MCOverlap (manuals db m) (manuals db it) \<and> \<not> seen \<and> \<not> in_progress (manuals db it)
      then True
      else ShouldntRunManualCompaction_loop m seen db its)"

definition ShouldntRunManualCompaction :: "nat \<Rightarrow> DBImpl \<Rightarrow> bool" where
  "ShouldntRunManualCompaction m db =
     (if 0 < num_running_ingest_file db then True
      else if exclusive (manuals db m) then 0 < bg_compaction_scheduled db
      else ShouldntRunManualCompaction_loop m False db (manual_compaction_dequeue db))"

definition HaveManualCompaction :: "nat \<Rightarrow> DBImpl \<Rightarrow> bool" where
  "HaveManualCompaction cfd db \<longleftrightarrow>
     list_ex (\<lambda>it. exclusive (manuals db it)
       \<or> cfd = mc_cfd (manuals db it) \<and> \<not> (in_progress (manuals db it) \<or> mc_done (manuals db it)))
       (manual_compaction_dequeue db)"

definition HasExclusiveManualCompaction :: "DBImpl \<Rightarrow> bool" where
  "HasExclusiveManualCompaction db \<longleftrightarrow>
     list_ex (\<lambda>it. exclusive (manuals db it)) (manual_compaction_dequeue db)"

section \<open>Job limits and the environment\<close>

record BGJobLimits =
  max_flushes :: int
  max_compactions :: int

text \<open>Division of \<open>int\<close>s truncates towards zero.\<close>

definition BGJobLimits_for :: "int \<Rightarrow> int \<Rightarrow> int \<Rightarrow> bool \<Rightarrow> BGJobLimits" where
  "BGJobLimits_for flushes compactions jobs parallelize_compactions =
     (let res =
            (if flushes = -1 \<and> compactions = -1
             then (let f = max 1 (tdiv jobs 4)
                   in \<lparr>max_flushes = f, max_compactions = max 1 (jobs - f)\<rparr>)
             else \<lparr>max_flushes = max 1 flushes, max_compactions = max 1 compactions\<rparr>)
      in if \<not> parallelize_compactions then res\<lparr>max_compactions := 1\<rparr> else res)"

definition GetBGJobLimits :: "DBImpl \<Rightarrow> BGJobLimits" where
  "GetBGJobLimits db =
     BGJobLimits_for (max_background_flushes db) (max_background_compactions db)
       (max_background_jobs db) (NeedSpeedupCompaction (write_controller db))"

text \<open>\<open>PosixEnv::Schedule\<close>, \<open>UnSchedule\<close> and \<open>GetThreadPoolQueueLen\<close> pass on to the pool.\<close>

definition env_Schedule ::
    "bg_job \<Rightarrow> Priority \<Rightarrow> nat option \<Rightarrow> bg_job option \<Rightarrow> DBImpl \<Rightarrow> DBImpl" where
  "env_Schedule job pri t unsched db =
     db\<lparr>env_pool := (env_pool db)(pri := Submit job unsched t (env_pool db pri))\<rparr>"

definition env_UnSchedule :: "nat option \<Rightarrow> Priority \<Rightarrow> DBImpl \<Rightarrow> nat \<times> bg_job list \<times> DBImpl" where
  "env_UnSchedule t pri db =
     (case UnSchedule t (env_pool db pri) of (p, callbacks, count) \<Rightarrow>
        (count, callbacks, db\<lparr>env_pool := (env_pool db)(pri := p)\<rparr>))"

definition GetThreadPoolQueueLen :: "Priority \<Rightarrow> DBImpl \<Rightarrow> u32" where
  "GetThreadPoolQueueLen pri db = GetQueueLen (env_pool db pri)"

definition SchedulePurge :: "DBImpl \<Rightarrow> DBImpl" where
  "SchedulePurge db =
     env_Schedule BGWorkPurge HIGH None None (db\<lparr>bg_purge_scheduled := bg_purge_scheduled db + 1\<rparr>)"

definition SchedulePendingPurge :: "nat \<Rightarrow> DBImpl \<Rightarrow> DBImpl" where
  "SchedulePendingPurge number db = db\<lparr>purge_queue := purge_queue db @ [number]\<rparr>"

text \<open>
  One turn of the loop of \<open>BackgroundCallPurge\<close>, which deletes one file or frees one log with the
  mutex released, and its end when both queues are empty.
\<close>

definition BackgroundCallPurge_turn :: "DBImpl \<Rightarrow> DBImpl option" where
  "BackgroundCallPurge_turn db =
     (if purge_queue db = [] \<and> logs_to_free_queue db = [] then None
      else if purge_queue db \<noteq> [] then Some (db\<lparr>purge_queue := tl (purge_queue db)\<rparr>)
      else Some (db\<lparr>logs_to_free_queue := tl (logs_to_free_queue db)\<rparr>))"

definition BackgroundCallPurge_end :: "DBImpl \<Rightarrow> DBImpl" where
  "BackgroundCallPurge_end db = db\<lparr>bg_purge_scheduled := bg_purge_scheduled db - 1\<rparr>"

end
