(* ===== verification/Silk_Scheduler.thy ===== *)
theory Silk_Scheduler
  imports Silk_State
begin

text \<open>
  The background scheduler of SILK (db/db_impl_compaction_flush.cc, parts of db/db_impl.cc): how
  flushes and compactions are handed to the thread pools, what a background thread does under the
  DB mutex, pausing and resuming, manual compactions, refitting a level and the destructor.  A
  routine that releases the mutex is split where it does.
\<close>

section \<open>MaybeScheduleFlushOrCompaction\<close>

text \<open>The loop that schedules flushes in the pool \<open>pri\<close> while \<open>more\<close> holds.\<close>

definition schedule_flush :: "Priority \<Rightarrow> DBImpl \<Rightarrow> DBImpl" where
  "schedule_flush pri db =
     env_Schedule BGWorkFlush pri db_tag None
       (db\<lparr>unscheduled_flushes := unscheduled_flushes db - 1,
          bg_flush_scheduled := bg_flush_scheduled db + 1\<rparr>)"

definition schedule_compaction :: "Priority \<Rightarrow> DBImpl \<Rightarrow> DBImpl" where
  "schedule_compaction pri db =
     env_Schedule (BGWorkCompaction None) pri db_tag (Some (BGWorkCompaction None))
       (db\<lparr>bg_compaction_scheduled := bg_compaction_scheduled db + 1,
          unscheduled_compactions := unscheduled_compactions db - 1\<rparr>)"

lemma schedule_flush_sel [simp]:
  "unscheduled_flushes (schedule_flush pri db) = unscheduled_flushes db - 1"
  "bg_flush_scheduled (schedule_flush pri db) = bg_flush_scheduled db + 1"
  "bg_compaction_scheduled (schedule_flush pri db) = bg_compaction_scheduled db"
  "unscheduled_compactions (schedule_flush pri db) = unscheduled_compactions db"
  by (simp_all add: schedule_flush_def env_Schedule_def)

lemma schedule_compaction_sel [simp]:
  "unscheduled_compactions (schedule_compaction pri db) = unscheduled_compactions db - 1"
  "bg_compaction_scheduled (schedule_compaction pri db) = bg_compaction_scheduled db + 1"
  "unscheduled_flushes (schedule_compaction pri db) = unscheduled_flushes db"
  "bg_flush_scheduled (schedule_compaction pri db) = bg_flush_scheduled db"
  by (simp_all add: schedule_compaction_def env_Schedule_def)

function flush_loop_high :: "int \<Rightarrow> DBImpl \<Rightarrow> DBImpl" where
  "flush_loop_high limit db =
     (if 0 < unscheduled_flushes db \<and> bg_flush_scheduled db < limit
      then flush_loop_high limit (schedule_flush HIGH db) else db)"
  by pat_completeness auto
termination
  by (relation "measure (\<lambda>(limit, db). nat (unscheduled_flushes db))") auto

function flush_loop_low :: "int \<Rightarrow> DBImpl \<Rightarrow> DBImpl" where
  "flush_loop_low limit db =
     (if 0 < unscheduled_flushes db \<and> bg_flush_scheduled db + bg_compaction_scheduled db < limit
      then flush_loop_low limit (schedule_flush LOW db) else db)"
  by pat_completeness auto
termination
  by (relation "measure (\<lambda>(limit, db). nat (unscheduled_flushes db))") auto

function compaction_loop :: "int \<Rightarrow> DBImpl \<Rightarrow> DBImpl" where
  "compaction_loop limit db =
     (if bg_compaction_scheduled db < limit \<and> 0 < unscheduled_compactions db
      then compaction_loop limit (schedule_compaction LOW db) else db)"
  by pat_completeness auto
termination
  by (relation "measure (\<lambda>(limit, db). nat (unscheduled_compactions db))") auto

declare flush_loop_high.simps [simp del] flush_loop_low.simps [simp del] compaction_loop.simps [simp del]

text \<open>The condition under which SILK schedules a compaction in the pool of the flushes.\<close>

definition silk_high_compaction :: "DBImpl \<Rightarrow> bool" where
  "silk_high_compaction db \<longleftrightarrow>
     GetThreadPoolQueueLen HIGH db < 2
     \<and> (num_running_flushes db < 2 \<or> unscheduled_flushes db < 2)
     \<and> 0 < unscheduled_compactions db
     \<and> 4 \<le> NumLevelFiles (facts (cfds db DefaultColumnFamily)) ! 0"

definition MaybeScheduleFlushOrCompaction :: "DBImpl \<Rightarrow> DBImpl" where
  "MaybeScheduleFlushOrCompaction db =
     (if \<not> opened_successfully db then db
      else if 0 < bg_work_paused db then db
      else if shutting_down db then db
      else
        (let limits = GetBGJobLimits db;
             is_flush_pool_empty = (GetBackgroundThreads (env_pool db HIGH) = 0);
             db = (if is_flush_pool_empty then db else flush_loop_high (max_flushes limits) db);
             db = (if is_flush_pool_empty then flush_loop_low (max_flushes limits) db else db);
             db = (if silk_high_compaction db then schedule_compaction HIGH db else db)
         in if 0 < bg_compaction_paused db then db
            else if HasExclusiveManualCompaction db then db
            else compaction_loop (max_compactions limits) db))"

section \<open>Installing a new version\<close>

text \<open>
  \<open>InstallSuperVersion\<close> publishes the new figures of a column family and recalculates its write
  stall conditions; then new work is scheduled.
\<close>

definition InstallSuperVersion :: "(rat \<Rightarrow> rat) \<Rightarrow> nat \<Rightarrow> cf_facts \<Rightarrow> DBImpl \<Rightarrow> DBImpl" where
  "InstallSuperVersion rd cfd new db =
     (let db = update_cfd cfd (\<lambda>c. c\<lparr>facts := new\<rparr>) db;
          st = (stall (cfds db cfd))\<lparr>NumNotFlushed := imm_NumNotFlushed new,
                 l0_delay_trigger_count := cf_l0_delay_trigger_count new,
                 estimated_compaction_needed_bytes := cf_estimated_compaction_needed_bytes new\<rparr>
      in case RecalculateWriteStallConditions rd (cf_options (cfds db cfd)) (write_controller db) st of
           (wc, st, _) \<Rightarrow>
             update_cfd cfd (\<lambda>c. c\<lparr>stall := st\<rparr>) (db\<lparr>write_controller := wc\<rparr>))"

definition InstallSuperVersionAndScheduleWork ::
    "(rat \<Rightarrow> rat) \<Rightarrow> nat \<Rightarrow> cf_facts \<Rightarrow> DBImpl \<Rightarrow> DBImpl" where
  "InstallSuperVersionAndScheduleWork rd cfd new db =
     MaybeScheduleFlushOrCompaction
       (SchedulePendingCompaction cfd (SchedulePendingFlush cfd (InstallSuperVersion rd cfd new db)))"

section \<open>Background flushes\<close>

text \<open>The loop of \<open>BackgroundFlush\<close> that looks for a column family with something to flush.\<close>

function BackgroundFlush_loop :: "DBImpl \<Rightarrow> nat option \<times> DBImpl" where
  "BackgroundFlush_loop db =
     (if flush_queue db = [] then (None, db)
      else
        (case PopFirstFromFlushQueue db of (first_cfd, db') \<Rightarrow>
           if IsDropped (cfds db' first_cfd) \<or> \<not> IsFlushPending (facts (cfds db' first_cfd))
           then BackgroundFlush_loop (snd (Unref first_cfd db'))
           else (Some first_cfd, db')))"
  by pat_completeness auto
termination
  by (relation "measure (\<lambda>db. length (flush_queue db))")
    (auto simp: PopFirstFromFlushQueue_def Unref_def update_cfd_def Let_def)

declare BackgroundFlush_loop.simps [simp del]

definition background_status :: "DBImpl \<Rightarrow> Status" where
  "background_status db =
     (if ok (bg_error db) \<and> shutting_down db then ShutdownInProgress else bg_error db)"

text \<open>
  \<open>BackgroundCallFlush\<close> from taking the mutex to \<open>FlushMemTableToOutputFile\<close>, which releases it:
  the status, and the column family to flush.
\<close>

definition BackgroundCallFlush_begin :: "DBImpl \<Rightarrow> Status \<times> nat option \<times> DBImpl" where
  "BackgroundCallFlush_begin db =
     (let db = db\<lparr>num_running_flushes := num_running_flushes db + 1\<rparr>;
          status = background_status db
      in if \<not> ok status then (status, None, db)
         else (case BackgroundFlush_loop db of (cfd, db) \<Rightarrow> (OK, cfd, db)))"

text \<open>
  The end of \<open>FlushMemTableToOutputFile\<close> and of \<open>BackgroundFlush\<close>: the result of the flush is
  installed, an error is recorded as the listeners left it, also when the new file exceeds the
  allowed space, and the queue's reference to the column family is dropped.
\<close>

definition set_bg_error :: "Status \<Rightarrow> DBImpl \<Rightarrow> DBImpl" where
  "set_bg_error new_bg_error db =
     (if \<not> ok new_bg_error then db\<lparr>bg_error := new_bg_error\<rparr> else db)"

definition BackgroundFlush_installed ::
    "(rat \<Rightarrow> rat) \<Rightarrow> nat \<Rightarrow> Status \<Rightarrow> bool \<Rightarrow> Status \<Rightarrow> cf_facts \<Rightarrow> DBImpl \<Rightarrow> DBImpl" where
  "BackgroundFlush_installed rd cfd s space_reached bg_err new db =
     (let db = (if ok s then InstallSuperVersionAndScheduleWork rd cfd new db else db);
          db = (if \<not> ok s \<and> \<not> IsShutdownInProgress s \<and> paranoid_checks db \<and> ok (bg_error db)
                then set_bg_error bg_err db else db);
          db = (if ok s \<and> space_reached \<and> ok (bg_error db) then set_bg_error bg_err db else db)
      in snd (Unref cfd db))"

definition BackgroundCallFlush_end :: "DBImpl \<Rightarrow> DBImpl" where
  "BackgroundCallFlush_end db =
     MaybeScheduleFlushOrCompaction
       (db\<lparr>num_running_flushes := num_running_flushes db - 1,
          bg_flush_scheduled := bg_flush_scheduled db - 1\<rparr>)"

section \<open>Background compactions\<close>

text \<open>
  \<open>BackgroundCompaction\<close> up to the work of the compaction itself.  \<open>pick\<close> is the kind of compaction
  \<open>PickCompaction\<close> returns for a column family and \<open>needs\<close> what \<open>NeedsCompaction\<close> says afterwards,
  when the files of the picked compaction no longer count.  A compaction holds a reference to its
  column family from \<open>SetInputVersion\<close> until it is destroyed.  The result is the status with which
  the routine returns early, if it does, and the compaction to run.
\<close>

definition delete_compaction :: "Compaction option \<Rightarrow> DBImpl \<Rightarrow> DBImpl" where
  "delete_compaction c db =
     (case c of None \<Rightarrow> db | Some c \<Rightarrow> snd (Unref (column_family_data c) db))"

definition BackgroundCompaction_begin ::
    "(nat \<Rightarrow> compaction_kind option) \<Rightarrow> (nat \<Rightarrow> bool) \<Rightarrow> nat option \<Rightarrow> DBImpl
     \<Rightarrow> Status option \<times> Compaction option \<times> DBImpl" where
  "BackgroundCompaction_begin pick needs arg db =
     (let status = background_status db
      in if \<not> ok status then
           (Some status, None,
            (case arg of
               None \<Rightarrow> db
             | Some m \<Rightarrow>
                 update_manual m (\<lambda>mc. mc\<lparr>mc_status := status, mc_done := True,
                   in_progress := False, mc_compaction := None\<rparr>)
                   (delete_compaction (mc_compaction (manuals db m)) db)))
         else
           (case arg of
              Some m \<Rightarrow>
                (let c = mc_compaction (manuals db m);
                     db = update_manual m (\<lambda>mc. mc\<lparr>in_progress := True, mc_compaction := None\<rparr>) db
                 in (None, c,
                     if c = None
                     then update_manual m (\<lambda>mc. mc\<lparr>mc_done := True, manual_end := None\<rparr>) db else db))
            | None \<Rightarrow>
                if compaction_queue db = [] then (None, None, db)
                else if HaveManualCompaction (hd (compaction_queue db)) db then
                  (Some OK, None, db\<lparr>unscheduled_compactions := unscheduled_compactions db + 1\<rparr>)
                else
                  (case PopFirstFromCompactionQueue db of (cfd, db) \<Rightarrow>
                     (case Unref cfd db of (is_last, db) \<Rightarrow>
                        if is_last then (Some OK, None, db)
                        else if disable_auto_compactions (cf_options (cfds db cfd))
                                \<or> IsDropped (cfds db cfd) then (None, None, db)
                        else
                          (case pick cfd of
                             None \<Rightarrow> (None, None, db)
                           | Some k \<Rightarrow>
                               (let db = update_cfd cfd (\<lambda>d. d\<lparr>facts := (facts d)\<lparr>NeedsCompaction := needs cfd\<rparr>\<rparr>)
                                           (Ref cfd db)
                                in (None, Some \<lparr>column_family_data = cfd, kind = k\<rparr>,
                                    if needs cfd then
                                      (let db = AddToCompactionQueue cfd db;
                                           db = db\<lparr>unscheduled_compactions :=
                                                     unscheduled_compactions db + 1\<rparr>
                                       in MaybeScheduleFlushOrCompaction db)
                                    else db)))))))"

definition BackgroundCallCompaction_begin ::
    "(nat \<Rightarrow> compaction_kind option) \<Rightarrow> (nat \<Rightarrow> bool) \<Rightarrow> nat option \<Rightarrow> DBImpl
     \<Rightarrow> Status option \<times> Compaction option \<times> DBImpl" where
  "BackgroundCallCompaction_begin pick needs arg db =
     BackgroundCompaction_begin pick needs arg
       (db\<lparr>num_running_compactions := num_running_compactions db + 1\<rparr>)"

text \<open>
  The rest of \<open>BackgroundCompaction\<close>, after the work ended with \<open>status\<close>: installing the result
  of the compaction \<open>c\<close>, dropping its reference, recording an error, and updating the manual
  compaction.  \<open>bg_err\<close> is what the listeners make of the error.
\<close>

definition BackgroundCompaction_finish ::
    "(rat \<Rightarrow> rat) \<Rightarrow> nat option \<Rightarrow> Compaction option \<Rightarrow> Status \<Rightarrow> Status \<Rightarrow> cf_facts
     \<Rightarrow> DBImpl \<Rightarrow> DBImpl" where
  "BackgroundCompaction_finish rd arg c status bg_err new db =
     (let installed = (case c of
            None \<Rightarrow> db
          | Some c \<Rightarrow>
              (let cfd = column_family_data c;
                   manual_no_move = (case arg of None \<Rightarrow> False
                      | Some m \<Rightarrow> disallow_trivial_move (manuals db m));
                   install = (kind c = DeletionCompaction \<or> kind c = TrivialMove \<and> \<not> manual_no_move
                              \<or> ok status)
               in if install then InstallSuperVersionAndScheduleWork rd cfd new db else db));
          db = delete_compaction c installed;
          db = (if ok status \<or> IsShutdownInProgress status then db
                else if paranoid_checks db \<and> ok (bg_error db) then
                  set_bg_error bg_err db
                else db)
      in case arg of
           None \<Rightarrow> db
         | Some m \<Rightarrow>
             update_manual m (\<lambda>mc.
               (let mc = (if ok status then mc else mc\<lparr>mc_status := status, mc_done := True\<rparr>);
                    mc = (if manual_end mc = None then mc\<lparr>mc_done := True\<rparr> else mc);
                    mc = (if mc_done mc then mc else mc\<lparr>mc_begin := manual_end mc, incomplete := True\<rparr>)
                in mc\<lparr>in_progress := False\<rparr>)) db)"

text \<open>The end of \<open>BackgroundCallCompaction\<close>, and whether it signals the waiters.\<close>

definition BackgroundCallCompaction_end :: "bool \<Rightarrow> DBImpl \<Rightarrow> bool \<times> DBImpl" where
  "BackgroundCallCompaction_end made_progress db =
     (let db = db\<lparr>num_running_compactions := num_running_compactions db - 1,
                  bg_compaction_scheduled := bg_compaction_scheduled db - 1\<rparr>;
          db = MaybeScheduleFlushOrCompaction db
      in (made_progress \<or> bg_compaction_scheduled db = 0 \<or> HasPendingManualCompaction db, db))"

section \<open>Pausing and resuming\<close>

text \<open>Each pause is split at its wait: before it, the condition waited for, and after it.\<close>

definition PauseBackgroundWork_begin :: "DBImpl \<Rightarrow> DBImpl" where
  "PauseBackgroundWork_begin db = db\<lparr>bg_compaction_paused := bg_compaction_paused db + 1\<rparr>"

definition PauseBackgroundWork_wait :: "DBImpl \<Rightarrow> bool" where
  "PauseBackgroundWork_wait db \<longleftrightarrow> 0 < bg_compaction_scheduled db \<or> 0 < bg_flush_scheduled db"

definition PauseBackgroundWork_end :: "DBImpl \<Rightarrow> DBImpl" where
  "PauseBackgroundWork_end db = db\<lparr>bg_work_paused := bg_work_paused db + 1\<rparr>"

definition ContinueBackgroundWork :: "DBImpl \<Rightarrow> Status \<times> DBImpl" where
  "ContinueBackgroundWork db =
     (if bg_work_paused db = 0 then (InvalidArgument [], db)
      else
        (let db = db\<lparr>bg_compaction_paused := bg_compaction_paused db - 1,
                     bg_work_paused := bg_work_paused db - 1\<rparr>
         in (OK, if bg_work_paused db = 0 then MaybeScheduleFlushOrCompaction db else db)))"

definition PauseCompactionWork_begin :: "DBImpl \<Rightarrow> DBImpl" where
  "PauseCompactionWork_begin db = db\<lparr>bg_compaction_paused := bg_compaction_paused db + 1\<rparr>"

definition PauseCompactionWork_wait :: "DBImpl \<Rightarrow> bool" where
  "PauseCompactionWork_wait db \<longleftrightarrow> 0 < bg_compaction_scheduled db"

definition PauseCompactionWork_end :: "DBImpl \<Rightarrow> DBImpl" where
  "PauseCompactionWork_end db = db\<lparr>bg_compaction_paused := bg_compaction_paused db + 1\<rparr>"

definition ContinueCompactionWork :: "DBImpl \<Rightarrow> Status \<times> DBImpl" where
  "ContinueCompactionWork db =
     (if bg_compaction_paused db = 0 then (InvalidArgument [], db)
      else
        (let db = db\<lparr>bg_compaction_paused := bg_compaction_paused db - 1\<rparr>
         in (OK, if bg_compaction_paused db = 0 then MaybeScheduleFlushOrCompaction db else db)))"

section \<open>Flush requests\<close>

text \<open>
  \<open>FlushMemTable\<close> under the mutex: \<open>SwitchMemtable\<close> installs the figures \<open>switched\<close> when it
  succeeds, \<open>FlushRequested\<close> leaves the figures \<open>requested\<close>.
\<close>

definition FlushMemTable ::
    "(rat \<Rightarrow> rat) \<Rightarrow> nat \<Rightarrow> Status \<Rightarrow> cf_facts \<Rightarrow> cf_facts \<Rightarrow> DBImpl \<Rightarrow> Status \<times> DBImpl" where
  "FlushMemTable rd cfd s switched requested db =
     (if imm_NumNotFlushed (facts (cfds db cfd)) = 0 \<and> mem_IsEmpty (facts (cfds db cfd)) then (OK, db)
      else
        (let db = (if ok s then InstallSuperVersionAndScheduleWork rd cfd switched db else db);
             db = update_cfd cfd (\<lambda>c. c\<lparr>facts := requested\<rparr>) db
         in (s, MaybeScheduleFlushOrCompaction (SchedulePendingFlush cfd db))))"

text \<open>What \<open>WaitForFlushMemTable\<close> does each time it holds the mutex: return, or wait (\<open>None\<close>).\<close>

definition WaitForFlushMemTable :: "nat \<Rightarrow> DBImpl \<Rightarrow> Status option" where
  "WaitForFlushMemTable cfd db =
     (if 0 < imm_NumNotFlushed (facts (cfds db cfd)) \<and> ok (bg_error db) then
        (if shutting_down db then Some ShutdownInProgress
         else if IsDropped (cfds db cfd) then Some (InvalidArgument ''Cannot flush a dropped CF'')
         else None)
      else if \<not> ok (bg_error db) then Some (bg_error db)
      else Some OK)"

section \<open>Manual compactions\<close>

definition RunManualCompaction_add ::
    "nat \<Rightarrow> nat \<Rightarrow> int \<Rightarrow> int \<Rightarrow> bytes option \<Rightarrow> bytes option \<Rightarrow> bool \<Rightarrow> bool \<Rightarrow> bool \<Rightarrow> DBImpl \<Rightarrow> DBImpl" where
  "RunManualCompaction_add m cfd in_level out_level begin_key end_key level_style excl no_move db =
     AddManualCompaction m
       (update_manual m (\<lambda>_. \<lparr>mc_cfd = cfd, input_level = in_level, output_level = out_level,
          exclusive = excl, disallow_trivial_move = no_move, mc_status = OK, mc_done = False,
          in_progress = False, incomplete = False,
          mc_begin = (if level_style then begin_key else None),
          mc_end = (if level_style then end_key else None),
          manual_end = None, mc_compaction = None, mc_scheduled = False\<rparr>) db)"

datatype manual_turn = ManualWait | ManualAgain | ManualReturn Status

text \<open>
  One turn of the loop of \<open>RunManualCompaction\<close>.  The wait of an exclusive compaction before the
  loop is the same wait as the one \<open>ShouldntRunManualCompaction\<close> asks for in it.  \<open>c_range\<close> is what \<open>CompactRange\<close> would return: the
  kind of the compaction, where it ends, and whether it met a conflict.
\<close>

definition RunManualCompaction_turn ::
    "nat \<Rightarrow> compaction_kind option \<times> bytes option \<times> bool \<Rightarrow> DBImpl \<Rightarrow> manual_turn \<times> DBImpl" where
  "RunManualCompaction_turn m c_range db =
     (if mc_done (manuals db m)
      then (ManualReturn (mc_status (manuals db m)), RemoveManualCompaction m db)
      else if ShouldntRunManualCompaction m db \<or> in_progress (manuals db m) \<or> mc_scheduled (manuals db m)
      then (ManualWait, db)
      else
        (case c_range of
           (None, c_end, manual_conflict) \<Rightarrow>
             (let db = update_manual m (\<lambda>mc. mc\<lparr>mc_compaction := None, manual_end := c_end\<rparr>) db
              in if manual_conflict then (ManualWait, db)
                 else (ManualAgain, update_manual m (\<lambda>mc. mc\<lparr>mc_done := True\<rparr>) db))
         | (Some k, c_end, _) \<Rightarrow>
             (let cfd = mc_cfd (manuals db m);
                  db = Ref cfd db;
                  db = update_manual m (\<lambda>mc. mc\<lparr>manual_end := c_end,
                         mc_compaction := Some \<lparr>column_family_data = cfd, kind = k\<rparr>,
                         incomplete := False, mc_scheduled := True\<rparr>) db;
                  db = db\<lparr>bg_compaction_scheduled := bg_compaction_scheduled db + 1\<rparr>
              in (ManualAgain,
                  env_Schedule (BGWorkCompaction (Some m)) LOW db_tag
                    (Some (BGWorkCompaction (Some m))) db))))"

text \<open>What the loop does when it wakes up from \<open>bg_cv_\<close>.\<close>

definition RunManualCompaction_woken :: "nat \<Rightarrow> DBImpl \<Rightarrow> DBImpl" where
  "RunManualCompaction_woken m db =
     (if mc_scheduled (manuals db m) \<and> incomplete (manuals db m)
      then update_manual m (\<lambda>mc. mc\<lparr>mc_scheduled := False, incomplete := False\<rparr>) db else db)"

section \<open>Refitting a level\<close>

text \<open>The loop of \<open>FindMinimumEmptyLevelFitting\<close> from level \<open>i\<close> downwards.\<close>

fun FindMinimumEmptyLevelFitting_loop :: "cf_facts \<Rightarrow> nat \<Rightarrow> nat \<Rightarrow> nat \<Rightarrow> nat" where
  "FindMinimumEmptyLevelFitting_loop f level minimum_level 0 = minimum_level"
| "FindMinimumEmptyLevelFitting_loop f level minimum_level (Suc i) =
     (if 0 < NumLevelFiles f ! Suc i then minimum_level
      else if MaxBytesForLevel f ! Suc i < NumLevelBytes f ! level then minimum_level
      else FindMinimumEmptyLevelFitting_loop f level (Suc i) i)"

definition FindMinimumEmptyLevelFitting :: "cf_facts \<Rightarrow> nat \<Rightarrow> nat" where
  "FindMinimumEmptyLevelFitting f level =
     FindMinimumEmptyLevelFitting_loop f level level (level - 1)"

text \<open>
  \<open>ReFitLevel\<close> with the result \<open>s\<close> of \<open>LogAndApply\<close> and the figures \<open>new\<close> after it.
\<close>

definition ReFitLevel ::
    "(rat \<Rightarrow> rat) \<Rightarrow> nat \<Rightarrow> nat \<Rightarrow> int \<Rightarrow> Status \<Rightarrow> cf_facts \<Rightarrow> DBImpl \<Rightarrow> Status \<times> DBImpl" where
  "ReFitLevel rd cfd level target_level s new db =
     (let f = facts (cfds db cfd); levels = length (NumLevelFiles f)
      in if int levels \<le> target_level
         then (InvalidArgument ''Target level exceeds number of levels'', db)
         else if refitting_level db then (NotSupported ''another thread is refitting'', db)
         else
           (let db = db\<lparr>refitting_level := True\<rparr>;
                to_level = (if target_level < 0 then FindMinimumEmptyLevelFitting f level
                            else nat target_level)
            in if level < to_level \<and> level = 0
               then (NotSupported ''Cannot change from level 0 to other levels.'', db)
               else if level < to_level
                       \<and> list_ex (\<lambda>l. 0 < NumLevelFiles f ! l) [level + 1 ..< to_level + 1]
               then (NotSupported ''Levels between source and target are not empty for a move.'', db)
               else
                 (let (status, db) =
                        (if to_level \<noteq> level
                         then (s, InstallSuperVersionAndScheduleWork rd cfd new db) else (OK, db))
                  in (status, db\<lparr>refitting_level := False\<rparr>))))"

section \<open>Shutting down\<close>

text \<open>
  \<open>CancelAllBackgroundWork\<close> without waiting; the flushes it may ask for before it sets the flag are
  calls of \<open>FlushMemTable\<close>, which release the mutex.
\<close>

definition CancelAllBackgroundWork :: "DBImpl \<Rightarrow> DBImpl" where
  "CancelAllBackgroundWork db = db\<lparr>shutting_down := True\<rparr>"

text \<open>The callback of a withdrawn compaction job destroys the compaction of its manual compaction.\<close>

definition UnscheduleCallback :: "bg_job \<Rightarrow> DBImpl \<Rightarrow> DBImpl" where
  "UnscheduleCallback arg db =
     (case arg of
        BGWorkCompaction (Some m) \<Rightarrow> delete_compaction (mc_compaction (manuals db m)) db
      | _ \<Rightarrow> db)"

text \<open>
  The destructor withdraws its jobs from both pools; what it withdraws from the pool of the
  compactions counts as compactions, what it withdraws from the pool of the flushes as flushes.
  Then it waits until all counters are zero.
\<close>

definition DBImpl_destroy :: "DBImpl \<Rightarrow> DBImpl" where
  "DBImpl_destroy db =
     (let db = CancelAllBackgroundWork db;
          (compactions_unscheduled, callbacks, db) = env_UnSchedule db_tag LOW db;
          db = fold UnscheduleCallback callbacks db;
          (flushes_unscheduled, callbacks, db) = env_UnSchedule db_tag HIGH db;
          db = fold UnscheduleCallback callbacks db
      in db\<lparr>bg_compaction_scheduled := bg_compaction_scheduled db - int compactions_unscheduled,
            bg_flush_scheduled := bg_flush_scheduled db - int flushes_unscheduled\<rparr>)"

definition DBImpl_destroy_waits :: "DBImpl \<Rightarrow> bool" where
  "DBImpl_destroy_waits db \<longleftrightarrow>
     bg_compaction_scheduled db \<noteq> 0 \<or> bg_flush_scheduled db \<noteq> 0 \<or> bg_purge_scheduled db \<noteq> 0"

end
