(* ===== verification/Silk_Invariant.thy ===== *)
theory Silk_Invariant
  imports Silk_Scheduler
begin

text \<open>
  The invariant of the scheduler.  The counters count the jobs that are queued in the pools, taken
  by a thread or running; a column family is in a queue exactly when its pending flag says so; and
  every queue entry and every running job holds a reference, so that a column family is destroyed
  only when none of them needs it.
\<close>

section \<open>Counting jobs\<close>

definition cnt :: "('a \<Rightarrow> bool) \<Rightarrow> 'a list \<Rightarrow> int" where
  "cnt P xs = int (length (filter P xs))"

lemma cnt_simps [simp]:
  "cnt P [] = 0"
  "cnt P (x # xs) = of_bool (P x) + cnt P xs"
  "cnt P (xs @ ys) = cnt P xs + cnt P ys"
  by (simp_all add: cnt_def)

lemma cnt_nonneg [simp]: "0 \<le> cnt P xs"
  by (simp add: cnt_def)

lemma cnt_remove1: "x \<in> set xs \<Longrightarrow> cnt P (remove1 x xs) = cnt P xs - of_bool (P x)"
  by (induction xs) auto

lemma cnt_pos: "x \<in> set xs \<Longrightarrow> P x \<Longrightarrow> 0 < cnt P xs"
  by (auto simp: cnt_def filter_empty_conv)

fun is_flush :: "bg_job \<Rightarrow> bool" where
  "is_flush BGWorkFlush = True"
| "is_flush _ = False"

fun is_compaction :: "bg_job \<Rightarrow> bool" where
  "is_compaction (BGWorkCompaction _) = True"
| "is_compaction _ = False"

fun is_auto :: "bg_job \<Rightarrow> bool" where
  "is_auto (BGWorkCompaction None) = True"
| "is_auto _ = False"

fun is_purge :: "bg_job \<Rightarrow> bool" where
  "is_purge BGWorkPurge = True"
| "is_purge _ = False"

fun runs_flush :: "running_job \<Rightarrow> bool" where
  "runs_flush (RunningFlush _) = True"
| "runs_flush EndingFlush = True"
| "runs_flush _ = False"

fun runs_compaction :: "running_job \<Rightarrow> bool" where
  "runs_compaction (RunningCompaction _ _) = True"
| "runs_compaction EndingCompaction = True"
| "runs_compaction _ = False"

fun runs_purge :: "running_job \<Rightarrow> bool" where
  "runs_purge RunningPurge = True"
| "runs_purge _ = False"

text \<open>The column family a running job holds a reference to.\<close>

fun holds :: "nat \<Rightarrow> running_job \<Rightarrow> bool" where
  "holds cf (RunningFlush cf') = (cf = cf')"
| "holds cf (RunningCompaction _ (Some c)) = (cf = column_family_data c)"
| "holds cf _ = False"

fun is_manual :: "nat \<Rightarrow> bg_job \<Rightarrow> bool" where
  "is_manual m (BGWorkCompaction (Some m')) = (m = m')"
| "is_manual m _ = False"

fun runs_manual :: "nat \<Rightarrow> running_job \<Rightarrow> bool" where
  "runs_manual m (RunningCompaction (Some m') _) = (m = m')"
| "runs_manual m _ = False"

text \<open>The column family of the compaction a queued manual job is going to run.\<close>

fun job_holds :: "(nat \<Rightarrow> ManualCompaction) \<Rightarrow> nat \<Rightarrow> bg_job \<Rightarrow> bool" where
  "job_holds mm cf (BGWorkCompaction (Some m)) =
     (map_option column_family_data (mc_compaction (mm m)) = Some cf)"
| "job_holds mm cf _ = False"

definition queued :: "(bg_job \<Rightarrow> bool) \<Rightarrow> Priority \<Rightarrow> DBImpl \<Rightarrow> int" where
  "queued P pri db = cnt (\<lambda>j. P (snd j)) (pool_jobs (env_pool db pri))"

text \<open>Jobs queued in a pool or taken from it by a thread that does not hold the mutex yet.\<close>

definition waiting :: "(bg_job \<Rightarrow> bool) \<Rightarrow> DBImpl \<Rightarrow> int" where
  "waiting P db = queued P LOW db + queued P HIGH db + cnt P (taken db)"

lemma waiting_nonneg: "0 \<le> waiting P db"
  by (simp add: waiting_def queued_def)

lemma waiting_frame [simp]:
  "waiting P (db\<lparr>flush_queue := x0\<rparr>) = waiting P db"
  "waiting P (db\<lparr>compaction_queue := x1\<rparr>) = waiting P db"
  "waiting P (db\<lparr>unscheduled_flushes := x2\<rparr>) = waiting P db"
  "waiting P (db\<lparr>unscheduled_compactions := x3\<rparr>) = waiting P db"
  "waiting P (db\<lparr>bg_flush_scheduled := x4\<rparr>) = waiting P db"
  "waiting P (db\<lparr>bg_compaction_scheduled := x5\<rparr>) = waiting P db"
  "waiting P (db\<lparr>bg_purge_scheduled := x6\<rparr>) = waiting P db"
  "waiting P (db\<lparr>num_running_flushes := x7\<rparr>) = waiting P db"
  "waiting P (db\<lparr>num_running_compactions := x8\<rparr>) = waiting P db"
  "waiting P (db\<lparr>running := x9\<rparr>) = waiting P db"
  "waiting P (db\<lparr>manuals := x10\<rparr>) = waiting P db"
  by (simp_all add: waiting_def queued_def)

section \<open>The invariant\<close>

text \<open>Flushes and compactions carry the tag of the database, purges carry none.\<close>

definition job_tag :: "bg_job \<Rightarrow> nat option" where
  "job_tag j = (if j = BGWorkPurge then None else db_tag)"

definition tagged :: "bg_job pool \<Rightarrow> bool" where
  "tagged p \<longleftrightarrow> (\<forall>(t, j)\<in>set (pool_jobs p). t = job_tag j)"

definition pools_ok :: "DBImpl \<Rightarrow> bool" where
  "pools_ok db \<longleftrightarrow> pool_inv (env_pool db LOW) \<and> pool_inv (env_pool db HIGH)
     \<and> tagged (env_pool db LOW) \<and> tagged (env_pool db HIGH)"

definition counters_ok :: "DBImpl \<Rightarrow> bool" where
  "counters_ok db \<longleftrightarrow> pools_ok db
     \<and> bg_flush_scheduled db = waiting is_flush db + cnt runs_flush (running db)
     \<and> bg_compaction_scheduled db = waiting is_compaction db + cnt runs_compaction (running db)
     \<and> bg_purge_scheduled db = waiting is_purge db + cnt runs_purge (running db)
     \<and> num_running_flushes db = cnt runs_flush (running db)
     \<and> num_running_compactions db = cnt runs_compaction (running db)
     \<and> 0 \<le> unscheduled_flushes db \<and> 0 \<le> unscheduled_compactions db
     \<and> unscheduled_compactions db + waiting is_auto db \<le> int (length (compaction_queue db))"

definition limit_ok :: "DBImpl \<Rightarrow> bool" where
  "limit_ok db \<longleftrightarrow> bg_flush_scheduled db \<le> max_flushes (GetBGJobLimits db)"

definition queues_ok :: "DBImpl \<Rightarrow> bool" where
  "queues_ok db \<longleftrightarrow> distinct (flush_queue db) \<and> distinct (compaction_queue db)
     \<and> (\<forall>cf. pending_flush (cfds db cf) \<longleftrightarrow> cf \<in> set (flush_queue db))
     \<and> (\<forall>cf. pending_compaction (cfds db cf) \<longleftrightarrow> cf \<in> set (compaction_queue db))"

text \<open>
  References to a column family: of its queue entries, of running jobs, and of the compactions that
  scheduled manual jobs are going to run.
\<close>

definition needed :: "nat \<Rightarrow> DBImpl \<Rightarrow> int" where
  "needed cf db = of_bool (cf \<in> set (flush_queue db)) + of_bool (cf \<in> set (compaction_queue db))
     + cnt (holds cf) (running db) + waiting (job_holds (manuals db) cf) db"

text \<open>\<open>h\<close> counts further references that a routine holds in the middle of a step.\<close>

definition refs_ok :: "(nat \<Rightarrow> int) \<Rightarrow> DBImpl \<Rightarrow> bool" where
  "refs_ok h db \<longleftrightarrow> (\<forall>cf. needed cf db + h cf \<le> refs (cfds db cf)
     \<and> (deleted (cfds db cf) \<longrightarrow> refs (cfds db cf) = 0))"

text \<open>A manual compaction has at most one job, and only while it counts as scheduled.\<close>

definition manual_jobs :: "nat \<Rightarrow> DBImpl \<Rightarrow> int" where
  "manual_jobs m db = waiting (is_manual m) db + cnt (runs_manual m) (running db)"

definition manual_ok :: "DBImpl \<Rightarrow> bool" where
  "manual_ok db \<longleftrightarrow> (\<forall>m. manual_jobs m db \<le> 1
     \<and> (0 < manual_jobs m db \<longrightarrow> mc_scheduled (manuals db m) \<and> \<not> incomplete (manuals db m)))"

definition sched_inv :: "(nat \<Rightarrow> int) \<Rightarrow> DBImpl \<Rightarrow> bool" where
  "sched_inv h db \<longleftrightarrow> counters_ok db \<and> limit_ok db \<and> queues_ok db \<and> refs_ok h db \<and> manual_ok db"

section \<open>Scheduling keeps the invariant\<close>

lemma env_Schedule_sel [simp]:
  "cfds (env_Schedule j p t u db) = cfds db"
  "manuals (env_Schedule j p t u db) = manuals db"
  "running (env_Schedule j p t u db) = running db"
  "taken (env_Schedule j p t u db) = taken db"
  "flush_queue (env_Schedule j p t u db) = flush_queue db"
  "compaction_queue (env_Schedule j p t u db) = compaction_queue db"
  "unscheduled_flushes (env_Schedule j p t u db) = unscheduled_flushes db"
  "unscheduled_compactions (env_Schedule j p t u db) = unscheduled_compactions db"
  "bg_flush_scheduled (env_Schedule j p t u db) = bg_flush_scheduled db"
  "bg_compaction_scheduled (env_Schedule j p t u db) = bg_compaction_scheduled db"
  "bg_purge_scheduled (env_Schedule j p t u db) = bg_purge_scheduled db"
  "num_running_flushes (env_Schedule j p t u db) = num_running_flushes db"
  "num_running_compactions (env_Schedule j p t u db) = num_running_compactions db"
  "GetBGJobLimits (env_Schedule j p t u db) = GetBGJobLimits db"
  by (simp_all add: env_Schedule_def GetBGJobLimits_def)

lemma env_Schedule_pools:
  assumes "pools_ok db" and "t = job_tag j"
  shows "pools_ok (env_Schedule j p t u db)"
    and "pool_jobs (env_pool (env_Schedule j p t u db) pri) =
           pool_jobs (env_pool db pri) @ (if pri = p then [(t, j)] else [])"
    and "waiting P (env_Schedule j p t u db) = waiting P db + of_bool (P j)"
proof -
  have "pool_inv (env_pool db p)" for p
    using assms by (cases p) (auto simp: pools_ok_def)
  note put = bg_pool.put [OF this]
  show "pools_ok (env_Schedule j p t u db)"
    using put assms by (auto simp: pools_ok_def tagged_def env_Schedule_def)
  show "pool_jobs (env_pool (env_Schedule j p t u db) pri) =
      pool_jobs (env_pool db pri) @ (if pri = p then [(t, j)] else [])" for pri
    using put by (auto simp: env_Schedule_def)
  then show "waiting P (env_Schedule j p t u db) = waiting P db + of_bool (P j)"
    by (cases p) (auto simp: waiting_def queued_def)
qed

lemma frame_cfds:
  assumes "cfds db' = cfds db" "flush_queue db' = flush_queue db"
    "compaction_queue db' = compaction_queue db" "running db' = running db" "manuals db' = manuals db"
    "\<And>mm cf. waiting (job_holds mm cf) db' = waiting (job_holds mm cf) db"
    "\<And>m. waiting (is_manual m) db' = waiting (is_manual m) db"
  shows "queues_ok db' = queues_ok db" "refs_ok h db' = refs_ok h db" "manual_ok db' = manual_ok db"
  using assms by (simp_all add: queues_ok_def refs_ok_def needed_def manual_ok_def manual_jobs_def)

lemma schedule_flush_frame [simp]:
  "cfds (schedule_flush pri db) = cfds db"
  "manuals (schedule_flush pri db) = manuals db"
  "running (schedule_flush pri db) = running db"
  "taken (schedule_flush pri db) = taken db"
  "flush_queue (schedule_flush pri db) = flush_queue db"
  "compaction_queue (schedule_flush pri db) = compaction_queue db"
  "bg_purge_scheduled (schedule_flush pri db) = bg_purge_scheduled db"
  "num_running_flushes (schedule_flush pri db) = num_running_flushes db"
  "num_running_compactions (schedule_flush pri db) = num_running_compactions db"
  "GetBGJobLimits (schedule_flush pri db) = GetBGJobLimits db"
  by (simp_all add: schedule_flush_def) (simp add: GetBGJobLimits_def)

lemma schedule_compaction_frame [simp]:
  "cfds (schedule_compaction pri db) = cfds db"
  "manuals (schedule_compaction pri db) = manuals db"
  "running (schedule_compaction pri db) = running db"
  "taken (schedule_compaction pri db) = taken db"
  "flush_queue (schedule_compaction pri db) = flush_queue db"
  "compaction_queue (schedule_compaction pri db) = compaction_queue db"
  "bg_purge_scheduled (schedule_compaction pri db) = bg_purge_scheduled db"
  "num_running_flushes (schedule_compaction pri db) = num_running_flushes db"
  "num_running_compactions (schedule_compaction pri db) = num_running_compactions db"
  "GetBGJobLimits (schedule_compaction pri db) = GetBGJobLimits db"
  by (simp_all add: schedule_compaction_def) (simp add: GetBGJobLimits_def)

lemma schedule_waiting:
  assumes "pools_ok db"
  shows "pools_ok (schedule_flush pri db)" "pools_ok (schedule_compaction pri db)"
    "waiting P (schedule_flush pri db) = waiting P db + of_bool (P BGWorkFlush)"
    "waiting P (schedule_compaction pri db) = waiting P db + of_bool (P (BGWorkCompaction None))"
proof -
  have "pools_ok (db\<lparr>unscheduled_flushes := a, bg_flush_scheduled := b\<rparr>)"
    "pools_ok (db\<lparr>bg_compaction_scheduled := a, unscheduled_compactions := b\<rparr>)" for a b
    using assms by (simp_all add: pools_ok_def)
  note s = env_Schedule_pools [OF this(1)] env_Schedule_pools [OF this(2)]
  have "waiting P (db\<lparr>unscheduled_flushes := a, bg_flush_scheduled := b\<rparr>) = waiting P db"
    "waiting P (db\<lparr>bg_compaction_scheduled := a, unscheduled_compactions := b\<rparr>) = waiting P db" for a b
    by (simp_all add: waiting_def queued_def)
  then show "pools_ok (schedule_flush pri db)" "pools_ok (schedule_compaction pri db)"
    "waiting P (schedule_flush pri db) = waiting P db + of_bool (P BGWorkFlush)"
    "waiting P (schedule_compaction pri db) = waiting P db + of_bool (P (BGWorkCompaction None))"
    by (simp_all add: schedule_flush_def schedule_compaction_def s job_tag_def)
qed

lemma schedule_inv:
  assumes "sched_inv h db"
  shows "0 < unscheduled_flushes db \<Longrightarrow> bg_flush_scheduled db < max_flushes (GetBGJobLimits db) \<Longrightarrow>
           sched_inv h (schedule_flush pri db)"
    and "0 < unscheduled_compactions db \<Longrightarrow> sched_inv h (schedule_compaction pri db)"
proof -
  have p: "pools_ok db"
    using assms by (simp add: sched_inv_def counters_ok_def)
  show "0 < unscheduled_flushes db \<Longrightarrow> bg_flush_scheduled db < max_flushes (GetBGJobLimits db) \<Longrightarrow>
      sched_inv h (schedule_flush pri db)"
    using assms by (simp add: sched_inv_def counters_ok_def limit_ok_def schedule_waiting [OF p]
        frame_cfds [of "schedule_flush pri db" db])
  show "0 < unscheduled_compactions db \<Longrightarrow> sched_inv h (schedule_compaction pri db)"
    using assms by (simp add: sched_inv_def counters_ok_def limit_ok_def schedule_waiting [OF p]
        frame_cfds [of "schedule_compaction pri db" db])
qed

lemma loops_inv:
  assumes "sched_inv h db"
  shows "limit \<le> max_flushes (GetBGJobLimits db) \<Longrightarrow> sched_inv h (flush_loop_high limit db)"
    and "limit \<le> max_flushes (GetBGJobLimits db) \<Longrightarrow> sched_inv h (flush_loop_low limit db)"
    and "sched_inv h (compaction_loop limit db)"
proof -
  show "limit \<le> max_flushes (GetBGJobLimits db) \<Longrightarrow> sched_inv h (flush_loop_high limit db)"
    using assms
  proof (induction limit db rule: flush_loop_high.induct)
    case (1 limit db)
    then show ?case
      using schedule_inv(1) [OF "1.prems"(2)] by (subst flush_loop_high.simps) simp
  qed
  show "limit \<le> max_flushes (GetBGJobLimits db) \<Longrightarrow> sched_inv h (flush_loop_low limit db)"
    using assms
  proof (induction limit db rule: flush_loop_low.induct)
    case (1 limit db)
    then have "0 \<le> bg_compaction_scheduled db"
      by (simp add: sched_inv_def counters_ok_def waiting_nonneg)
    then show ?case
      using schedule_inv(1) [OF "1.prems"(2)] 1 by (subst flush_loop_low.simps) simp
  qed
  show "sched_inv h (compaction_loop limit db)"
    using assms
  proof (induction limit db rule: compaction_loop.induct)
    case (1 limit db)
    then show ?case
      using schedule_inv(2) [OF "1.prems"] by (subst compaction_loop.simps) simp
  qed
qed

text \<open>The stages of \<open>MaybeScheduleFlushOrCompaction\<close>: after the flushes, and after SILK's compaction.\<close>

definition flush_stage :: "DBImpl \<Rightarrow> DBImpl" where
  "flush_stage db =
     (if GetBackgroundThreads (env_pool db HIGH) = 0
      then flush_loop_low (max_flushes (GetBGJobLimits db)) db
      else flush_loop_high (max_flushes (GetBGJobLimits db)) db)"

definition silk_stage :: "DBImpl \<Rightarrow> DBImpl" where
  "silk_stage db =
     (if silk_high_compaction (flush_stage db) then schedule_compaction HIGH (flush_stage db)
      else flush_stage db)"

lemma MaybeSchedule_stages:
  "MaybeScheduleFlushOrCompaction db =
     (if \<not> opened_successfully db \<or> 0 < bg_work_paused db \<or> shutting_down db then db
      else if 0 < bg_compaction_paused (silk_stage db) \<or> HasExclusiveManualCompaction (silk_stage db)
      then silk_stage db
      else compaction_loop (max_compactions (GetBGJobLimits db)) (silk_stage db))"
  by (simp add: MaybeScheduleFlushOrCompaction_def Let_def silk_stage_def flush_stage_def)

lemma stages_inv:
  assumes "sched_inv h db"
  shows "sched_inv h (flush_stage db)" "sched_inv h (silk_stage db)"
proof -
  show 1: "sched_inv h (flush_stage db)"
    using loops_inv(1,2) [OF assms] by (simp add: flush_stage_def)
  show "sched_inv h (silk_stage db)"
    using schedule_inv(2) [OF 1] 1 by (simp add: silk_stage_def silk_high_compaction_def)
qed

lemma MaybeSchedule_inv:
  assumes "sched_inv h db"
  shows "sched_inv h (MaybeScheduleFlushOrCompaction db)"
  using assms stages_inv(2) [OF assms] loops_inv(3) unfolding MaybeSchedule_stages by simp

text \<open>What scheduling leaves alone.\<close>

definition same_cfs :: "DBImpl \<Rightarrow> DBImpl \<Rightarrow> bool" where
  "same_cfs db db' \<longleftrightarrow> cfds db' = cfds db \<and> flush_queue db' = flush_queue db
     \<and> compaction_queue db' = compaction_queue db \<and> running db' = running db \<and> taken db' = taken db
     \<and> manuals db' = manuals db \<and> manual_compaction_dequeue db' = manual_compaction_dequeue db
     \<and> bg_error db' = bg_error db \<and> shutting_down db' = shutting_down db
     \<and> bg_work_paused db' = bg_work_paused db \<and> bg_compaction_paused db' = bg_compaction_paused db
     \<and> opened_successfully db' = opened_successfully db \<and> paranoid_checks db' = paranoid_checks db
     \<and> refitting_level db' = refitting_level db \<and> purge_queue db' = purge_queue db
     \<and> logs_to_free_queue db' = logs_to_free_queue db \<and> write_controller db' = write_controller db
     \<and> num_running_ingest_file db' = num_running_ingest_file db"

lemma same_cfs_refl [simp]: "same_cfs db db"
  by (simp add: same_cfs_def)

lemma same_cfs_trans: "same_cfs db db' \<Longrightarrow> same_cfs db' db'' \<Longrightarrow> same_cfs db db''"
  by (simp add: same_cfs_def)

lemma schedule_same_cfs:
  "same_cfs db (schedule_flush pri db)" "same_cfs db (schedule_compaction pri db)"
  by (simp_all add: same_cfs_def schedule_flush_def schedule_compaction_def env_Schedule_def)

lemma loops_same_cfs:
  "same_cfs db (flush_loop_high limit db)" "same_cfs db (flush_loop_low limit db)"
  "same_cfs db (compaction_loop limit db)"
proof -
  show "same_cfs db (flush_loop_high limit db)"
  proof (induction limit db rule: flush_loop_high.induct)
    case (1 limit db)
    then show ?case
      by (subst flush_loop_high.simps) (auto intro: same_cfs_trans [OF schedule_same_cfs(1)])
  qed
  show "same_cfs db (flush_loop_low limit db)"
  proof (induction limit db rule: flush_loop_low.induct)
    case (1 limit db)
    then show ?case
      by (subst flush_loop_low.simps) (auto intro: same_cfs_trans [OF schedule_same_cfs(1)])
  qed
  show "same_cfs db (compaction_loop limit db)"
  proof (induction limit db rule: compaction_loop.induct)
    case (1 limit db)
    then show ?case
      by (subst compaction_loop.simps) (auto intro: same_cfs_trans [OF schedule_same_cfs(2)])
  qed
qed

lemma stages_same_cfs: "same_cfs db (flush_stage db)" "same_cfs db (silk_stage db)"
proof -
  show 1: "same_cfs db (flush_stage db)"
    by (simp add: flush_stage_def loops_same_cfs)
  show "same_cfs db (silk_stage db)"
    using 1 same_cfs_trans [OF 1 schedule_same_cfs(2)] by (simp add: silk_stage_def)
qed

lemma MaybeSchedule_same_cfs: "same_cfs db (MaybeScheduleFlushOrCompaction db)"
  using stages_same_cfs(2) same_cfs_trans [OF stages_same_cfs(2) loops_same_cfs(3)]
  unfolding MaybeSchedule_stages by simp

section \<open>The other operations keep the invariant\<close>

text \<open>Changing only the figures, options or write stall state of a column family.\<close>

lemma update_cfd_sel [simp]:
  "flush_queue (update_cfd cf f db) = flush_queue db"
  "compaction_queue (update_cfd cf f db) = compaction_queue db"
  "running (update_cfd cf f db) = running db"
  "manuals (update_cfd cf f db) = manuals db"
  "taken (update_cfd cf f db) = taken db"
  "env_pool (update_cfd cf f db) = env_pool db"
  "unscheduled_flushes (update_cfd cf f db) = unscheduled_flushes db"
  "unscheduled_compactions (update_cfd cf f db) = unscheduled_compactions db"
  "bg_flush_scheduled (update_cfd cf f db) = bg_flush_scheduled db"
  "bg_compaction_scheduled (update_cfd cf f db) = bg_compaction_scheduled db"
  "bg_purge_scheduled (update_cfd cf f db) = bg_purge_scheduled db"
  "num_running_flushes (update_cfd cf f db) = num_running_flushes db"
  "num_running_compactions (update_cfd cf f db) = num_running_compactions db"
  "GetBGJobLimits (update_cfd cf f db) = GetBGJobLimits db"
  "waiting P (update_cfd cf f db) = waiting P db"
  "pools_ok (update_cfd cf f db) = pools_ok db"
  "cfds (update_cfd cf f db) cf' = (if cf' = cf then f (cfds db cf) else cfds db cf')"
  by (simp_all add: update_cfd_def GetBGJobLimits_def waiting_def queued_def pools_ok_def)

lemma update_cfd_counters [simp]:
  "counters_ok (update_cfd cf f db) = counters_ok db"
  "limit_ok (update_cfd cf f db) = limit_ok db"
  "needed cf' (update_cfd cf f db) = needed cf' db"
  "manual_ok (update_cfd cf f db) = manual_ok db"
  by (simp_all add: counters_ok_def limit_ok_def needed_def manual_ok_def manual_jobs_def)

lemma update_cfd_inv:
  assumes "sched_inv h db"
    and "\<And>c. pending_flush (f c) = pending_flush c" "\<And>c. pending_compaction (f c) = pending_compaction c"
    and "\<And>c. refs (f c) = refs c" "\<And>c. deleted (f c) = deleted c"
  shows "sched_inv h (update_cfd cf f db)"
  using assms by (auto simp: sched_inv_def queues_ok_def refs_ok_def)

text \<open>Changing fields the invariant does not mention.\<close>

lemma sched_inv_frame [simp]:
  "sched_inv h (db\<lparr>bg_error := e\<rparr>) = sched_inv h db"
  "sched_inv h (db\<lparr>bg_work_paused := n\<rparr>) = sched_inv h db"
  "sched_inv h (db\<lparr>bg_compaction_paused := n\<rparr>) = sched_inv h db"
  "sched_inv h (db\<lparr>shutting_down := b\<rparr>) = sched_inv h db"
  "sched_inv h (db\<lparr>opened_successfully := b\<rparr>) = sched_inv h db"
  "sched_inv h (db\<lparr>refitting_level := b\<rparr>) = sched_inv h db"
  "sched_inv h (db\<lparr>num_running_ingest_file := n\<rparr>) = sched_inv h db"
  "sched_inv h (db\<lparr>manual_compaction_dequeue := mq\<rparr>) = sched_inv h db"
  "sched_inv h (db\<lparr>purge_queue := pq\<rparr>) = sched_inv h db"
  "sched_inv h (db\<lparr>logs_to_free_queue := lq\<rparr>) = sched_inv h db"
  by (simp_all add: sched_inv_def counters_ok_def limit_ok_def queues_ok_def refs_ok_def needed_def
      manual_ok_def manual_jobs_def GetBGJobLimits_def waiting_def queued_def pools_ok_def)

lemma limits_flushes [simp]: "max_flushes (GetBGJobLimits (db\<lparr>write_controller := wc\<rparr>)) = max_flushes (GetBGJobLimits db)"
  by (simp add: GetBGJobLimits_def BGJobLimits_for_def Let_def)

lemma sched_inv_write_controller [simp]: "sched_inv h (db\<lparr>write_controller := wc\<rparr>) = sched_inv h db"
  by (simp add: sched_inv_def counters_ok_def limit_ok_def queues_ok_def refs_ok_def needed_def
      manual_ok_def manual_jobs_def waiting_def queued_def pools_ok_def)

text \<open>A manual compaction keeps the invariant under updates of the fields that no job reads.\<close>

lemma job_holds_update:
  assumes "\<And>x. mc_compaction (f x) = mc_compaction x"
  shows "job_holds (mm(m := f (mm m))) cf = job_holds mm cf"
proof
  fix j
  show "job_holds (mm(m := f (mm m))) cf j = job_holds mm cf j"
    using assms by (induction "mm" cf j rule: job_holds.induct) auto
qed

lemma update_manual_inv:
  assumes "\<And>x. mc_compaction (f x) = mc_compaction x" "\<And>x. mc_scheduled (f x) = mc_scheduled x"
    and "\<And>x. incomplete (f x) \<Longrightarrow> incomplete x"
    and "sched_inv h db"
  shows "sched_inv h (update_manual m f db)"
  using assms(4) assms(2,3)
  by (auto simp: sched_inv_def counters_ok_def limit_ok_def queues_ok_def refs_ok_def needed_def
      manual_ok_def manual_jobs_def waiting_def queued_def pools_ok_def update_manual_def
      GetBGJobLimits_def job_holds_update [of f, OF assms(1)])

lemma set_bg_error_inv [simp]: "sched_inv h (set_bg_error e db) = sched_inv h db"
  by (simp add: set_bg_error_def)

lemma InstallSuperVersion_inv:
  assumes "sched_inv h db"
  shows "sched_inv h (InstallSuperVersion rd cf new db)"
  unfolding InstallSuperVersion_def Let_def case_prod_beta
  by (intro update_cfd_inv) (simp_all add: assms update_cfd_inv)

lemma needed_nonneg: "0 \<le> needed cf db"
  by (simp add: needed_def waiting_nonneg)

text \<open>A column family that enters a queue brings a reference and one more unscheduled job.\<close>

lemma AddToQueue_frame [simp]:
  "waiting P (AddToFlushQueue cf db) = waiting P db"
  "waiting P (AddToCompactionQueue cf db) = waiting P db"
  "manuals (AddToFlushQueue cf db) = manuals db"
  "manuals (AddToCompactionQueue cf db) = manuals db"
  by (simp_all add: AddToFlushQueue_def AddToCompactionQueue_def Ref_def Let_def)

lemma AddToFlushQueue_inv:
  assumes "sched_inv h db" and "\<not> pending_flush (cfds db cf)" and "\<not> deleted (cfds db cf)"
  shows "sched_inv h ((AddToFlushQueue cf db)\<lparr>unscheduled_flushes := unscheduled_flushes db + 1\<rparr>)"
proof -
  let ?db = "(AddToFlushQueue cf db)\<lparr>unscheduled_flushes := unscheduled_flushes db + 1\<rparr>"
  have new: "cf \<notin> set (flush_queue db)"
    using assms by (auto simp: sched_inv_def queues_ok_def)
  have sel: "flush_queue ?db = flush_queue db @ [cf]" "compaction_queue ?db = compaction_queue db"
    "running ?db = running db"
    "cfds ?db = (cfds db)(cf := (cfds db cf)\<lparr>refs := refs (cfds db cf) + 1, pending_flush := True\<rparr>)"
    by (simp_all add: AddToFlushQueue_def Ref_def Let_def update_cfd_def)
  have "counters_ok ?db" "limit_ok ?db"
    using assms(1) by (simp_all add: sched_inv_def counters_ok_def limit_ok_def AddToFlushQueue_def
        Ref_def Let_def update_cfd_def waiting_def queued_def pools_ok_def GetBGJobLimits_def)
  moreover have "queues_ok ?db"
    using assms(1) new by (auto simp: sched_inv_def queues_ok_def sel)
  moreover have "needed cf' ?db = needed cf' db + of_bool (cf' = cf)" for cf'
    using new by (auto simp: needed_def sel)
  then have "refs_ok h ?db"
    using assms(1,3) by (auto simp: sched_inv_def refs_ok_def sel)
  moreover have "manual_ok ?db"
    using assms(1) by (simp add: sched_inv_def manual_ok_def manual_jobs_def sel)
  ultimately show ?thesis
    by (simp add: sched_inv_def)
qed

lemma AddToCompactionQueue_inv:
  assumes "sched_inv h db" and "\<not> pending_compaction (cfds db cf)" and "\<not> deleted (cfds db cf)"
  shows "sched_inv h ((AddToCompactionQueue cf db)\<lparr>unscheduled_compactions := unscheduled_compactions db + 1\<rparr>)"
proof -
  let ?db = "(AddToCompactionQueue cf db)\<lparr>unscheduled_compactions := unscheduled_compactions db + 1\<rparr>"
  have new: "cf \<notin> set (compaction_queue db)"
    using assms by (auto simp: sched_inv_def queues_ok_def)
  have sel: "flush_queue ?db = flush_queue db" "compaction_queue ?db = compaction_queue db @ [cf]"
    "running ?db = running db"
    "cfds ?db = (cfds db)(cf := (cfds db cf)\<lparr>refs := refs (cfds db cf) + 1, pending_compaction := True\<rparr>)"
    by (simp_all add: AddToCompactionQueue_def Ref_def Let_def update_cfd_def)
  have "counters_ok ?db" "limit_ok ?db"
    using assms(1) by (simp_all add: sched_inv_def counters_ok_def limit_ok_def AddToCompactionQueue_def
        Ref_def Let_def update_cfd_def waiting_def queued_def pools_ok_def GetBGJobLimits_def)
  moreover have "queues_ok ?db"
    using assms(1) new by (auto simp: sched_inv_def queues_ok_def sel)
  moreover have "needed cf' ?db = needed cf' db + of_bool (cf' = cf)" for cf'
    using new by (auto simp: needed_def sel)
  then have "refs_ok h ?db"
    using assms(1,3) by (auto simp: sched_inv_def refs_ok_def sel)
  moreover have "manual_ok ?db"
    using assms(1) by (simp add: sched_inv_def manual_ok_def manual_jobs_def sel)
  ultimately show ?thesis
    by (simp add: sched_inv_def)
qed

lemma AddToQueue_sel [simp]:
  "unscheduled_flushes (AddToFlushQueue cf db) = unscheduled_flushes db"
  "unscheduled_compactions (AddToCompactionQueue cf db) = unscheduled_compactions db"
  by (simp_all add: AddToFlushQueue_def AddToCompactionQueue_def Ref_def Let_def update_cfd_def)

lemma SchedulePendingFlush_inv:
  "sched_inv h db \<Longrightarrow> \<not> deleted (cfds db cf) \<Longrightarrow> sched_inv h (SchedulePendingFlush cf db)"
  by (simp add: SchedulePendingFlush_def Let_def AddToFlushQueue_inv)

lemma SchedulePendingCompaction_inv:
  "sched_inv h db \<Longrightarrow> \<not> deleted (cfds db cf) \<Longrightarrow> sched_inv h (SchedulePendingCompaction cf db)"
  by (simp add: SchedulePendingCompaction_def Let_def AddToCompactionQueue_inv)

lemma deleted_frame [simp]:
  "deleted (cfds (SchedulePendingFlush cf db) cf') = deleted (cfds db cf')"
  "deleted (cfds (InstallSuperVersion rd cf new db) cf') = deleted (cfds db cf')"
  by (simp_all add: SchedulePendingFlush_def AddToFlushQueue_def Ref_def Let_def update_cfd_def
      InstallSuperVersion_def split: prod.split)

lemma InstallAndSchedule_inv:
  assumes "sched_inv h db" and "\<not> deleted (cfds db cf)"
  shows "sched_inv h (InstallSuperVersionAndScheduleWork rd cf new db)"
  unfolding InstallSuperVersionAndScheduleWork_def
  by (intro MaybeSchedule_inv SchedulePendingCompaction_inv SchedulePendingFlush_inv
      InstallSuperVersion_inv assms(1)) (simp_all add: assms(2))

text \<open>Dropping a reference that was held, and leaving a queue with the queue's reference.\<close>

lemma refs_okI:
  assumes "sched_inv h db" and "\<And>cf. needed cf db' + h' cf \<le> needed cf db + h cf"
    and "\<And>cf. refs (cfds db' cf) = refs (cfds db cf)" "\<And>cf. deleted (cfds db' cf) = deleted (cfds db cf)"
  shows "refs_ok h' db'"
  using assms order_trans unfolding sched_inv_def refs_ok_def by fastforce

lemma sched_inv_refs:
  assumes "sched_inv h db"
  shows "needed cf db + h cf \<le> refs (cfds db cf)" and "deleted (cfds db cf) \<Longrightarrow> refs (cfds db cf) = 0"
  using assms by (auto simp: sched_inv_def refs_ok_def)

lemma Unref_sel [simp]:
  "refs (cfds (snd (Unref cf db)) cf') = refs (cfds db cf') - of_bool (cf' = cf)"
  "deleted (cfds (snd (Unref cf db)) cf') \<longleftrightarrow> deleted (cfds db cf') \<or> cf' = cf \<and> refs (cfds db cf) = 1"
  "pending_flush (cfds (snd (Unref cf db)) cf') = pending_flush (cfds db cf')"
  "pending_compaction (cfds (snd (Unref cf db)) cf') = pending_compaction (cfds db cf')"
  "counters_ok (snd (Unref cf db)) = counters_ok db"
  "limit_ok (snd (Unref cf db)) = limit_ok db"
  "needed cf' (snd (Unref cf db)) = needed cf' db"
  "manual_ok (snd (Unref cf db)) = manual_ok db"
  "flush_queue (snd (Unref cf db)) = flush_queue db"
  "compaction_queue (snd (Unref cf db)) = compaction_queue db"
  "fst (Unref cf db) \<longleftrightarrow> refs (cfds db cf) = 1"
  by (auto simp: Unref_def Let_def)

lemma Unref_inv:
  assumes "sched_inv h db" and "0 < h cf"
  shows "sched_inv (h(cf := h cf - 1)) (snd (Unref cf db))"
proof -
  have ref: "needed cf db + h cf \<le> refs (cfds db cf)" "\<not> deleted (cfds db cf)"
    using sched_inv_refs [OF assms(1), of cf] needed_nonneg [of cf db] assms(2) by auto
  have lt: "needed cf db + (h cf - 1) < refs (cfds db cf)"
    using ref(1) by simp
  have "queues_ok (snd (Unref cf db))"
    using assms(1) by (simp add: sched_inv_def queues_ok_def)
  moreover have "refs_ok (h(cf := h cf - 1)) (snd (Unref cf db))"
    using sched_inv_refs [OF assms(1)] ref(2) lt by (auto simp: refs_ok_def)
  ultimately show ?thesis
    using assms(1) by (simp add: sched_inv_def)
qed

lemma PopFlush_inv:
  assumes "sched_inv h db" and "flush_queue db \<noteq> []" and "PopFirstFromFlushQueue db = (cf, db')"
  shows "sched_inv (h(cf := h cf + 1)) db'"
proof -
  obtain q where q: "flush_queue db = cf # q"
    using assms by (cases "flush_queue db") (auto simp: PopFirstFromFlushQueue_def Let_def)
  with assms(1) have new: "cf \<notin> set q"
    by (simp add: sched_inv_def queues_ok_def)
  have db': "db' = update_cfd cf (\<lambda>c. c\<lparr>pending_flush := False\<rparr>) (db\<lparr>flush_queue := q\<rparr>)"
    using assms(3) q by (simp add: PopFirstFromFlushQueue_def Let_def)
  have "counters_ok db'" "limit_ok db'"
    using assms(1) by (simp_all add: db' sched_inv_def counters_ok_def limit_ok_def waiting_def
        queued_def pools_ok_def GetBGJobLimits_def update_cfd_def)
  moreover have "queues_ok db'"
    using assms(1) new by (auto simp: db' sched_inv_def queues_ok_def q)
  moreover have "needed cf' db = needed cf' db' + of_bool (cf' = cf)" for cf'
    using new by (auto simp: db' needed_def q)
  then have "refs_ok (h(cf := h cf + 1)) db'"
    by (intro refs_okI [OF assms(1)]) (simp_all add: db' flip: add.assoc)
  moreover have "manual_ok db'"
    using assms(1) by (simp add: db' sched_inv_def manual_ok_def manual_jobs_def)
  ultimately show ?thesis
    by (simp add: sched_inv_def)
qed

lemma PopCompaction_inv:
  assumes "sched_inv h db" and "PopFirstFromCompactionQueue db = (cf, db')"
    and "unscheduled_compactions db + waiting is_auto db < int (length (compaction_queue db))"
  shows "sched_inv (h(cf := h cf + 1)) db'"
proof -
  have "0 \<le> unscheduled_compactions db"
    using assms(1) by (simp add: sched_inv_def counters_ok_def)
  then have "compaction_queue db \<noteq> []"
    using assms(3) waiting_nonneg [of is_auto db] by force
  then obtain q where q: "compaction_queue db = cf # q"
    using assms by (cases "compaction_queue db") (auto simp: PopFirstFromCompactionQueue_def Let_def)
  with assms(1) have new: "cf \<notin> set q"
    by (simp add: sched_inv_def queues_ok_def)
  have db': "db' = update_cfd cf (\<lambda>c. c\<lparr>pending_compaction := False\<rparr>) (db\<lparr>compaction_queue := q\<rparr>)"
    using assms(2) q by (simp add: PopFirstFromCompactionQueue_def Let_def)
  have "counters_ok db'" "limit_ok db'"
    using assms(1,3) by (simp_all add: db' sched_inv_def counters_ok_def limit_ok_def waiting_def
        queued_def pools_ok_def GetBGJobLimits_def update_cfd_def q)
  moreover have "queues_ok db'"
    using assms(1) new by (auto simp: db' sched_inv_def queues_ok_def q)
  moreover have "needed cf' db = needed cf' db' + of_bool (cf' = cf)" for cf'
    using new by (auto simp: db' needed_def q)
  then have "refs_ok (h(cf := h cf + 1)) db'"
    by (intro refs_okI [OF assms(1)]) (simp_all add: db' flip: add.assoc)
  moreover have "manual_ok db'"
    using assms(1) by (simp add: db' sched_inv_def manual_ok_def manual_jobs_def)
  ultimately show ?thesis
    by (simp add: sched_inv_def)
qed

end
