(* ===== verification/Silk_Steps.thy ===== *)
theory Silk_Steps
  imports Silk_Invariant
begin

text \<open>
  The database as a transition system: one rule for every critical section that a background
  thread or a caller runs under the DB mutex, in any order.  Every reachable state satisfies the
  invariant of the scheduler.
\<close>

section \<open>Steps\<close>

definition start_flush :: "nat option \<Rightarrow> DBImpl \<Rightarrow> DBImpl" where
  "start_flush cfd db =
     (case cfd of
        None \<Rightarrow> db
      | Some cf \<Rightarrow> db\<lparr>running := RunningFlush cf # remove1 EndingFlush (running db)\<rparr>)"

definition start_compaction :: "nat option \<Rightarrow> Status option \<Rightarrow> Compaction option \<Rightarrow> DBImpl \<Rightarrow> DBImpl" where
  "start_compaction arg early c db =
     (if early \<noteq> None then db
      else db\<lparr>running := RunningCompaction arg c # remove1 EndingCompaction (running db)\<rparr>)"

text \<open>
  A thread that takes a job removes it from \<open>taken\<close> when it starts it and is in \<open>running\<close> until it
  has run the last critical section of the job.
\<close>

inductive db_step :: "(rat \<Rightarrow> rat) \<Rightarrow> DBImpl \<Rightarrow> DBImpl \<Rightarrow> bool" for rd where
  take_job: "BGThread i (env_pool db pri) = (RunJob j, p) \<Longrightarrow>
    db_step rd db (db\<lparr>env_pool := (env_pool db)(pri := p), taken := j # taken db\<rparr>)"
| thread_idle: "BGThread i (env_pool db pri) = (a, p) \<Longrightarrow> \<forall>j. a \<noteq> RunJob j \<Longrightarrow>
    db_step rd db (db\<lparr>env_pool := (env_pool db)(pri := p)\<rparr>)"
| flush_begin: "BGWorkFlush \<in> set (taken db) \<Longrightarrow>
    BackgroundCallFlush_begin (db\<lparr>taken := remove1 BGWorkFlush (taken db),
      running := EndingFlush # running db\<rparr>) = (s, cf, db') \<Longrightarrow>
    db_step rd db (start_flush cf db')"
| flush_installed: "RunningFlush cf \<in> set (running db) \<Longrightarrow>
    db_step rd db (BackgroundFlush_installed rd cf s space_reached bg_err new
      (db\<lparr>running := EndingFlush # remove1 (RunningFlush cf) (running db)\<rparr>))"
| flush_end: "EndingFlush \<in> set (running db) \<Longrightarrow>
    db_step rd db (BackgroundCallFlush_end (db\<lparr>running := remove1 EndingFlush (running db)\<rparr>))"
| compaction_begin: "BGWorkCompaction arg \<in> set (taken db) \<Longrightarrow> num_running_ingest_file db = 0 \<Longrightarrow>
    BackgroundCallCompaction_begin pick needs arg (db\<lparr>taken := remove1 (BGWorkCompaction arg) (taken db),
      running := EndingCompaction # running db\<rparr>) = (early, c, db') \<Longrightarrow>
    db_step rd db (start_compaction arg early c db')"
| compaction_finish: "RunningCompaction arg c \<in> set (running db) \<Longrightarrow>
    db_step rd db (BackgroundCompaction_finish rd arg c s bg_err new
      (db\<lparr>running := EndingCompaction # remove1 (RunningCompaction arg c) (running db)\<rparr>))"
| compaction_end: "EndingCompaction \<in> set (running db) \<Longrightarrow>
    db_step rd db (snd (BackgroundCallCompaction_end made_progress
      (db\<lparr>running := remove1 EndingCompaction (running db)\<rparr>)))"
| purge_begin: "BGWorkPurge \<in> set (taken db) \<Longrightarrow>
    db_step rd db (db\<lparr>taken := remove1 BGWorkPurge (taken db), running := RunningPurge # running db\<rparr>)"
| purge_turn: "RunningPurge \<in> set (running db) \<Longrightarrow> BackgroundCallPurge_turn db = Some db' \<Longrightarrow>
    db_step rd db db'"
| purge_end: "RunningPurge \<in> set (running db) \<Longrightarrow> BackgroundCallPurge_turn db = None \<Longrightarrow>
    db_step rd db (BackgroundCallPurge_end (db\<lparr>running := remove1 RunningPurge (running db)\<rparr>))"
| schedule_purge: "db_step rd db (SchedulePurge (SchedulePendingPurge number db))"
| install: "\<not> deleted (cfds db cf) \<Longrightarrow>
    db_step rd db (InstallSuperVersionAndScheduleWork rd cf new db)"
| flush_request: "\<not> deleted (cfds db cf) \<Longrightarrow>
    db_step rd db (snd (FlushMemTable rd cf s switched requested db))"
| drop: "db_step rd db (update_cfd cf (\<lambda>c. c\<lparr>IsDropped := True\<rparr>) db)"
| pause_begin: "db_step rd db (PauseBackgroundWork_begin db)"
| pause_end: "\<not> PauseBackgroundWork_wait db \<Longrightarrow> db_step rd db (PauseBackgroundWork_end db)"
| continue: "db_step rd db (snd (ContinueBackgroundWork db))"
| pause_compaction_begin: "db_step rd db (PauseCompactionWork_begin db)"
| pause_compaction_end: "\<not> PauseCompactionWork_wait db \<Longrightarrow> db_step rd db (PauseCompactionWork_end db)"
| continue_compaction: "db_step rd db (snd (ContinueCompactionWork db))"
| manual_add: "manual_jobs m db = 0 \<Longrightarrow> \<not> deleted (cfds db cf) \<Longrightarrow>
    db_step rd db (RunManualCompaction_add m cf inl outl b e ls excl no_move db)"
| manual_turn: "\<not> deleted (cfds db (mc_cfd (manuals db m))) \<Longrightarrow>
    db_step rd db (snd (RunManualCompaction_turn m c_range db))"
| manual_woken: "db_step rd db (RunManualCompaction_woken m db)"
| refit: "\<not> deleted (cfds db cf) \<Longrightarrow>
    db_step rd db (snd (ReFitLevel rd cf level target s new db))"
| ingest: "db_step rd db (db\<lparr>num_running_ingest_file := n\<rparr>)"
| shutdown: "db_step rd db (CancelAllBackgroundWork db)"

section \<open>Job bookkeeping\<close>

lemma sched_inv_parts:
  assumes "sched_inv h db"
  shows "counters_ok db" "limit_ok db" "queues_ok db" "refs_ok h db" "manual_ok db" "pools_ok db"
  using assms by (auto simp: sched_inv_def counters_ok_def)

text \<open>Everything the invariant reads of a state, so that two states that agree on it agree on the invariant.\<close>

lemma sched_inv_cong:
  assumes "sched_inv h db"
    and "pools_ok db'" "cfds db' = cfds db" "manuals db' = manuals db"
    and "flush_queue db' = flush_queue db" "compaction_queue db' = compaction_queue db"
    and "bg_flush_scheduled db' = waiting is_flush db' + cnt runs_flush (running db')"
    and "bg_flush_scheduled db' \<le> bg_flush_scheduled db" "GetBGJobLimits db' = GetBGJobLimits db"
    and "bg_compaction_scheduled db' = waiting is_compaction db' + cnt runs_compaction (running db')"
    and "bg_purge_scheduled db' = waiting is_purge db' + cnt runs_purge (running db')"
    and "num_running_flushes db' = cnt runs_flush (running db')"
    and "num_running_compactions db' = cnt runs_compaction (running db')"
    and "unscheduled_flushes db' = unscheduled_flushes db"
    and "unscheduled_compactions db' = unscheduled_compactions db"
    and "waiting is_auto db' \<le> waiting is_auto db"
    and "\<And>cf. cnt (holds cf) (running db') + waiting (job_holds (manuals db) cf) db' + h' cf
              \<le> cnt (holds cf) (running db) + waiting (job_holds (manuals db) cf) db + h cf"
    and "\<And>m. manual_jobs m db' \<le> manual_jobs m db
      \<or> manual_jobs m db' \<le> 1 \<and> mc_scheduled (manuals db m) \<and> \<not> incomplete (manuals db m)"
  shows "sched_inv h' db'"
proof -
  note parts = sched_inv_parts [OF assms(1)]
  have "counters_ok db'" "limit_ok db'" "queues_ok db'"
    using parts(1-3) assms by (auto simp: counters_ok_def limit_ok_def queues_ok_def)
  moreover have "refs_ok h' db'"
  proof (intro refs_okI [OF assms(1)])
    fix cf
    show "needed cf db' + h' cf \<le> needed cf db + h cf"
      using assms(17) [of cf] assms(4,5,6) by (simp add: needed_def)
  qed (simp_all add: assms)
  moreover have "manual_ok db'"
    unfolding manual_ok_def
  proof
    fix m
    have "manual_jobs m db \<le> 1 \<and> (0 < manual_jobs m db \<longrightarrow>
        mc_scheduled (manuals db m) \<and> \<not> incomplete (manuals db m))"
      using parts(5) by (simp add: manual_ok_def)
    then show "manual_jobs m db' \<le> 1 \<and> (0 < manual_jobs m db' \<longrightarrow>
        mc_scheduled (manuals db' m) \<and> \<not> incomplete (manuals db' m))"
      using assms(4) assms(18) [of m] by auto
  qed
  ultimately show ?thesis
    by (simp add: sched_inv_def)
qed

lemma pool_update_waiting:
  "waiting P (db\<lparr>env_pool := (env_pool db)(pri := p), taken := t\<rparr>)
     = waiting P db + cnt (\<lambda>j. P (snd j)) (pool_jobs p) - queued P pri db + cnt P t - cnt P (taken db)"
  by (cases pri) (simp_all add: waiting_def queued_def)

lemma take_job_inv:
  assumes "sched_inv h db" and "BGThread i (env_pool db pri) = (RunJob j, p)"
  shows "sched_inv h (db\<lparr>env_pool := (env_pool db)(pri := p), taken := j # taken db\<rparr>)"
proof -
  note parts = sched_inv_parts [OF assms(1)]
  have inv: "pool_inv (env_pool db pri)"
    using parts(6) by (cases pri) (auto simp: pools_ok_def)
  from bg_pool.take_job [OF inv assms(2)] obtain t where
    t: "pool_jobs (env_pool db pri) = (t, j) # pool_jobs p" "pool_inv p"
    by blast
  let ?db = "db\<lparr>env_pool := (env_pool db)(pri := p), taken := j # taken db\<rparr>"
  have w: "waiting P ?db = waiting P db" for P
    by (simp add: pool_update_waiting queued_def t)
  have "pools_ok ?db"
    using parts(6) t by (cases pri) (auto simp: pools_ok_def tagged_def)
  then show ?thesis
    by (rule sched_inv_cong [OF assms(1)]) (use parts(1) in \<open>simp_all add: w counters_ok_def
        manual_jobs_def GetBGJobLimits_def\<close>)
qed

lemma thread_idle_inv:
  assumes "sched_inv h db" and "BGThread i (env_pool db pri) = (a, p)" and "\<forall>j. a \<noteq> RunJob j"
  shows "sched_inv h (db\<lparr>env_pool := (env_pool db)(pri := p)\<rparr>)"
proof -
  note parts = sched_inv_parts [OF assms(1)]
  have inv: "pool_inv (env_pool db pri)"
    using parts(6) by (cases pri) (auto simp: pools_ok_def)
  note t = bg_pool.take_other [OF inv assms(2,3)]
  let ?db = "db\<lparr>env_pool := (env_pool db)(pri := p)\<rparr>"
  have w: "waiting P ?db = waiting P db" for P
    using pool_update_waiting [where P = P and db = db and pri = pri and p = p and t = "taken db"] t by (simp add: queued_def)
  have "pools_ok ?db"
    using parts(6) t by (cases pri) (auto simp: pools_ok_def tagged_def)
  then show ?thesis
    by (rule sched_inv_cong [OF assms(1)]) (use parts(1) in \<open>simp_all add: w counters_ok_def
        manual_jobs_def GetBGJobLimits_def\<close>)
qed

lemma waiting_remove:
  "j \<in> set (taken db) \<Longrightarrow> waiting P (db\<lparr>taken := remove1 j (taken db)\<rparr>) = waiting P db - of_bool (P j)"
  by (simp add: waiting_def queued_def cnt_remove1)

lemma start_job_inv:
  assumes "sched_inv h db" and "j \<in> set (taken db)"
  shows "j = BGWorkFlush \<Longrightarrow> sched_inv h (db\<lparr>taken := remove1 j (taken db),
           running := EndingFlush # running db, num_running_flushes := num_running_flushes db + 1\<rparr>)"
    and "j = BGWorkCompaction arg \<Longrightarrow>
         sched_inv (\<lambda>cf. h cf + of_bool (job_holds (manuals db) cf j))
           (db\<lparr>taken := remove1 j (taken db), running := EndingCompaction # running db,
              num_running_compactions := num_running_compactions db + 1\<rparr>)"
    and "j = BGWorkPurge \<Longrightarrow> sched_inv h (db\<lparr>taken := remove1 j (taken db),
           running := RunningPurge # running db\<rparr>)"
proof -
  note parts = sched_inv_parts [OF assms(1)]
  show "j = BGWorkFlush \<Longrightarrow> sched_inv h (db\<lparr>taken := remove1 j (taken db),
      running := EndingFlush # running db, num_running_flushes := num_running_flushes db + 1\<rparr>)"
    by (rule sched_inv_cong [OF assms(1)]) (use parts(1) assms(2) in \<open>simp_all add: waiting_remove counters_ok_def
        manual_jobs_def GetBGJobLimits_def pools_ok_def\<close>)
  show "j = BGWorkCompaction arg \<Longrightarrow> sched_inv (\<lambda>cf. h cf + of_bool (job_holds (manuals db) cf j))
      (db\<lparr>taken := remove1 j (taken db), running := EndingCompaction # running db,
         num_running_compactions := num_running_compactions db + 1\<rparr>)"
    by (rule sched_inv_cong [OF assms(1)]) (use parts(1) assms(2) in \<open>simp_all add: waiting_remove counters_ok_def
        manual_jobs_def GetBGJobLimits_def pools_ok_def\<close>)
  show "j = BGWorkPurge \<Longrightarrow> sched_inv h (db\<lparr>taken := remove1 j (taken db),
      running := RunningPurge # running db\<rparr>)"
    by (rule sched_inv_cong [OF assms(1)]) (use parts(1) assms(2) in \<open>simp_all add: waiting_remove counters_ok_def
        manual_jobs_def GetBGJobLimits_def pools_ok_def\<close>)
qed

text \<open>A job that has been started is replaced by another phase of the same job.\<close>

lemma replace_running_inv:
  assumes "sched_inv h db" and "r \<in> set (running db)"
    and "runs_flush r' = runs_flush r" "runs_compaction r' = runs_compaction r"
    and "runs_purge r' = runs_purge r"
    and "\<And>m. runs_manual m r' \<Longrightarrow> \<not> runs_manual m r \<Longrightarrow>
           manual_jobs m db = 0 \<and> mc_scheduled (manuals db m) \<and> \<not> incomplete (manuals db m)"
    and "\<And>cf. h' cf + of_bool (holds cf r') \<le> h cf + of_bool (holds cf r)"
  shows "sched_inv h' (db\<lparr>running := r' # remove1 r (running db)\<rparr>)"
proof -
  note parts = sched_inv_parts [OF assms(1)]
  have c: "cnt P (r' # remove1 r (running db)) = cnt P (running db) + of_bool (P r') - of_bool (P r)" for P
    using assms(2) by (simp add: cnt_remove1)
  have jobs: "manual_jobs m (db\<lparr>running := r' # remove1 r (running db)\<rparr>)
      = manual_jobs m db + of_bool (runs_manual m r') - of_bool (runs_manual m r)" for m
    by (simp add: manual_jobs_def c del: cnt_simps)
  have m: "manual_jobs m (db\<lparr>running := r' # remove1 r (running db)\<rparr>) \<le> manual_jobs m db
      \<or> manual_jobs m (db\<lparr>running := r' # remove1 r (running db)\<rparr>) \<le> 1
         \<and> mc_scheduled (manuals db m) \<and> \<not> incomplete (manuals db m)" for m
    using assms(6) [of m] unfolding jobs by (cases "runs_manual m r'"; cases "runs_manual m r") auto
  have hold: "cnt (holds cf) (r' # remove1 r (running db)) + h' cf \<le> cnt (holds cf) (running db) + h cf" for cf
    using assms(7) [of cf] unfolding c by simp
  show ?thesis
    by (rule sched_inv_cong [OF assms(1) _ _ _ _ _ _ _ _ _ _ _ _ _ _ _ _ m])
      (use parts(1) assms(3-5) hold in \<open>simp_all add: counters_ok_def
        GetBGJobLimits_def pools_ok_def c algebra_simps del: cnt_simps\<close>)
qed

lemma end_job_inv:
  assumes "sched_inv h db" and "r \<in> set (running db)"
  shows "r = EndingFlush \<Longrightarrow> sched_inv h (db\<lparr>running := remove1 r (running db),
           num_running_flushes := num_running_flushes db - 1,
           bg_flush_scheduled := bg_flush_scheduled db - 1\<rparr>)"
    and "r = EndingCompaction \<Longrightarrow> sched_inv h (db\<lparr>running := remove1 r (running db),
           num_running_compactions := num_running_compactions db - 1,
           bg_compaction_scheduled := bg_compaction_scheduled db - 1\<rparr>)"
    and "r = RunningPurge \<Longrightarrow> sched_inv h (db\<lparr>running := remove1 r (running db),
           bg_purge_scheduled := bg_purge_scheduled db - 1\<rparr>)"
proof -
  note parts = sched_inv_parts [OF assms(1)]
  show "r = EndingFlush \<Longrightarrow> sched_inv h (db\<lparr>running := remove1 r (running db),
      num_running_flushes := num_running_flushes db - 1,
      bg_flush_scheduled := bg_flush_scheduled db - 1\<rparr>)"
    by (rule sched_inv_cong [OF assms(1)]) (use parts(1) assms(2) in \<open>simp_all add: counters_ok_def
        manual_jobs_def GetBGJobLimits_def pools_ok_def cnt_remove1\<close>)
  show "r = EndingCompaction \<Longrightarrow> sched_inv h (db\<lparr>running := remove1 r (running db),
      num_running_compactions := num_running_compactions db - 1,
      bg_compaction_scheduled := bg_compaction_scheduled db - 1\<rparr>)"
    by (rule sched_inv_cong [OF assms(1)]) (use parts(1) assms(2) in \<open>simp_all add: counters_ok_def
        manual_jobs_def GetBGJobLimits_def pools_ok_def cnt_remove1\<close>)
  show "r = RunningPurge \<Longrightarrow> sched_inv h (db\<lparr>running := remove1 r (running db),
      bg_purge_scheduled := bg_purge_scheduled db - 1\<rparr>)"
    by (rule sched_inv_cong [OF assms(1)]) (use parts(1) assms(2) in \<open>simp_all add: counters_ok_def
        manual_jobs_def GetBGJobLimits_def pools_ok_def cnt_remove1\<close>)
qed

section \<open>Flush jobs\<close>

text \<open>A held reference keeps its column family alive.\<close>

lemma held_not_deleted: "sched_inv h db \<Longrightarrow> 0 < h cf \<Longrightarrow> \<not> deleted (cfds db cf)"
  using sched_inv_refs [of h db cf] needed_nonneg [of cf db] by auto

lemma Unref_frame [simp]:
  "running (snd (Unref cf db)) = running db" "taken (snd (Unref cf db)) = taken db"
  "manuals (snd (Unref cf db)) = manuals db" "waiting P (snd (Unref cf db)) = waiting P db"
  "pools_ok (snd (Unref cf db)) = pools_ok db"
  "manual_jobs m (snd (Unref cf db)) = manual_jobs m db"
  by (simp_all add: Unref_def Let_def manual_jobs_def)

lemma Unref_held: "sched_inv ((\<lambda>_. 0)(cf := 1)) db \<Longrightarrow> sched_inv (\<lambda>_. 0) (snd (Unref cf db))"
  using Unref_inv [of "(\<lambda>_. 0)(cf := 1)" db cf] by (simp add: fun_upd_idem)

lemma BackgroundFlush_loop_inv:
  assumes "sched_inv h db" and "\<And>cf. 0 \<le> h cf" and "BackgroundFlush_loop db = (r, db')"
  shows "sched_inv (case r of None \<Rightarrow> h | Some cf \<Rightarrow> h(cf := h cf + 1)) db' \<and> running db' = running db"
  using assms(1,3)
proof (induction db rule: BackgroundFlush_loop.induct)
  case (1 db)
  show ?case
  proof (cases "flush_queue db = []")
    case True
    with 1 show ?thesis
      by (simp add: BackgroundFlush_loop.simps [of db])
  next
    case False
    obtain cf db1 where pop: "PopFirstFromFlushQueue db = (cf, db1)"
      by fastforce
    have inv: "sched_inv (h(cf := h cf + 1)) db1"
      by (rule PopFlush_inv [OF "1.prems"(1) False pop])
    have run: "running db1 = running db"
      using pop by (auto simp: PopFirstFromFlushQueue_def Let_def)
    show ?thesis
    proof (cases "IsDropped (cfds db1 cf) \<or> \<not> IsFlushPending (facts (cfds db1 cf))")
      case True
      have "sched_inv h (snd (Unref cf db1))"
        using Unref_inv [OF inv, of cf] assms(2) [of cf] by simp
      moreover have "BackgroundFlush_loop (snd (Unref cf db1)) = (r, db')"
        using "1.prems"(2) False True pop by (simp add: BackgroundFlush_loop.simps [of db])
      ultimately show ?thesis
        using "1.IH" [OF False pop [symmetric] True] run by simp
    next
      case c: False
      then have "r = Some cf" "db' = db1"
        using "1.prems"(2) False pop by (simp_all add: BackgroundFlush_loop.simps [of db])
      then show ?thesis
        using inv run by (simp add: fun_upd_def)
    qed
  qed
qed

lemma flush_begin_inv:
  assumes "sched_inv (\<lambda>_. 0) db" and "BGWorkFlush \<in> set (taken db)"
    and "BackgroundCallFlush_begin (db\<lparr>taken := remove1 BGWorkFlush (taken db),
      running := EndingFlush # running db\<rparr>) = (s, cf, db')"
  shows "sched_inv (\<lambda>_. 0) (start_flush cf db')"
proof -
  let ?db = "db\<lparr>taken := remove1 BGWorkFlush (taken db), running := EndingFlush # running db,
    num_running_flushes := num_running_flushes db + 1\<rparr>"
  have start: "sched_inv (\<lambda>_. 0) ?db"
    using start_job_inv(1) [OF assms(1,2)] by simp
  consider "cf = None" "db' = ?db" | "BackgroundFlush_loop ?db = (cf, db')"
    using assms(3) by (auto simp: BackgroundCallFlush_begin_def Let_def split: if_splits prod.splits)
  then show ?thesis
  proof cases
    case 1
    then show ?thesis
      using start by (simp add: start_flush_def)
  next
    case 2
    note loop = BackgroundFlush_loop_inv [OF start _ 2]
    show ?thesis
    proof (cases cf)
      case None
      then show ?thesis
        using loop by (simp add: start_flush_def)
    next
      case (Some c)
      then have "sched_inv ((\<lambda>_. 0)(c := 1)) db'" "EndingFlush \<in> set (running db')"
        using loop by simp_all
      then show ?thesis
        unfolding Some start_flush_def option.case by (rule replace_running_inv) auto
    qed
  qed
qed

lemma flush_installed_inv:
  assumes "sched_inv (\<lambda>_. 0) db" and "RunningFlush cf \<in> set (running db)"
  shows "sched_inv (\<lambda>_. 0) (BackgroundFlush_installed rd cf s sp e new
           (db\<lparr>running := EndingFlush # remove1 (RunningFlush cf) (running db)\<rparr>))"
proof -
  have "sched_inv ((\<lambda>_. 0)(cf := 1)) (db\<lparr>running := EndingFlush # remove1 (RunningFlush cf) (running db)\<rparr>)"
    by (rule replace_running_inv [OF assms]) auto
  note inv = this InstallAndSchedule_inv [OF this held_not_deleted [OF this]]
  then show ?thesis
    by (simp add: BackgroundFlush_installed_def Let_def Unref_held)
qed

lemma flush_end_inv:
  assumes "sched_inv h db" and "EndingFlush \<in> set (running db)"
  shows "sched_inv h (BackgroundCallFlush_end (db\<lparr>running := remove1 EndingFlush (running db)\<rparr>))"
  using MaybeSchedule_inv [OF end_job_inv(1) [OF assms refl]] by (simp add: BackgroundCallFlush_end_def)

section \<open>Compaction jobs\<close>

text \<open>Scheduling only adds flushes and automatic compactions.\<close>

lemma loops_waiting:
  assumes "pools_ok db" and "\<not> P BGWorkFlush" and "\<not> P (BGWorkCompaction None)"
  shows "pools_ok (flush_loop_high limit db) \<and> waiting P (flush_loop_high limit db) = waiting P db"
    and "pools_ok (flush_loop_low limit db) \<and> waiting P (flush_loop_low limit db) = waiting P db"
    and "pools_ok (compaction_loop limit db) \<and> waiting P (compaction_loop limit db) = waiting P db"
proof -
  show "pools_ok (flush_loop_high limit db) \<and> waiting P (flush_loop_high limit db) = waiting P db"
    using assms(1)
  proof (induction limit db rule: flush_loop_high.induct)
    case (1 limit db)
    then show ?case
      using assms by (subst (1 2) flush_loop_high.simps) (simp add: schedule_waiting)
  qed
  show "pools_ok (flush_loop_low limit db) \<and> waiting P (flush_loop_low limit db) = waiting P db"
    using assms(1)
  proof (induction limit db rule: flush_loop_low.induct)
    case (1 limit db)
    then show ?case
      using assms by (subst (1 2) flush_loop_low.simps) (simp add: schedule_waiting)
  qed
  show "pools_ok (compaction_loop limit db) \<and> waiting P (compaction_loop limit db) = waiting P db"
    using assms(1)
  proof (induction limit db rule: compaction_loop.induct)
    case (1 limit db)
    then show ?case
      using assms by (subst (1 2) compaction_loop.simps) (simp add: schedule_waiting)
  qed
qed

lemma MaybeSchedule_waiting:
  assumes "pools_ok db" and "\<not> P BGWorkFlush" and "\<not> P (BGWorkCompaction None)"
  shows "waiting P (MaybeScheduleFlushOrCompaction db) = waiting P db"
proof -
  have 1: "pools_ok (flush_stage db) \<and> waiting P (flush_stage db) = waiting P db"
    using loops_waiting(1,2) [OF assms] by (simp add: flush_stage_def)
  then have 2: "pools_ok (silk_stage db) \<and> waiting P (silk_stage db) = waiting P db"
    using assms(3) by (simp add: silk_stage_def schedule_waiting)
  then show ?thesis
    using loops_waiting(3) [OF conjunct1 [OF 2] assms(2,3)] by (simp add: MaybeSchedule_stages)
qed

lemma MaybeSchedule_sel [simp]:
  "running (MaybeScheduleFlushOrCompaction db) = running db"
  "taken (MaybeScheduleFlushOrCompaction db) = taken db"
  "manuals (MaybeScheduleFlushOrCompaction db) = manuals db"
  "cfds (MaybeScheduleFlushOrCompaction db) = cfds db"
  using MaybeSchedule_same_cfs [of db] by (simp_all add: same_cfs_def)

lemma Install_frame [simp]:
  "running (InstallSuperVersion rd cf new db) = running db"
  "manuals (InstallSuperVersion rd cf new db) = manuals db"
  "waiting P (InstallSuperVersion rd cf new db) = waiting P db"
  "pools_ok (InstallSuperVersion rd cf new db) = pools_ok db"
  by (simp_all add: InstallSuperVersion_def Let_def case_prod_beta waiting_def queued_def pools_ok_def)

lemma SchedulePending_frame [simp]:
  "running (SchedulePendingFlush cf db) = running db"
  "running (SchedulePendingCompaction cf db) = running db"
  "manuals (SchedulePendingFlush cf db) = manuals db"
  "manuals (SchedulePendingCompaction cf db) = manuals db"
  "waiting P (SchedulePendingFlush cf db) = waiting P db"
  "waiting P (SchedulePendingCompaction cf db) = waiting P db"
  "pools_ok (SchedulePendingFlush cf db) = pools_ok db"
  "pools_ok (SchedulePendingCompaction cf db) = pools_ok db"
  by (simp_all add: SchedulePendingFlush_def SchedulePendingCompaction_def AddToFlushQueue_def
      AddToCompactionQueue_def Ref_def Let_def) (simp_all add: pools_ok_def)

lemma InstallAndSchedule_manual:
  assumes "pools_ok db"
  shows "manual_jobs m (InstallSuperVersionAndScheduleWork rd cf new db) = manual_jobs m db"
    and "manuals (InstallSuperVersionAndScheduleWork rd cf new db) = manuals db"
  using MaybeSchedule_waiting [where P = "is_manual m"] assms
  by (simp_all add: InstallSuperVersionAndScheduleWork_def manual_jobs_def)

text \<open>A manual compaction without a job may be changed at will.\<close>

lemma cnt_cong: "(\<And>x. x \<in> set xs \<Longrightarrow> P x = Q x) \<Longrightarrow> cnt P xs = cnt Q xs"
  by (simp add: cnt_def cong: filter_cong)

lemma cnt_zero: "cnt P xs = 0 \<longleftrightarrow> (\<forall>x\<in>set xs. \<not> P x)"
  by (auto simp: cnt_def filter_empty_conv)

lemma waiting_cong:
  assumes "\<And>j. waiting (\<lambda>x. x = j) db \<noteq> 0 \<Longrightarrow> P j = Q j"
  shows "waiting P db = waiting Q db"
proof -
  have "P j = Q j" if "(t, j) \<in> set (pool_jobs (env_pool db pri))" for t j pri
  proof (rule assms)
    have "0 < queued (\<lambda>x. x = j) pri db"
      using that by (auto simp: queued_def intro!: cnt_pos)
    then show "waiting (\<lambda>x. x = j) db \<noteq> 0"
      by (cases pri) (auto simp: waiting_def queued_def add_nonneg_eq_0_iff)
  qed
  moreover have "P j = Q j" if "j \<in> set (taken db)" for j
  proof (rule assms)
    have "0 < cnt (\<lambda>x. x = j) (taken db)"
      using that by (auto intro!: cnt_pos)
    then show "waiting (\<lambda>x. x = j) db \<noteq> 0"
      by (auto simp: waiting_def queued_def add_nonneg_eq_0_iff)
  qed
  ultimately show ?thesis
    unfolding waiting_def queued_def by (intro arg_cong2 [where f = "(+)"] cnt_cong) auto
qed

lemma is_manual_eq: "is_manual m = (\<lambda>x. x = BGWorkCompaction (Some m))"
proof
  show "is_manual m j = (j = BGWorkCompaction (Some m))" for j
    by (induction m j rule: is_manual.induct) auto
qed

lemma manual_jobs_nonneg: "0 \<le> manual_jobs m db"
  unfolding manual_jobs_def using waiting_nonneg cnt_nonneg by (rule add_nonneg_nonneg)

lemma manual_jobs_waiting: "manual_jobs m db = 0 \<Longrightarrow> waiting (is_manual m) db = 0"
  using waiting_nonneg [of "is_manual m" db] cnt_nonneg [of "runs_manual m" "running db"]
  unfolding manual_jobs_def by linarith

lemma job_holds_other:
  assumes "waiting (is_manual m) db = 0"
  shows "waiting (job_holds (mm(m := x)) cf) db = waiting (job_holds mm cf) db"
proof (rule waiting_cong)
  fix j
  assume "waiting (\<lambda>x. x = j) db \<noteq> 0"
  then have "j \<noteq> BGWorkCompaction (Some m)"
    using assms by (auto simp: is_manual_eq)
  then show "job_holds (mm(m := x)) cf j = job_holds mm cf j"
    by (induction mm cf j rule: job_holds.induct) auto
qed

lemma update_manual_idle_inv:
  assumes "sched_inv h db" and "manual_jobs m db = 0"
  shows "sched_inv h (update_manual m f db)"
proof -
  note parts = sched_inv_parts [OF assms(1)] and w = job_holds_other [OF manual_jobs_waiting [OF assms(2)]]
  have jobs: "manual_jobs m' (update_manual m f db) = manual_jobs m' db" for m'
    by (simp add: manual_jobs_def update_manual_def)
  have "needed cf (update_manual m f db) = needed cf db" for cf
    by (simp add: needed_def update_manual_def w)
  then have "refs_ok h (update_manual m f db)"
    using parts(4) by (simp add: refs_ok_def update_manual_def)
  moreover have "manual_ok (update_manual m f db)"
    using parts(5) assms(2) unfolding manual_ok_def jobs by (simp add: update_manual_def)
  moreover have "counters_ok (update_manual m f db)" "limit_ok (update_manual m f db)"
    "queues_ok (update_manual m f db)"
    using parts(1-3) by (simp_all add: counters_ok_def limit_ok_def queues_ok_def update_manual_def
        pools_ok_def GetBGJobLimits_def)
  ultimately show ?thesis
    by (simp add: sched_inv_def)
qed

text \<open>Deleting a compaction gives back its reference; picking one takes a reference.\<close>

definition hold :: "Compaction option \<Rightarrow> nat \<Rightarrow> int" where
  "hold c cf = of_bool (map_option column_family_data c = Some cf)"

lemma hold_simps [simp]:
  "hold None = (\<lambda>_. 0)"
  "hold (Some c) = (\<lambda>_. 0)(column_family_data c := 1)"
  by (auto simp: hold_def)

lemma delete_compaction_inv:
  assumes "sched_inv (hold c) db"
  shows "sched_inv (\<lambda>_. 0) (delete_compaction c db)"
proof (cases c)
  case None
  then show ?thesis
    using assms by (simp add: delete_compaction_def)
next
  case (Some d)
  then have "sched_inv ((\<lambda>_. 0)(column_family_data d := 1)) db"
    using assms by simp
  from Unref_held [OF this] show ?thesis
    by (simp add: delete_compaction_def Some)
qed

lemma delete_compaction_frame [simp]:
  "running (delete_compaction c db) = running db"
  "manuals (delete_compaction c db) = manuals db"
  "manual_jobs m (delete_compaction c db) = manual_jobs m db"
  by (simp_all add: delete_compaction_def split: option.split)

lemma Ref_inv:
  assumes "sched_inv h db" and "\<not> deleted (cfds db cf)"
  shows "sched_inv (h(cf := h cf + 1)) (Ref cf db)"
  using assms by (auto simp: sched_inv_def refs_ok_def queues_ok_def Ref_def)

lemma unscheduled_inv:
  assumes "sched_inv h db"
    and "unscheduled_compactions db + waiting is_auto db < int (length (compaction_queue db))"
  shows "sched_inv h (db\<lparr>unscheduled_compactions := unscheduled_compactions db + 1\<rparr>)"
  using assms by (simp add: sched_inv_def counters_ok_def limit_ok_def queues_ok_def refs_ok_def
      needed_def manual_ok_def manual_jobs_def pools_ok_def GetBGJobLimits_def)

text \<open>An automatic compaction job, in its first critical section.\<close>

lemma auto_compaction_inv:
  assumes inv: "sched_inv (\<lambda>_. 0) db"
    and room: "unscheduled_compactions db + waiting is_auto db < int (length (compaction_queue db))"
    and start: "BackgroundCompaction_begin pick needs None db = (early, c, db')"
  shows "sched_inv (hold c) db' \<and> running db' = running db \<and> (early = None \<or> c = None)"
proof (cases "\<not> ok (background_status db) \<or> HaveManualCompaction (hd (compaction_queue db)) db")
  case True
  have "compaction_queue db \<noteq> []"
    using room inv waiting_nonneg [of is_auto db] by (auto simp: sched_inv_def counters_ok_def)
  then have "c = None \<and> (db' = db \<or> db' = db\<lparr>unscheduled_compactions := unscheduled_compactions db + 1\<rparr>)"
    using start True by (auto simp: BackgroundCompaction_begin_def Let_def split: if_splits)
  then show ?thesis
    using inv unscheduled_inv [OF inv room] by auto
next
  case False
  obtain cf db1 where pop: "PopFirstFromCompactionQueue db = (cf, db1)"
    by fastforce
  note inv1 = PopCompaction_inv [OF inv pop room]
  have pend: "\<not> pending_compaction (cfds db1 cf)" and run: "running db1 = running db"
    using pop by (auto simp: PopFirstFromCompactionQueue_def Let_def)
  define db2 where "db2 = snd (Unref cf db1)"
  have inv2: "sched_inv (\<lambda>_. 0) db2" and run2: "running db2 = running db"
    using Unref_held [of cf db1] inv1 run by (simp_all add: db2_def)
  show ?thesis
  proof (cases "fst (Unref cf db1) \<or> disable_auto_compactions (cf_options (cfds db2 cf))
      \<or> IsDropped (cfds db2 cf) \<or> pick cf = None \<or> compaction_queue db = []")
    case c: True
    have "c = None \<and> (db' = db2 \<or> db' = db)"
      using start False c pop
      by (auto simp: BackgroundCompaction_begin_def Let_def db2_def case_prod_beta split: if_splits)
    then show ?thesis
      using inv inv2 run2 by auto
  next
    case c: False
    then obtain k where k: "pick cf = Some k"
      by auto
    let ?f = "\<lambda>d. d\<lparr>facts := (facts d)\<lparr>NeedsCompaction := needs cf\<rparr>\<rparr>"
    define db3 where "db3 = update_cfd cf ?f (Ref cf db2)"
    have nd: "\<not> deleted (cfds db2 cf)"
      using held_not_deleted [OF inv1, of cf] c by (simp add: db2_def)
    have inv3: "sched_inv ((\<lambda>_. 0)(cf := 1)) db3"
      using update_cfd_inv [OF Ref_inv [OF inv2 nd], of ?f cf] by (simp add: db3_def)
    have res: "early = None" "c = Some \<lparr>column_family_data = cf, kind = k\<rparr>" "db' = (if needs cf
        then MaybeScheduleFlushOrCompaction ((AddToCompactionQueue cf db3)
               \<lparr>unscheduled_compactions := unscheduled_compactions db3 + 1\<rparr>) else db3)"
      using start False c pop k
      by (auto simp: BackgroundCompaction_begin_def Let_def db2_def db3_def case_prod_beta)
    have "\<not> pending_compaction (cfds db3 cf)" "\<not> deleted (cfds db3 cf)"
      using pend nd by (simp_all add: db3_def db2_def Ref_def)
    note add = MaybeSchedule_inv [OF AddToCompactionQueue_inv [OF inv3 this]]
    have "running (AddToCompactionQueue cf db3) = running db" "running db3 = running db"
      using run2 by (simp_all add: AddToCompactionQueue_def Ref_def Let_def db3_def)
    then show ?thesis
      using add inv3 by (simp add: res)
  qed
qed

text \<open>A manual compaction job, in its first critical section.\<close>

lemma update_manual_frame [simp]:
  "running (update_manual m f db) = running db"
  "manual_jobs m' (update_manual m f db) = manual_jobs m' db"
  "manuals (update_manual m f db) = (manuals db)(m := f (manuals db m))"
  by (simp_all add: update_manual_def manual_jobs_def)

lemma manual_compaction_inv:
  assumes inv: "sched_inv (hold (mc_compaction (manuals db m))) db" and idle: "manual_jobs m db = 0"
    and start: "BackgroundCompaction_begin pick needs (Some m) db = (early, c, db')"
  shows "sched_inv (if early = None then hold c else (\<lambda>_. 0)) db' \<and> running db' = running db
    \<and> manual_jobs m db' = 0 \<and> mc_scheduled (manuals db' m) = mc_scheduled (manuals db m)
    \<and> incomplete (manuals db' m) = incomplete (manuals db m)"
proof (cases "ok (background_status db)")
  case False
  then have "early = Some (background_status db)" "db' = update_manual m (\<lambda>mc. mc\<lparr>mc_status := background_status db,
      mc_done := True, in_progress := False, mc_compaction := None\<rparr>)
        (delete_compaction (mc_compaction (manuals db m)) db)"
    using start by (auto simp: BackgroundCompaction_begin_def Let_def)
  then show ?thesis
    using update_manual_idle_inv [OF delete_compaction_inv [OF inv]] idle by simp
next
  case True
  let ?f = "\<lambda>mc. mc\<lparr>in_progress := True, mc_compaction := None\<rparr>"
  note inv1 = update_manual_idle_inv [OF inv idle, of ?f]
  have "early = None" "c = mc_compaction (manuals db m)"
    and db': "db' = (if c = None
      then update_manual m (\<lambda>mc. mc\<lparr>mc_done := True, manual_end := None\<rparr>) (update_manual m ?f db)
      else update_manual m ?f db)"
    using start True by (auto simp: BackgroundCompaction_begin_def Let_def)
  then show ?thesis
    using inv1 idle update_manual_idle_inv [OF inv1, of m]
    by (cases "mc_compaction (manuals db m)") simp_all
qed

lemma compaction_begin_inv:
  assumes inv: "sched_inv (\<lambda>_. 0) db" and job: "BGWorkCompaction arg \<in> set (taken db)"
    and start: "BackgroundCallCompaction_begin pick needs arg (db\<lparr>taken := remove1 (BGWorkCompaction arg) (taken db),
      running := EndingCompaction # running db\<rparr>) = (early, c, db')"
  shows "sched_inv (\<lambda>_. 0) (start_compaction arg early c db')"
proof -
  define db1 where "db1 = db\<lparr>taken := remove1 (BGWorkCompaction arg) (taken db), running := EndingCompaction # running db,
    num_running_compactions := num_running_compactions db + 1\<rparr>"
  have inv1: "sched_inv (\<lambda>cf. of_bool (job_holds (manuals db) cf (BGWorkCompaction arg))) db1"
    using start_job_inv(2) [OF inv job refl] by (simp add: db1_def)
  have start1: "BackgroundCompaction_begin pick needs arg db1 = (early, c, db')"
    using start by (simp add: BackgroundCallCompaction_begin_def db1_def)
  have ending: "sched_inv (\<lambda>_. 0) (start_compaction arg early c db')"
    if "sched_inv (if early = None then hold c else (\<lambda>_. 0)) db'" "running db' = running db1"
      "\<And>m. arg = Some m \<Longrightarrow> manual_jobs m db' = 0 \<and> mc_scheduled (manuals db' m) \<and> \<not> incomplete (manuals db' m)"
  proof (cases early)
    case None
    have "EndingCompaction \<in> set (running db')"
      using that(2) by (simp add: db1_def)
    then have "sched_inv (\<lambda>_. 0) (db'\<lparr>running := RunningCompaction arg c # remove1 EndingCompaction (running db')\<rparr>)"
    proof (rule replace_running_inv [rotated])
      show "sched_inv (hold c) db'"
        using that(1) None by simp
      show "manual_jobs m db' = 0 \<and> mc_scheduled (manuals db' m) \<and> \<not> incomplete (manuals db' m)"
        if "runs_manual m (RunningCompaction arg c)" for m
        using that \<open>\<And>m. arg = Some m \<Longrightarrow> _\<close> by (cases arg) auto
    qed (cases c; simp)+
    then show ?thesis
      by (simp add: start_compaction_def None)
  qed (use that(1) in \<open>simp add: start_compaction_def\<close>)
  show ?thesis
  proof (cases arg)
    case None
    have "unscheduled_compactions db1 + waiting is_auto db1 < int (length (compaction_queue db1))"
      using inv job by (simp add: sched_inv_def counters_ok_def waiting_remove None db1_def)
    from auto_compaction_inv [OF _ this start1 [unfolded None]] inv1
    have "sched_inv (hold c) db'" "running db' = running db1" "early = None \<or> c = None"
      by (simp_all add: None)
    then show ?thesis
      by (intro ending) (auto simp: None)
  next
    case (Some m)
    have jobs: "manual_jobs m db \<le> 1 \<and> (0 < manual_jobs m db \<longrightarrow>
        mc_scheduled (manuals db m) \<and> \<not> incomplete (manuals db m))"
      using inv by (simp add: sched_inv_def manual_ok_def)
    have "manual_jobs m db1 = manual_jobs m db - 1"
      using job by (simp add: manual_jobs_def waiting_remove Some is_manual_eq db1_def)
    moreover have "0 \<le> manual_jobs m db1"
      by (rule manual_jobs_nonneg)
    ultimately
    have idle: "manual_jobs m db1 = 0" "mc_scheduled (manuals db m)" "\<not> incomplete (manuals db m)"
      using jobs by auto
    have "sched_inv (hold (mc_compaction (manuals db1 m))) db1"
      using inv1 by (simp add: Some hold_def [abs_def] db1_def)
    from manual_compaction_inv [OF this idle(1) start1 [unfolded Some]] idle(2,3) show ?thesis
      by (intro ending) (simp_all add: Some db1_def)
  qed
qed

lemma set_bg_error_manual [simp]: "manual_jobs m (set_bg_error e db) = manual_jobs m db"
  by (simp add: set_bg_error_def manual_jobs_def waiting_def queued_def)

lemma compaction_finish_inv:
  assumes inv: "sched_inv (\<lambda>_. 0) db" and job: "RunningCompaction arg c \<in> set (running db)"
  shows "sched_inv (\<lambda>_. 0) (BackgroundCompaction_finish rd arg c s e new
           (db\<lparr>running := EndingCompaction # remove1 (RunningCompaction arg c) (running db)\<rparr>))"
proof -
  define db1 where "db1 = db\<lparr>running := EndingCompaction # remove1 (RunningCompaction arg c) (running db)\<rparr>"
  have inv1: "sched_inv (hold c) db1"
    unfolding db1_def by (rule replace_running_inv [OF inv job]) (cases c; simp)+
  have idle: "manual_jobs m db1 = 0" if "arg = Some m" for m
  proof -
    have "manual_jobs m db1 = manual_jobs m db - 1"
      using job that by (simp add: db1_def manual_jobs_def cnt_remove1)
    moreover have "manual_jobs m db \<le> 1" "0 \<le> manual_jobs m db1"
      using inv by (simp_all add: sched_inv_def manual_ok_def manual_jobs_nonneg)
    ultimately show ?thesis
      by simp
  qed
  define install where "install = (case c of None \<Rightarrow> db1 | Some d \<Rightarrow>
      if kind d = DeletionCompaction \<or> kind d = TrivialMove
           \<and> \<not> (case arg of None \<Rightarrow> False | Some m \<Rightarrow> disallow_trivial_move (manuals db1 m)) \<or> ok s
      then InstallSuperVersionAndScheduleWork rd (column_family_data d) new db1 else db1)"
  have inv2: "sched_inv (hold c) install"
    using inv1 InstallAndSchedule_inv [OF inv1] held_not_deleted [OF inv1]
    by (auto simp: install_def split: option.split)
  have jobs2: "manual_jobs m install = manual_jobs m db1" for m
    using InstallAndSchedule_manual(1) [OF sched_inv_parts(6) [OF inv1]]
    by (simp add: install_def split: option.split)
  define db2 where "db2 = (let db = delete_compaction c install in
      if ok s \<or> IsShutdownInProgress s then db
      else if paranoid_checks db \<and> ok (bg_error db) then set_bg_error e db else db)"
  have inv3: "sched_inv (\<lambda>_. 0) db2"
    using delete_compaction_inv [OF inv2] by (simp add: db2_def Let_def)
  have jobs3: "manual_jobs m db2 = manual_jobs m db1" for m
    using jobs2 by (simp add: db2_def Let_def)
  show ?thesis
  proof (cases arg)
    case None
    then have "BackgroundCompaction_finish rd arg c s e new db1 = db2"
      by (cases c) (simp_all add: BackgroundCompaction_finish_def Let_def db2_def install_def)
    then show ?thesis
      using inv3 by (simp add: db1_def)
  next
    case (Some m)
    then obtain f where "BackgroundCompaction_finish rd arg c s e new db1 = update_manual m f db2"
      unfolding BackgroundCompaction_finish_def db2_def install_def Let_def by (cases c) auto
    then show ?thesis
      using update_manual_idle_inv [OF inv3] jobs3 idle [OF Some] by (simp add: db1_def)
  qed
qed

lemma compaction_end_inv:
  assumes "sched_inv h db" and "EndingCompaction \<in> set (running db)"
  shows "sched_inv h (snd (BackgroundCallCompaction_end b (db\<lparr>running := remove1 EndingCompaction (running db)\<rparr>)))"
  using MaybeSchedule_inv [OF end_job_inv(2) [OF assms refl]]
  by (simp add: BackgroundCallCompaction_end_def Let_def)

section \<open>Callers\<close>

lemma manual_turn_inv:
  assumes inv: "sched_inv (\<lambda>_. 0) db" and nd: "\<not> deleted (cfds db (mc_cfd (manuals db m)))"
  shows "sched_inv (\<lambda>_. 0) (snd (RunManualCompaction_turn m c_range db))"
proof (cases "mc_done (manuals db m) \<or> ShouldntRunManualCompaction m db \<or> in_progress (manuals db m)
    \<or> mc_scheduled (manuals db m)")
  case True
  then show ?thesis
    using inv by (auto simp: RunManualCompaction_turn_def RemoveManualCompaction_def)
next
  case False
  have "\<not> 0 < manual_jobs m db"
    using inv False by (auto simp: sched_inv_def manual_ok_def)
  then have idle: "manual_jobs m db = 0"
    using manual_jobs_nonneg [of m db] by simp
  obtain ck c_end conf where r: "c_range = (ck, c_end, conf)"
    by (cases c_range) auto
  show ?thesis
  proof (cases ck)
    case None
    note upd = update_manual_idle_inv [OF inv idle]
    show ?thesis
      using upd update_manual_idle_inv [OF upd] idle False
      by (simp add: RunManualCompaction_turn_def r None Let_def)
  next
    case (Some k)
    let ?cf = "mc_cfd (manuals db m)"
    let ?f = "\<lambda>mc. mc\<lparr>manual_end := c_end,
                mc_compaction := Some \<lparr>column_family_data = ?cf, kind = k\<rparr>,
                incomplete := False, mc_scheduled := True\<rparr>"
    define db1 where "db1 = update_manual m ?f (Ref ?cf db)"
    have "manual_jobs m (Ref ?cf db) = 0"
      using idle by (simp add: Ref_def manual_jobs_def)
    from update_manual_idle_inv [OF Ref_inv [OF inv nd] this, of ?f]
    have inv1: "sched_inv ((\<lambda>_. 0)(?cf := 1)) db1"
      by (simp add: db1_def)
    note parts = sched_inv_parts [OF inv1]
    let ?db = "db1\<lparr>bg_compaction_scheduled := bg_compaction_scheduled db1 + 1\<rparr>"
    have p: "pools_ok ?db"
      using parts(6) by (simp add: pools_ok_def)
    have man: "manuals db1 m = ?f (manuals db m)"
      by (simp add: db1_def Ref_def)
    have jobs: "manual_jobs m' db1 = manual_jobs m' db" for m'
      by (simp add: db1_def Ref_def) (simp add: manual_jobs_def)
    define db2 where "db2 = env_Schedule (BGWorkCompaction (Some m)) LOW db_tag
      (Some (BGWorkCompaction (Some m))) ?db"
    have sel: "pools_ok db2" "waiting P db2 = waiting P db1 + of_bool (P (BGWorkCompaction (Some m)))"
      "cfds db2 = cfds db1" "manuals db2 = manuals db1" "flush_queue db2 = flush_queue db1"
      "compaction_queue db2 = compaction_queue db1" "running db2 = running db1"
      "GetBGJobLimits db2 = GetBGJobLimits db1" "unscheduled_flushes db2 = unscheduled_flushes db1"
      "unscheduled_compactions db2 = unscheduled_compactions db1"
      "bg_flush_scheduled db2 = bg_flush_scheduled db1" "bg_purge_scheduled db2 = bg_purge_scheduled db1"
      "bg_compaction_scheduled db2 = bg_compaction_scheduled db1 + 1"
      "num_running_flushes db2 = num_running_flushes db1"
      "num_running_compactions db2 = num_running_compactions db1" for P
      by (simp_all add: db2_def env_Schedule_pools [OF p] job_tag_def) (simp add: GetBGJobLimits_def)
    have mj: "manual_jobs m' db2 = manual_jobs m' db + of_bool (m' = m)" for m'
      using jobs [of m'] by (simp add: manual_jobs_def sel)
    have m: "manual_jobs m' db2 \<le> manual_jobs m' db1
        \<or> manual_jobs m' db2 \<le> 1 \<and> mc_scheduled (manuals db1 m') \<and> \<not> incomplete (manuals db1 m')" for m'
      using idle jobs [of m'] man by (cases "m' = m") (simp_all add: mj)
    have "sched_inv (\<lambda>_. 0) db2"
      by (rule sched_inv_cong [OF inv1 _ _ _ _ _ _ _ _ _ _ _ _ _ _ _ _ m])
        (use parts(1) in \<open>simp_all add: sel counters_ok_def man\<close>)
    then show ?thesis
      using False by (simp add: RunManualCompaction_turn_def r Some Let_def db2_def db1_def Ref_def)
  qed
qed

lemma manual_woken_inv:
  assumes "sched_inv h db"
  shows "sched_inv h (RunManualCompaction_woken m db)"
proof (cases "mc_scheduled (manuals db m) \<and> incomplete (manuals db m)")
  case True
  then have "\<not> 0 < manual_jobs m db"
    using assms by (auto simp: sched_inv_def manual_ok_def)
  then have "manual_jobs m db = 0"
    using manual_jobs_nonneg [of m db] by simp
  then show ?thesis
    using True update_manual_idle_inv [OF assms] by (simp add: RunManualCompaction_woken_def)
qed (use assms in \<open>auto simp: RunManualCompaction_woken_def\<close>)

lemma manual_add_inv:
  assumes "sched_inv h db" and "manual_jobs m db = 0"
  shows "sched_inv h (RunManualCompaction_add m cf inl outl b e ls excl no_move db)"
  using update_manual_idle_inv [OF assms] by (simp add: RunManualCompaction_add_def AddManualCompaction_def)

lemma deleted_install [simp]:
  "deleted (cfds (InstallSuperVersionAndScheduleWork rd cf new db) cf') = deleted (cfds db cf')"
  by (simp add: InstallSuperVersionAndScheduleWork_def SchedulePendingCompaction_def
      AddToCompactionQueue_def Ref_def Let_def)

lemma FlushMemTable_inv:
  assumes "sched_inv h db" and "\<not> deleted (cfds db cf)"
  shows "sched_inv h (snd (FlushMemTable rd cf s switched requested db))"
proof -
  let ?db = "if ok s then InstallSuperVersionAndScheduleWork rd cf switched db else db"
  have "sched_inv h ?db" "\<not> deleted (cfds ?db cf)"
    using InstallAndSchedule_inv [OF assms] assms by simp_all
  then have "sched_inv h (MaybeScheduleFlushOrCompaction (SchedulePendingFlush cf
      (update_cfd cf (\<lambda>c. c\<lparr>facts := requested\<rparr>) ?db)))"
    by (intro MaybeSchedule_inv SchedulePendingFlush_inv update_cfd_inv) simp_all
  then show ?thesis
    using assms by (simp add: FlushMemTable_def Let_def)
qed

lemma ReFitLevel_inv:
  assumes "sched_inv h db" and "\<not> deleted (cfds db cf)"
  shows "sched_inv h (snd (ReFitLevel rd cf level target s new db))"
proof -
  have "sched_inv h (InstallSuperVersionAndScheduleWork rd cf new (db\<lparr>refitting_level := True\<rparr>))"
    by (rule InstallAndSchedule_inv) (use assms in simp_all)
  then show ?thesis
    using assms by (auto simp: ReFitLevel_def Let_def)
qed

lemma SchedulePurge_inv:
  assumes "sched_inv h db"
  shows "sched_inv h (SchedulePurge db)"
proof -
  note parts = sched_inv_parts [OF assms]
  let ?db = "db\<lparr>bg_purge_scheduled := bg_purge_scheduled db + 1\<rparr>"
  have p: "pools_ok ?db"
    using parts(6) by (simp add: pools_ok_def)
  define db2 where "db2 = env_Schedule BGWorkPurge HIGH None None ?db"
  have sel: "pools_ok db2" "waiting P db2 = waiting P db + of_bool (P BGWorkPurge)"
    "cfds db2 = cfds db" "manuals db2 = manuals db" "flush_queue db2 = flush_queue db"
    "compaction_queue db2 = compaction_queue db" "running db2 = running db"
    "GetBGJobLimits db2 = GetBGJobLimits db" "unscheduled_flushes db2 = unscheduled_flushes db"
    "unscheduled_compactions db2 = unscheduled_compactions db"
    "bg_flush_scheduled db2 = bg_flush_scheduled db" "bg_purge_scheduled db2 = bg_purge_scheduled db + 1"
    "bg_compaction_scheduled db2 = bg_compaction_scheduled db"
    "num_running_flushes db2 = num_running_flushes db"
    "num_running_compactions db2 = num_running_compactions db" for P
    by (simp_all add: db2_def env_Schedule_pools [OF p] job_tag_def) (simp add: GetBGJobLimits_def)
  have "sched_inv h db2"
    by (rule sched_inv_cong [OF assms])
      (use parts(1) in \<open>simp_all add: sel counters_ok_def manual_jobs_def\<close>)
  then show ?thesis
    by (simp add: SchedulePurge_def db2_def)
qed

lemma purge_turn_inv:
  "sched_inv h db \<Longrightarrow> BackgroundCallPurge_turn db = Some db' \<Longrightarrow> sched_inv h db'"
  by (auto simp: BackgroundCallPurge_turn_def split: if_splits)

lemma pause_continue_inv:
  assumes "sched_inv h db"
  shows "sched_inv h (PauseBackgroundWork_begin db)" "sched_inv h (PauseBackgroundWork_end db)"
    "sched_inv h (PauseCompactionWork_begin db)" "sched_inv h (PauseCompactionWork_end db)"
    "sched_inv h (snd (ContinueBackgroundWork db))" "sched_inv h (snd (ContinueCompactionWork db))"
  using assms
  by (simp_all add: PauseBackgroundWork_begin_def PauseBackgroundWork_end_def PauseCompactionWork_begin_def
      PauseCompactionWork_end_def ContinueBackgroundWork_def ContinueCompactionWork_def Let_def
      MaybeSchedule_inv)

section \<open>Reachable states\<close>

lemma db_step_inv:
  assumes "db_step rd db db'" and "sched_inv (\<lambda>_. 0) db"
  shows "sched_inv (\<lambda>_. 0) db'"
  using assms
proof cases
  case (purge_begin)
  then show ?thesis
    using start_job_inv(3) [OF assms(2)] by simp
next
  case (purge_end)
  then show ?thesis
    using end_job_inv(3) [OF assms(2)] by (simp add: BackgroundCallPurge_end_def)
next
  case (schedule_purge number)
  then show ?thesis
    using SchedulePurge_inv assms(2) by (simp add: SchedulePendingPurge_def)
next
  case (drop cf)
  then show ?thesis
    using update_cfd_inv [OF assms(2)] by simp
qed (use assms(2) in \<open>simp_all add: take_job_inv thread_idle_inv flush_begin_inv flush_installed_inv
      flush_end_inv compaction_begin_inv compaction_finish_inv compaction_end_inv purge_turn_inv
      InstallAndSchedule_inv FlushMemTable_inv pause_continue_inv manual_add_inv manual_turn_inv
      manual_woken_inv ReFitLevel_inv CancelAllBackgroundWork_def\<close>)

text \<open>A database that has been opened and has not scheduled anything yet.\<close>

definition db_init :: "DBImpl \<Rightarrow> bool" where
  "db_init db \<longleftrightarrow> unscheduled_flushes db = 0 \<and> unscheduled_compactions db = 0
     \<and> bg_flush_scheduled db = 0 \<and> bg_compaction_scheduled db = 0 \<and> bg_purge_scheduled db = 0
     \<and> num_running_flushes db = 0 \<and> num_running_compactions db = 0
     \<and> flush_queue db = [] \<and> compaction_queue db = [] \<and> taken db = [] \<and> running db = []
     \<and> env_pool db = (\<lambda>_. Impl)
     \<and> (\<forall>cf. \<not> pending_flush (cfds db cf) \<and> \<not> pending_compaction (cfds db cf)
          \<and> 0 \<le> refs (cfds db cf) \<and> \<not> deleted (cfds db cf))"

lemma db_init_inv:
  assumes "db_init db"
  shows "sched_inv (\<lambda>_. 0) db"
proof -
  have w: "waiting P db = 0" for P
    using assms by (simp add: db_init_def waiting_def queued_def pool_jobs_def Impl_def)
  have "0 \<le> max_flushes (GetBGJobLimits db)"
    by (simp add: GetBGJobLimits_def BGJobLimits_for_def Let_def le_max_iff_disj)
  then show ?thesis
    using assms by (simp add: sched_inv_def counters_ok_def limit_ok_def queues_ok_def refs_ok_def
        needed_def manual_ok_def manual_jobs_def pools_ok_def w) (simp add: db_init_def pool_inv_def
      tagged_def pool_jobs_def Impl_def)
qed

lemma reachable_inv:
  assumes "(db_step rd)\<^sup>*\<^sup>* db0 db" and "db_init db0"
  shows "sched_inv (\<lambda>_. 0) db"
  using assms(1) by (induction rule: rtranclp_induct) (simp_all add: db_init_inv assms(2) db_step_inv)

end
