(* ===== verification/Silk_Props.thy ===== *)
theory Silk_Props
  imports Silk_Steps
begin

text \<open>
  What the scheduler guarantees and where it does not do what its comments say: the invariant of
  all reachable states, the exact effect of \<open>MaybeScheduleFlushOrCompaction\<close>, pausing, refitting and
  the destructor.
\<close>

section \<open>The effect of scheduling\<close>

lemma queued_schedule:
  assumes "pools_ok db"
  shows "queued P pri (schedule_flush p db) = queued P pri db + of_bool (pri = p \<and> P BGWorkFlush)"
    and "queued P pri (schedule_compaction p db)
           = queued P pri db + of_bool (pri = p \<and> P (BGWorkCompaction None))"
proof -
  have "pools_ok (db\<lparr>unscheduled_flushes := a, bg_flush_scheduled := b\<rparr>)"
    "pools_ok (db\<lparr>bg_compaction_scheduled := a, unscheduled_compactions := b\<rparr>)" for a b
    using assms by (simp_all add: pools_ok_def)
  then show "queued P pri (schedule_flush p db) = queued P pri db + of_bool (pri = p \<and> P BGWorkFlush)"
    "queued P pri (schedule_compaction p db)
       = queued P pri db + of_bool (pri = p \<and> P (BGWorkCompaction None))"
    by (simp_all add: queued_def schedule_flush_def schedule_compaction_def env_Schedule_pools job_tag_def)
qed

lemma flush_loop_high_effect:
  assumes "pools_ok db" and "0 \<le> unscheduled_flushes db"
  shows "pools_ok (flush_loop_high limit db)
    \<and> bg_flush_scheduled (flush_loop_high limit db)
        = max (bg_flush_scheduled db) (min limit (bg_flush_scheduled db + unscheduled_flushes db))
    \<and> unscheduled_flushes (flush_loop_high limit db) + bg_flush_scheduled (flush_loop_high limit db)
        = unscheduled_flushes db + bg_flush_scheduled db
    \<and> unscheduled_compactions (flush_loop_high limit db) = unscheduled_compactions db
    \<and> bg_compaction_scheduled (flush_loop_high limit db) = bg_compaction_scheduled db
    \<and> queued P LOW (flush_loop_high limit db) = queued P LOW db
    \<and> queued P HIGH (flush_loop_high limit db) = queued P HIGH db
        + of_bool (P BGWorkFlush) * (bg_flush_scheduled (flush_loop_high limit db) - bg_flush_scheduled db)"
  using assms
proof (induction limit db rule: flush_loop_high.induct)
  case (1 limit db)
  show ?case
  proof (cases "0 < unscheduled_flushes db \<and> bg_flush_scheduled db < limit")
    case True
    then have eq: "flush_loop_high limit db = flush_loop_high limit (schedule_flush HIGH db)"
      by (simp add: flush_loop_high.simps [of limit db])
    show ?thesis
      using True "1.IH" "1.prems" unfolding eq
      by (simp add: schedule_waiting queued_schedule max_def min_def algebra_simps)
  next
    case False
    then show ?thesis
      using "1.prems" by (auto simp: flush_loop_high.simps [of limit db] max_def min_def)
  qed
qed

lemma compaction_loop_effect:
  assumes "pools_ok db" and "0 \<le> unscheduled_compactions db"
  shows "pools_ok (compaction_loop limit db)
    \<and> bg_compaction_scheduled (compaction_loop limit db)
        = max (bg_compaction_scheduled db) (min limit (bg_compaction_scheduled db + unscheduled_compactions db))
    \<and> unscheduled_compactions (compaction_loop limit db) + bg_compaction_scheduled (compaction_loop limit db)
        = unscheduled_compactions db + bg_compaction_scheduled db
    \<and> unscheduled_flushes (compaction_loop limit db) = unscheduled_flushes db
    \<and> bg_flush_scheduled (compaction_loop limit db) = bg_flush_scheduled db
    \<and> queued P HIGH (compaction_loop limit db) = queued P HIGH db
    \<and> queued P LOW (compaction_loop limit db) = queued P LOW db
        + of_bool (P (BGWorkCompaction None))
          * (bg_compaction_scheduled (compaction_loop limit db) - bg_compaction_scheduled db)"
  using assms
proof (induction limit db rule: compaction_loop.induct)
  case (1 limit db)
  show ?case
  proof (cases "bg_compaction_scheduled db < limit \<and> 0 < unscheduled_compactions db")
    case True
    then have eq: "compaction_loop limit db = compaction_loop limit (schedule_compaction LOW db)"
      by (simp add: compaction_loop.simps [of limit db])
    show ?thesis
      using True "1.IH" "1.prems" unfolding eq
      by (simp add: schedule_waiting queued_schedule max_def min_def algebra_simps)
  next
    case False
    then show ?thesis
      using "1.prems" by (auto simp: compaction_loop.simps [of limit db] max_def min_def)
  qed
qed

lemma silk_stage_effect:
  assumes "pools_ok db" and "0 \<le> unscheduled_flushes db" and "GetBackgroundThreads (env_pool db HIGH) \<noteq> 0"
  defines "silk \<equiv> of_bool (silk_high_compaction (flush_loop_high (max_flushes (GetBGJobLimits db)) db))"
    and "f \<equiv> max (bg_flush_scheduled db)
      (min (max_flushes (GetBGJobLimits db)) (bg_flush_scheduled db + unscheduled_flushes db))"
  shows "pools_ok (silk_stage db)" "bg_flush_scheduled (silk_stage db) = f"
    "unscheduled_flushes (silk_stage db) = unscheduled_flushes db + bg_flush_scheduled db - f"
    "bg_compaction_scheduled (silk_stage db) = bg_compaction_scheduled db + silk"
    "unscheduled_compactions (silk_stage db) = unscheduled_compactions db - silk"
    "queued is_flush HIGH (silk_stage db) = queued is_flush HIGH db + (f - bg_flush_scheduled db)"
    "queued is_flush LOW (silk_stage db) = queued is_flush LOW db"
    "queued is_compaction HIGH (silk_stage db) = queued is_compaction HIGH db + silk"
    "queued is_compaction LOW (silk_stage db) = queued is_compaction LOW db"
proof -
  note fl = flush_loop_high_effect [OF assms(1,2), of "max_flushes (GetBGJobLimits db)"]
  note flf = fl [of is_flush] and flc = fl [of is_compaction]
  have p: "pools_ok (flush_loop_high (max_flushes (GetBGJobLimits db)) db)"
    using flf by simp
  show "pools_ok (silk_stage db)" "bg_flush_scheduled (silk_stage db) = f"
    "unscheduled_flushes (silk_stage db) = unscheduled_flushes db + bg_flush_scheduled db - f"
    "bg_compaction_scheduled (silk_stage db) = bg_compaction_scheduled db + silk"
    "unscheduled_compactions (silk_stage db) = unscheduled_compactions db - silk"
    "queued is_flush HIGH (silk_stage db) = queued is_flush HIGH db + (f - bg_flush_scheduled db)"
    "queued is_flush LOW (silk_stage db) = queued is_flush LOW db"
    "queued is_compaction HIGH (silk_stage db) = queued is_compaction HIGH db + silk"
    "queued is_compaction LOW (silk_stage db) = queued is_compaction LOW db"
    using flf flc p assms(3)
    by (simp_all add: silk_stage_def flush_stage_def silk_def f_def schedule_waiting queued_schedule
        algebra_simps)
qed

text \<open>
  C3: The exact effect of \<open>MaybeScheduleFlushOrCompaction\<close> on an open database that is neither
  paused nor shutting down and has flush threads.  Flushes are scheduled in the HIGH pool up to the
  limit and no further; at most one compaction, SILK's, is put in the HIGH pool; compactions are
  put in the LOW pool up to the limit unless compactions are paused or an exclusive manual
  compaction is pending; and no unit of work is lost or duplicated.
\<close>
theorem MaybeSchedule_effect:
  assumes "pools_ok db" and "0 \<le> unscheduled_flushes db" and "0 \<le> unscheduled_compactions db"
    and "opened_successfully db" and "bg_work_paused db \<le> 0" and "\<not> shutting_down db"
    and "GetBackgroundThreads (env_pool db HIGH) \<noteq> 0"
  shows "let db' = MaybeScheduleFlushOrCompaction db;
             f = max (bg_flush_scheduled db) (min (max_flushes (GetBGJobLimits db))
                   (bg_flush_scheduled db + unscheduled_flushes db));
             silk = of_bool (silk_high_compaction (flush_loop_high (max_flushes (GetBGJobLimits db)) db));
             c = (if 0 < bg_compaction_paused db \<or> HasExclusiveManualCompaction db
                  then bg_compaction_scheduled db + silk
                  else max (bg_compaction_scheduled db + silk) (min (max_compactions (GetBGJobLimits db))
                         (bg_compaction_scheduled db + unscheduled_compactions db)))
         in bg_flush_scheduled db' = f
            \<and> unscheduled_flushes db' = unscheduled_flushes db + bg_flush_scheduled db - f
            \<and> bg_compaction_scheduled db' = c
            \<and> unscheduled_compactions db' = unscheduled_compactions db + bg_compaction_scheduled db - c
            \<and> queued is_flush HIGH db' = queued is_flush HIGH db + (f - bg_flush_scheduled db)
            \<and> queued is_flush LOW db' = queued is_flush LOW db
            \<and> queued is_compaction HIGH db' = queued is_compaction HIGH db + silk
            \<and> queued is_compaction LOW db' = queued is_compaction LOW db + (c - bg_compaction_scheduled db - silk)"
proof -
  note st = silk_stage_effect [OF assms(1,2,7)]
  have blocked: "0 < bg_compaction_paused (silk_stage db) \<or> HasExclusiveManualCompaction (silk_stage db)
      \<longleftrightarrow> 0 < bg_compaction_paused db \<or> HasExclusiveManualCompaction db"
    using stages_same_cfs(2) [of db] by (simp add: same_cfs_def HasExclusiveManualCompaction_def)
  have eq: "MaybeScheduleFlushOrCompaction db =
      (if 0 < bg_compaction_paused db \<or> HasExclusiveManualCompaction db then silk_stage db
       else compaction_loop (max_compactions (GetBGJobLimits db)) (silk_stage db))"
    using assms(4-6) unfolding MaybeSchedule_stages blocked by simp
  have "0 \<le> unscheduled_compactions (silk_stage db)"
    using flush_loop_high_effect [OF assms(1,2)] assms(3) by (simp add: st silk_high_compaction_def)
  note cl = compaction_loop_effect [OF st(1) this, of "max_compactions (GetBGJobLimits db)"]
  show ?thesis
    using cl [of is_flush] cl [of is_compaction]
    by (simp add: eq Let_def st algebra_simps)
qed

section \<open>An example database\<close>

text \<open>
  A database with one column family that has five level-0 files, ready to be scheduled: one unit
  of flush work and two of compaction work wait.
\<close>

definition silk_options :: MutableCFOptions where
  "silk_options = \<lparr>max_write_buffer_number = 2, disable_auto_compactions = False,
     level0_file_num_compaction_trigger = 4, level0_slowdown_writes_trigger = 20,
     level0_stop_writes_trigger = 36, soft_pending_compaction_bytes_limit = 1000,
     hard_pending_compaction_bytes_limit = 4000\<rparr>"

definition silk_facts :: cf_facts where
  "silk_facts = \<lparr>IsFlushPending = True, NeedsCompaction = True, NumLevelFiles = [5, 1],
     NumLevelBytes = [500, 100], MaxBytesForLevel = [1000, 1000], imm_NumNotFlushed = 1,
     mem_IsEmpty = False, cf_l0_delay_trigger_count = 5, cf_estimated_compaction_needed_bytes = 0\<rparr>"

definition silk_cf :: ColumnFamilyData where
  "silk_cf = \<lparr>refs = 1, deleted = False, IsDropped = False, pending_flush = False,
     pending_compaction = False, facts = silk_facts, cf_options = silk_options, stall = new_stall_cf\<rparr>"

definition no_manual :: ManualCompaction where
  "no_manual = \<lparr>mc_cfd = 0, input_level = 0, output_level = 0, exclusive = False,
     disallow_trivial_move = False, mc_status = OK, mc_done = False, in_progress = False,
     incomplete = False, mc_begin = None, mc_end = None, manual_end = None, mc_compaction = None,
     mc_scheduled = False\<rparr>"

definition silk_db :: DBImpl where
  "silk_db = \<lparr>opened_successfully = True, shutting_down = False, bg_work_paused = 0,
     bg_compaction_paused = 0, unscheduled_flushes = 0, unscheduled_compactions = 0,
     bg_flush_scheduled = 0, bg_compaction_scheduled = 0, bg_purge_scheduled = 0,
     num_running_flushes = 0, num_running_compactions = 0, num_running_ingest_file = 0,
     flush_queue = [], compaction_queue = [], manual_compaction_dequeue = [],
     manuals = (\<lambda>_. no_manual), refitting_level = False, bg_error = OK, paranoid_checks = True,
     max_background_flushes = -1, max_background_compactions = -1, max_background_jobs = 2,
     write_controller = new_WriteController 100000, cfds = (\<lambda>_. silk_cf),
     env_pool = (\<lambda>_. Impl), purge_queue = [], logs_to_free_queue = [], taken = [], running = []\<rparr>"

definition silk_ready :: DBImpl where
  "silk_ready = silk_db\<lparr>unscheduled_flushes := 1, unscheduled_compactions := 2\<rparr>"

lemma silk_db_init: "db_init silk_db"
  by (simp add: db_init_def silk_db_def silk_cf_def)

lemma silk_ready_pools: "pools_ok silk_ready"
  by (simp add: pools_ok_def tagged_def silk_ready_def silk_db_def pool_inv_def Impl_def pool_jobs_def)

theorem MaybeSchedule_effect_witness:
  "bg_flush_scheduled (MaybeScheduleFlushOrCompaction silk_ready) = 1
   \<and> queued is_compaction HIGH (MaybeScheduleFlushOrCompaction silk_ready)
       + queued is_compaction LOW (MaybeScheduleFlushOrCompaction silk_ready)
     = bg_compaction_scheduled (MaybeScheduleFlushOrCompaction silk_ready)"
proof -
  have "0 \<le> unscheduled_flushes silk_ready" "0 \<le> unscheduled_compactions silk_ready"
    "opened_successfully silk_ready" "bg_work_paused silk_ready \<le> 0" "\<not> shutting_down silk_ready"
    "GetBackgroundThreads (env_pool silk_ready HIGH) \<noteq> 0"
    "max_flushes (GetBGJobLimits silk_ready) = 1" "bg_flush_scheduled silk_ready = 0"
    "unscheduled_flushes silk_ready = 1" "bg_compaction_scheduled silk_ready = 0"
    "queued P pri silk_ready = 0" for P pri
    by (simp_all add: silk_ready_def silk_db_def GetBackgroundThreads_def Impl_def GetBGJobLimits_def
        BGJobLimits_for_def Let_def tdiv_def queued_def pool_jobs_def)
  note facts = this
  show ?thesis
    using MaybeSchedule_effect [OF silk_ready_pools facts(1-6)] by (simp add: Let_def facts)
qed

section \<open>All reachable states\<close>



section \<open>Pausing\<close>





text \<open>
  The comment that \<open>bg_work_paused_\<close> never exceeds \<open>bg_compaction_paused_\<close> holds for the pause
  and continue operations of background work, but a \<open>ContinueCompactionWork\<close> between them breaks it:
  from a paused database it leads to a state whose next \<open>ContinueBackgroundWork\<close> makes the count of
  compaction pauses negative.
\<close>
theorem pause_order_broken:
  "let paused = PauseBackgroundWork_end (PauseBackgroundWork_begin silk_db);
       db = snd (ContinueCompactionWork paused)
   in bg_work_paused paused \<le> bg_compaction_paused paused
      \<and> fst (ContinueCompactionWork paused) = OK
      \<and> bg_compaction_paused db < bg_work_paused db
      \<and> fst (ContinueBackgroundWork db) = OK
      \<and> bg_compaction_paused (snd (ContinueBackgroundWork db)) = -1"
proof -
  have m: "bg_compaction_paused (MaybeScheduleFlushOrCompaction db) = bg_compaction_paused db"
    "bg_work_paused (MaybeScheduleFlushOrCompaction db) = bg_work_paused db" for db
    using MaybeSchedule_same_cfs [of db] by (simp_all add: same_cfs_def)
  show ?thesis
    by (simp add: Let_def ContinueCompactionWork_def ContinueBackgroundWork_def m
        PauseBackgroundWork_end_def PauseBackgroundWork_begin_def silk_db_def)
qed

section \<open>Refitting a level\<close>

text \<open>
  C26: A call of \<open>ReFitLevel\<close> that is rejected because it would move files out of level 0 or past
  files in between leaves the flag \<open>refitting_level_\<close> set, and from then on every call with a valid
  target level is rejected as if another thread were refitting.
\<close>
theorem ReFitLevel_stuck:
  assumes "\<not> refitting_level db" and "int level < target" and "target < int (length (NumLevelFiles (facts (cfds db cf))))"
    and "level = 0 \<or> (\<exists>l. level < l \<and> int l \<le> target \<and> 0 < NumLevelFiles (facts (cfds db cf)) ! l)"
    and "target' < int (length (NumLevelFiles (facts (cfds db cf'))))"
  shows "let (st, db') = ReFitLevel rd cf level target s new db
         in \<not> ok st \<and> refitting_level db'
            \<and> ReFitLevel rd cf' level' target' s' new' db' = (NotSupported ''another thread is refitting'', db')"
proof -
  have nonempty: "list_ex (\<lambda>l. 0 < NumLevelFiles (facts (cfds db cf)) ! l) [level + 1 ..< nat target + 1]"
    if pos: "0 < level"
  proof -
    obtain l where "level < l" "int l \<le> target" "0 < NumLevelFiles (facts (cfds db cf)) ! l"
      using assms(4) pos by auto
    moreover have "l \<in> set [level + 1 ..< nat target + 1]"
      using calculation by auto
    ultimately show ?thesis
      unfolding list_ex_iff by blast
  qed
  have "snd (ReFitLevel rd cf level target s new db) = db\<lparr>refitting_level := True\<rparr>
      \<and> \<not> ok (fst (ReFitLevel rd cf level target s new db))"
    using assms(1-3) nonempty by (cases "level = 0") (auto simp: ReFitLevel_def Let_def)
  then show ?thesis
    using assms(5) by (auto simp: case_prod_beta ReFitLevel_def [of _ cf'])
qed

theorem ReFitLevel_stuck_witness:
  "let (st, db') = ReFitLevel id 0 0 1 OK silk_facts silk_db
   in \<not> ok st \<and> refitting_level db'
      \<and> ReFitLevel id 0 1 0 OK silk_facts db' = (NotSupported ''another thread is refitting'', db')"
  by (rule ReFitLevel_stuck) (simp_all add: silk_db_def silk_cf_def silk_facts_def)

section \<open>SILK's compaction in the flush pool\<close>

text \<open>
  C19: SILK's compaction is scheduled even while an exclusive manual compaction is pending and even
  when the limit on compactions has been reached: whenever its condition holds once the flushes are
  scheduled, exactly one more compaction is scheduled, in the HIGH pool.
\<close>
theorem silk_compaction_not_exclusive:
  assumes "pools_ok db" and "0 \<le> unscheduled_flushes db" and "0 \<le> unscheduled_compactions db"
    and "opened_successfully db" and "bg_work_paused db \<le> 0" and "\<not> shutting_down db"
    and "GetBackgroundThreads (env_pool db HIGH) \<noteq> 0"
    and "silk_high_compaction (flush_loop_high (max_flushes (GetBGJobLimits db)) db)"
    and "HasExclusiveManualCompaction db"
  shows "bg_compaction_scheduled (MaybeScheduleFlushOrCompaction db) = bg_compaction_scheduled db + 1
    \<and> queued is_compaction HIGH (MaybeScheduleFlushOrCompaction db) = queued is_compaction HIGH db + 1
    \<and> queued is_compaction LOW (MaybeScheduleFlushOrCompaction db) = queued is_compaction LOW db"
proof -
  have "MaybeScheduleFlushOrCompaction db = silk_stage db"
    using assms(4-6,9) stages_same_cfs(2) [of db]
    by (simp add: MaybeSchedule_stages same_cfs_def HasExclusiveManualCompaction_def)
  then show ?thesis
    using silk_stage_effect(4,8,9) [OF assms(1,2,7)] assms(8) by simp
qed

definition silk_manual :: DBImpl where
  "silk_manual = silk_db\<lparr>unscheduled_compactions := 1, bg_compaction_scheduled := 1,
     manuals := (\<lambda>_. no_manual\<lparr>exclusive := True\<rparr>), manual_compaction_dequeue := [7]\<rparr>"

theorem silk_compaction_not_exclusive_witness:
  "HasExclusiveManualCompaction silk_manual
   \<and> max_compactions (GetBGJobLimits silk_manual) \<le> bg_compaction_scheduled silk_manual
   \<and> bg_compaction_scheduled (MaybeScheduleFlushOrCompaction silk_manual) = 2"
proof -
  have "pools_ok silk_manual" "flush_loop_high n silk_manual = silk_manual" for n
    by (simp_all add: pools_ok_def tagged_def silk_manual_def silk_db_def pool_inv_def Impl_def
        pool_jobs_def flush_loop_high.simps [of n])
  moreover have ex: "HasExclusiveManualCompaction silk_manual" "silk_high_compaction silk_manual"
    by (simp_all add: HasExclusiveManualCompaction_def silk_manual_def silk_db_def silk_high_compaction_def
        GetThreadPoolQueueLen_def GetQueueLen_def Impl_def silk_cf_def silk_facts_def)
  ultimately have "bg_compaction_scheduled (MaybeScheduleFlushOrCompaction silk_manual)
      = bg_compaction_scheduled silk_manual + 1"
    using silk_compaction_not_exclusive [of silk_manual]
    by (simp add: silk_manual_def silk_db_def GetBackgroundThreads_def Impl_def)
  then show ?thesis
    using ex(1) by (simp add: silk_manual_def silk_db_def GetBGJobLimits_def BGJobLimits_for_def Let_def
        tdiv_def NeedSpeedupCompaction_def IsStopped_def NeedsDelay_def new_WriteController_def
        set_max_delayed_write_rate_def)
qed

section \<open>The destructor\<close>

lemma UnscheduleCallback_frame:
  "taken (fold UnscheduleCallback cs db) = taken db \<and> running (fold UnscheduleCallback cs db) = running db
   \<and> env_pool (fold UnscheduleCallback cs db) = env_pool db
   \<and> bg_compaction_scheduled (fold UnscheduleCallback cs db) = bg_compaction_scheduled db
   \<and> bg_flush_scheduled (fold UnscheduleCallback cs db) = bg_flush_scheduled db
   \<and> bg_purge_scheduled (fold UnscheduleCallback cs db) = bg_purge_scheduled db
   \<and> shutting_down (fold UnscheduleCallback cs db) = shutting_down db"
proof (induction cs arbitrary: db)
  case (Cons c cs)
  then show ?case
    by (simp add: UnscheduleCallback_def delete_compaction_def Unref_def update_cfd_def Let_def
        split: bg_job.splits option.splits)
qed simp

lemma UnscheduleCallback_queued [simp]:
  "queued P pri (fold UnscheduleCallback cs db) = queued P pri db"
  "pools_ok (fold UnscheduleCallback cs db) = pools_ok db"
  by (simp_all add: queued_def pools_ok_def UnscheduleCallback_frame)

lemma env_UnSchedule_effect:
  assumes "pools_ok db" and "env_UnSchedule db_tag pri db = (n, cs, db')"
  shows "int n = queued is_flush pri db + queued is_compaction pri db"
    and "queued P pri' db' = (if pri' = pri then cnt (\<lambda>j. P (snd j) \<and> is_purge (snd j)) (pool_jobs (env_pool db pri))
           else queued P pri' db)"
    and "pools_ok db'" and "taken db' = taken db" and "running db' = running db"
    and "bg_compaction_scheduled db' = bg_compaction_scheduled db"
    and "bg_flush_scheduled db' = bg_flush_scheduled db"
    and "bg_purge_scheduled db' = bg_purge_scheduled db"
    and "shutting_down db' = shutting_down db"
proof -
  let ?p = "env_pool db pri"
  obtain p where u: "UnSchedule db_tag ?p = (p, cs, n)"
    and db': "db' = db\<lparr>env_pool := (env_pool db)(pri := p)\<rparr>"
    using assms(2) by (auto simp: env_UnSchedule_def split: prod.splits)
  have inv: "pool_inv ?p" "tagged ?p"
    using assms(1) by (cases pri; simp add: pools_ok_def)+
  note w = bg_pool.withdraw [OF inv(1) u]
  have tag: "fst j \<noteq> db_tag \<longleftrightarrow> is_purge (snd j)" if "j \<in> set (pool_jobs ?p)" for j
    using inv(2) that by (cases "snd j") (auto simp: tagged_def job_tag_def db_tag_def)
  have jobs: "pool_jobs p = filter (\<lambda>j. is_purge (snd j)) (pool_jobs ?p)"
    using w tag by (metis (mono_tags, lifting) filter_cong)
  have "n + length (pool_jobs p) = length (pool_jobs ?p)"
    using w by blast
  then have "int n = cnt (\<lambda>j. \<not> is_purge (snd j)) (pool_jobs ?p)"
    using sum_length_filter_compl [of "\<lambda>j. is_purge (snd j)" "pool_jobs ?p"]
    by (simp add: cnt_def jobs)
  also have "\<dots> = queued is_flush pri db + queued is_compaction pri db"
  proof -
    have "cnt (\<lambda>j. \<not> is_purge (snd j)) xs = cnt (\<lambda>j. is_flush (snd j)) xs + cnt (\<lambda>j. is_compaction (snd j)) xs"
      for xs :: "(nat option \<times> bg_job) list"
    proof (induction xs)
      case (Cons x xs)
      then show ?case
        by (cases "snd x") auto
    qed simp
    then show ?thesis
      by (simp add: queued_def)
  qed
  finally show "int n = queued is_flush pri db + queued is_compaction pri db" .
  show "queued P pri' db' = (if pri' = pri then cnt (\<lambda>j. P (snd j) \<and> is_purge (snd j)) (pool_jobs ?p)
      else queued P pri' db)"
    by (simp add: queued_def db' jobs cnt_def conj_commute)
  have "pool_inv p" "tagged p"
    using w inv(2) jobs by (auto simp: tagged_def)
  then show "pools_ok db'"
    using assms(1) by (cases pri) (auto simp: pools_ok_def db')
qed (use assms(2) in \<open>auto simp: env_UnSchedule_def split: prod.splits\<close>)

text \<open>
  What the destructor leaves in the counters, on any reachable database: the compactions
  and flushes that threads have taken or are running, but shifted by the jobs that were queued in
  the pool of the other kind.  So the counters are right exactly when as many compactions were
  queued in the flush pool as flushes in the compaction pool.
\<close>
lemma destructor_counters:
  assumes "db_init db0" and "(db_step rd)\<^sup>*\<^sup>* db0 db"
  shows "let db' = DBImpl_destroy db; shift = queued is_compaction HIGH db - queued is_flush LOW db
         in bg_compaction_scheduled db' = waiting is_compaction db' + cnt runs_compaction (running db') + shift
            \<and> bg_flush_scheduled db' = waiting is_flush db' + cnt runs_flush (running db') - shift
            \<and> waiting is_compaction db' = cnt is_compaction (taken db)
            \<and> waiting is_flush db' = cnt is_flush (taken db)
            \<and> running db' = running db \<and> shutting_down db' \<and> pools_ok db'"
proof -
  have cok: "counters_ok db"
    using reachable_inv [OF assms(2,1)] by (simp add: sched_inv_def)
  then have p: "pools_ok (db\<lparr>shutting_down := True\<rparr>)"
    by (simp add: counters_ok_def pools_ok_def)
  obtain n1 c1 db1 where u1: "env_UnSchedule db_tag LOW (db\<lparr>shutting_down := True\<rparr>) = (n1, c1, db1)"
    by (metis prod_cases3)
  note e1 = env_UnSchedule_effect [OF p u1]
  let ?db1 = "fold UnscheduleCallback c1 db1"
  obtain n2 c2 db3 where u2: "env_UnSchedule db_tag HIGH ?db1 = (n2, c2, db3)"
    by (metis prod_cases3)
  have "pools_ok ?db1"
    using e1(3) by simp
  note e2 = env_UnSchedule_effect [OF this u2]
  define db2 where "db2 = fold UnscheduleCallback c2 db3"
  have db': "DBImpl_destroy db = db2\<lparr>bg_compaction_scheduled := bg_compaction_scheduled db2 - int n1,
      bg_flush_scheduled := bg_flush_scheduled db2 - int n2\<rparr>"
    by (simp add: DBImpl_destroy_def CancelAllBackgroundWork_def u1 u2 db2_def Let_def)
  have none: "cnt (\<lambda>j. is_flush (snd j) \<and> is_purge (snd j)) xs = 0"
    "cnt (\<lambda>j. is_compaction (snd j) \<and> is_purge (snd j)) xs = 0" for xs :: "(nat option \<times> bg_job) list"
    unfolding cnt_zero by (auto elim!: is_purge.elims)
  have q: "queued P pri (db\<lparr>shutting_down := True\<rparr>) = queued P pri db"
    "queued P pri (db2\<lparr>bg_compaction_scheduled := a, bg_flush_scheduled := b\<rparr>) = queued P pri db2" for P pri a b
    by (simp_all add: queued_def)
  have "pools_ok (DBImpl_destroy db)"
    using e2(3) by (simp add: db' pools_ok_def db2_def UnscheduleCallback_frame)
  then show ?thesis
    using cok e1 e2
    by (simp add: Let_def db' waiting_def none q counters_ok_def UnscheduleCallback_frame) (simp add: db2_def none UnscheduleCallback_frame)
qed

text \<open>
  Once the database is shutting down nothing is scheduled any more, so that the difference between
  the counter of compactions and the compactions there are does not change.
\<close>

definition excess :: "DBImpl \<Rightarrow> int" where
  "excess db = bg_compaction_scheduled db - waiting is_compaction db - cnt runs_compaction (running db)"

definition frozen :: "DBImpl \<Rightarrow> DBImpl \<Rightarrow> bool" where
  "frozen db db' \<longleftrightarrow> env_pool db' = env_pool db \<and> taken db' = taken db \<and> running db' = running db
     \<and> bg_compaction_scheduled db' = bg_compaction_scheduled db \<and> shutting_down db' \<and> shutting_down db"

lemma frozen_excess: "frozen db db' \<Longrightarrow> excess db' = excess db \<and> pools_ok db' = pools_ok db \<and> shutting_down db'"
  by (simp add: frozen_def excess_def waiting_def queued_def pools_ok_def)

lemma frozen_refl: "shutting_down db \<Longrightarrow> frozen db db"
  by (simp add: frozen_def)

lemma frozen_trans: "frozen db db' \<Longrightarrow> frozen db' db'' \<Longrightarrow> frozen db db''"
  by (simp add: frozen_def)

lemma frozen_ops:
  assumes "frozen db0 db"
  shows "frozen db0 (MaybeScheduleFlushOrCompaction db)" "frozen db0 (update_cfd cf f db)"
    "frozen db0 (Ref cf db)" "frozen db0 (snd (Unref cf db))"
    "frozen db0 (AddToFlushQueue cf db)" "frozen db0 (AddToCompactionQueue cf db)"
    "frozen db0 (snd (PopFirstFromFlushQueue db))" "frozen db0 (snd (PopFirstFromCompactionQueue db))"
    "frozen db0 (SchedulePendingFlush cf db)" "frozen db0 (SchedulePendingCompaction cf db)"
    "frozen db0 (update_manual m g db)" "frozen db0 (set_bg_error e db)"
    "frozen db0 (delete_compaction c db)"
  using assms
  by (auto simp: frozen_def MaybeScheduleFlushOrCompaction_def update_cfd_def Ref_def Unref_def Let_def
      AddToFlushQueue_def AddToCompactionQueue_def PopFirstFromFlushQueue_def
      PopFirstFromCompactionQueue_def SchedulePendingFlush_def SchedulePendingCompaction_def
      update_manual_def set_bg_error_def delete_compaction_def split: option.splits)

lemma frozen_install:
  assumes "frozen db0 db"
  shows "frozen db0 (InstallSuperVersion rd cf new db)"
    "frozen db0 (InstallSuperVersionAndScheduleWork rd cf new db)"
proof -
  show 1: "frozen db0 (InstallSuperVersion rd cf new db)"
    using assms by (simp add: frozen_def InstallSuperVersion_def Let_def update_cfd_def split: prod.splits)
  show "frozen db0 (InstallSuperVersionAndScheduleWork rd cf new db)"
    by (simp add: InstallSuperVersionAndScheduleWork_def frozen_ops 1)
qed

definition settled :: "int \<Rightarrow> DBImpl \<Rightarrow> bool" where
  "settled d db \<longleftrightarrow> shutting_down db \<and> pools_ok db \<and> excess db = d"

lemma frozen_settled: "settled d db \<Longrightarrow> frozen db db' \<Longrightarrow> settled d db'"
  using frozen_excess by (simp add: settled_def)

lemma settled_frozen: "settled d db \<Longrightarrow> frozen db db"
  by (simp add: settled_def frozen_refl)

lemma settled_sel [simp]:
  "settled d (db\<lparr>num_running_flushes := a\<rparr>) = settled d db"
  "settled d (db\<lparr>num_running_compactions := a\<rparr>) = settled d db"
  "settled d (db\<lparr>bg_flush_scheduled := a\<rparr>) = settled d db"
  "settled d (db\<lparr>bg_purge_scheduled := a\<rparr>) = settled d db"
  "settled d (db\<lparr>bg_work_paused := a\<rparr>) = settled d db"
  "settled d (db\<lparr>bg_compaction_paused := a\<rparr>) = settled d db"
  "settled d (db\<lparr>num_running_ingest_file := b\<rparr>) = settled d db"
  "settled d (db\<lparr>refitting_level := e\<rparr>) = settled d db"
  "settled d (db\<lparr>purge_queue := q\<rparr>) = settled d db"
  "settled d (db\<lparr>logs_to_free_queue := l\<rparr>) = settled d db"
  by (simp_all add: settled_def excess_def pools_ok_def waiting_def queued_def)

lemma settled_pool:
  assumes "settled d db" and "BGThread i (env_pool db pri) = (a, p)"
  shows "a = RunJob j \<Longrightarrow> settled d (db\<lparr>env_pool := (env_pool db)(pri := p), taken := j # taken db\<rparr>)"
    and "\<forall>j. a \<noteq> RunJob j \<Longrightarrow> settled d (db\<lparr>env_pool := (env_pool db)(pri := p)\<rparr>)"
proof -
  have ok: "pools_ok db" "shutting_down db" "excess db = d"
    using assms(1) by (simp_all add: settled_def)
  have inv: "pool_inv (env_pool db pri)"
    using ok(1) by (cases pri) (auto simp: pools_ok_def)
  show "settled d (db\<lparr>env_pool := (env_pool db)(pri := p), taken := j # taken db\<rparr>)" if "a = RunJob j"
  proof -
    from bg_pool.take_job [OF inv] assms(2) that obtain t where
      t: "pool_jobs (env_pool db pri) = (t, j) # pool_jobs p" "pool_inv p"
      by blast
    then have "pools_ok (db\<lparr>env_pool := (env_pool db)(pri := p), taken := j # taken db\<rparr>)"
      using ok(1) by (cases pri) (auto simp: pools_ok_def tagged_def)
    then show ?thesis
      using ok by (simp add: settled_def excess_def pool_update_waiting queued_def t)
  qed
  show "settled d (db\<lparr>env_pool := (env_pool db)(pri := p)\<rparr>)" if "\<forall>j. a \<noteq> RunJob j"
  proof -
    note t = bg_pool.take_other [OF inv assms(2) that]
    have "pools_ok (db\<lparr>env_pool := (env_pool db)(pri := p)\<rparr>)"
      using ok(1) t by (cases pri) (auto simp: pools_ok_def tagged_def)
    then show ?thesis
      using ok t pool_update_waiting [where P = is_compaction and db = db and pri = pri and p = p and t = "taken db"]
      by (simp add: settled_def excess_def queued_def)
  qed
qed

lemma settled_job:
  assumes "settled d db"
  shows "j \<in> set (taken db) \<Longrightarrow> is_compaction j = runs_compaction r \<Longrightarrow>
      settled d (db\<lparr>taken := remove1 j (taken db), running := r # running db\<rparr>)"
    and "r \<in> set (running db) \<Longrightarrow> runs_compaction r = runs_compaction r' \<Longrightarrow>
      settled d (db\<lparr>running := r' # remove1 r (running db)\<rparr>)"
    and "r \<in> set (running db) \<Longrightarrow> \<not> runs_compaction r \<Longrightarrow>
      settled d (db\<lparr>running := remove1 r (running db)\<rparr>)"
    and "r \<in> set (running db) \<Longrightarrow> runs_compaction r \<Longrightarrow>
      settled d (db\<lparr>running := remove1 r (running db), num_running_compactions := n,
        bg_compaction_scheduled := bg_compaction_scheduled db - 1\<rparr>)"
  using assms by (simp_all add: settled_def excess_def pools_ok_def waiting_def queued_def cnt_remove1)

lemma settled_schedule:
  assumes "settled d db" and "t = job_tag j"
  shows "settled (d - of_bool (is_compaction j)) (env_Schedule j pri t u db)"
proof -
  have "pools_ok db" "shutting_down (env_Schedule j pri t u db) = shutting_down db"
    using assms(1) by (simp_all add: settled_def env_Schedule_def)
  then show ?thesis
    using assms env_Schedule_pools [OF _ assms(2), of db]
    by (simp add: settled_def excess_def)
qed

lemma settled_bad_status: "settled d db \<Longrightarrow> \<not> ok (background_status db)"
  by (simp add: settled_def background_status_def)

lemma settled_begin:
  assumes "settled d db"
  shows "BackgroundCallFlush_begin db = (s, cf, db') \<Longrightarrow> cf = None \<and> settled d db'"
    and "BackgroundCallCompaction_begin pick needs arg db = (early, c, db') \<Longrightarrow>
      early \<noteq> None \<and> settled d db'"
proof -
  show "cf = None \<and> settled d db'" if "BackgroundCallFlush_begin db = (s, cf, db')"
    using that settled_bad_status [of d "db\<lparr>num_running_flushes := num_running_flushes db + 1\<rparr>"] assms
    by (auto simp: BackgroundCallFlush_begin_def Let_def)
  let ?db = "db\<lparr>num_running_compactions := num_running_compactions db + 1\<rparr>"
  show "early \<noteq> None \<and> settled d db'"
    if "BackgroundCallCompaction_begin pick needs arg db = (early, c, db')"
  proof -
    have s: "settled d ?db"
      using assms by simp
    have "settled d (update_manual m f (delete_compaction x ?db))" for m f x
      by (rule frozen_settled [OF s]) (intro frozen_ops settled_frozen [OF s])
    then show ?thesis
      using that s settled_bad_status [OF s]
      by (auto simp: BackgroundCallCompaction_begin_def BackgroundCompaction_begin_def Let_def
          split: option.splits)
  qed
qed

lemma settled_finish:
  assumes "settled d db"
  shows "settled d (BackgroundFlush_installed rd cf s reached e new db)"
    "settled d (BackgroundCompaction_finish rd arg c s e new db)"
    "settled d (MaybeScheduleFlushOrCompaction db)"
    "settled d (InstallSuperVersionAndScheduleWork rd cf new db)"
    "settled d (snd (FlushMemTable rd cf s switched requested db))"
    "settled d (update_cfd cf f db)" "settled d (update_manual m g db)"
proof -
  note f = settled_frozen [OF assms]
  show "settled d (BackgroundFlush_installed rd cf s reached e new db)"
    by (rule frozen_settled [OF assms])
      (simp add: BackgroundFlush_installed_def Let_def f frozen_ops frozen_install)
  show "settled d (BackgroundCompaction_finish rd arg c s e new db)"
    by (rule frozen_settled [OF assms])
      (simp add: BackgroundCompaction_finish_def Let_def f frozen_ops frozen_install split: option.splits)
  show "settled d (snd (FlushMemTable rd cf s switched requested db))"
    by (rule frozen_settled [OF assms])
      (simp add: FlushMemTable_def Let_def f frozen_ops frozen_install)
qed (rule frozen_settled [OF assms], simp add: frozen_ops frozen_install settled_frozen [OF assms])+

lemma settled_refit: "settled d db \<Longrightarrow> settled d (snd (ReFitLevel rd cf level target s new db))"
  by (auto simp: ReFitLevel_def Let_def settled_finish)

lemma settled_turn:
  assumes "settled d db"
  shows "settled d (snd (RunManualCompaction_turn m c_range db))"
proof -
  have "settled d (RemoveManualCompaction m db)"
    using assms by (simp add: RemoveManualCompaction_def settled_def excess_def pools_ok_def waiting_def queued_def)
  moreover have "settled d (env_Schedule (BGWorkCompaction (Some m)) LOW db_tag u
      (db'\<lparr>bg_compaction_scheduled := bg_compaction_scheduled db' + 1\<rparr>))" if "settled d db'" for u db'
  proof -
    have "settled (d + 1) (db'\<lparr>bg_compaction_scheduled := bg_compaction_scheduled db' + 1\<rparr>)"
      using that by (simp add: settled_def excess_def pools_ok_def waiting_def queued_def)
    from settled_schedule [OF this, of db_tag "BGWorkCompaction (Some m)" LOW u] show ?thesis
      by (simp add: job_tag_def)
  qed
  moreover have "settled d (Ref cf db)" for cf
    by (rule frozen_settled [OF assms]) (intro frozen_ops settled_frozen [OF assms])
  ultimately show ?thesis
    using assms by (auto simp: RunManualCompaction_turn_def Let_def settled_finish split: prod.splits option.splits)
qed

lemma settled_purge:
  assumes "settled d db"
  shows "settled d (SchedulePurge (SchedulePendingPurge number db))"
    "BackgroundCallPurge_turn db = Some db' \<Longrightarrow> settled d db'"
proof -
  show "settled d (SchedulePurge (SchedulePendingPurge number db))"
    using settled_schedule [of d _ None BGWorkPurge] assms
    by (simp add: SchedulePurge_def SchedulePendingPurge_def job_tag_def)
  show "BackgroundCallPurge_turn db = Some db' \<Longrightarrow> settled d db'"
    using assms by (auto simp: BackgroundCallPurge_turn_def split: if_splits)
qed

lemma settled_pauses:
  assumes "settled d db"
  shows "settled d (PauseBackgroundWork_begin db)" "settled d (PauseBackgroundWork_end db)"
    "settled d (PauseCompactionWork_begin db)" "settled d (PauseCompactionWork_end db)"
    "settled d (snd (ContinueBackgroundWork db))" "settled d (snd (ContinueCompactionWork db))"
    "settled d (RunManualCompaction_add m cf inl outl b e ls excl no_move db)"
    "settled d (RunManualCompaction_woken m db)" "settled d (CancelAllBackgroundWork db)"
proof -
  show "settled d (RunManualCompaction_add m cf inl outl b e ls excl no_move db)"
    using settled_finish(7) [OF assms]
    by (simp add: RunManualCompaction_add_def AddManualCompaction_def settled_def excess_def pools_ok_def
        waiting_def queued_def)
  show "settled d (CancelAllBackgroundWork db)"
    using assms by (simp add: CancelAllBackgroundWork_def settled_def excess_def pools_ok_def
        waiting_def queued_def)
qed (use assms in \<open>simp_all add: PauseBackgroundWork_begin_def PauseBackgroundWork_end_def
      PauseCompactionWork_begin_def PauseCompactionWork_end_def ContinueBackgroundWork_def
      ContinueCompactionWork_def RunManualCompaction_woken_def Let_def settled_finish\<close>)

lemma settled_step:
  assumes "db_step rd db db'" and "settled d db"
  shows "settled d db'"
  using assms(1)
proof cases
  case (flush_begin s cf db1)
  then show ?thesis
    using settled_begin(1) [OF settled_job(1) [OF assms(2) flush_begin(2)] flush_begin(3)]
    by (simp add: start_flush_def)
next
  case (compaction_begin arg pick needs early c db1)
  then show ?thesis
    using settled_begin(2) [OF settled_job(1) [OF assms(2) compaction_begin(2)] compaction_begin(4)]
    by (simp add: start_compaction_def)
next
  case flush_end
  then show ?thesis
    using settled_job(3) [OF assms(2)]
    by (simp add: BackgroundCallFlush_end_def settled_finish)
next
  case (compaction_end made_progress)
  then show ?thesis
    using settled_job(4) [OF assms(2)]
    by (simp add: BackgroundCallCompaction_end_def Let_def settled_finish)
next
  case purge_end
  then show ?thesis
    using settled_job(3) [OF assms(2)] by (simp add: BackgroundCallPurge_end_def)
qed (use assms(2) in \<open>simp_all add: settled_pool settled_job settled_finish settled_refit settled_turn
      settled_purge settled_pauses\<close>)


definition silk_paused :: DBImpl where
  "silk_paused = silk_db\<lparr>bg_compaction_paused := 1\<rparr>"

lemma silk_paused_install:
  "\<exists>wc c. InstallSuperVersionAndScheduleWork id 0 silk_facts silk_paused
     = MaybeScheduleFlushOrCompaction (silk_paused\<lparr>unscheduled_flushes := 1, unscheduled_compactions := 1,
         flush_queue := [0], compaction_queue := [0], write_controller := wc, cfds := c\<rparr>)
     \<and> facts (c 0) = silk_facts"
proof -
  obtain wc st x where r: "RecalculateWriteStallConditions id silk_options (new_WriteController 100000)
      (new_stall_cf\<lparr>NumNotFlushed := 1, l0_delay_trigger_count := 5,
         estimated_compaction_needed_bytes := 0\<rparr>) = (wc, st, x)"
    by (metis prod_cases3)
  have "\<exists>c. SchedulePendingCompaction 0 (SchedulePendingFlush 0 (InstallSuperVersion id 0 silk_facts silk_paused))
      = silk_paused\<lparr>unscheduled_flushes := 1, unscheduled_compactions := 1,
         flush_queue := [0], compaction_queue := [0], write_controller := wc, cfds := c\<rparr>
      \<and> facts (c 0) = silk_facts"
    by (rule exI [of _ "(\<lambda>_. silk_cf)(0 := silk_cf\<lparr>refs := 3, pending_flush := True, pending_compaction := True, stall := st\<rparr>)"])
      (use r in \<open>simp add: InstallSuperVersion_def Let_def SchedulePendingFlush_def SchedulePendingCompaction_def
        AddToFlushQueue_def AddToCompactionQueue_def Ref_def update_cfd_def silk_paused_def silk_db_def
        silk_cf_def silk_facts_def\<close>)
  then show ?thesis
    unfolding InstallSuperVersionAndScheduleWork_def by metis
qed


end
