(* ===== verification/Random_Gen.thy ===== *)
theory Random_Gen
  imports Prelude
begin

text \<open>
  The linear congruential generator \<open>Random\<close> of util/random.h, which the rate limiter asks which
  queue to serve first and the memtable's skip list asks for the height of a new node.
\<close>

unbundle bit_operations_syntax

section \<open>Generator\<close>

definition Random_M :: u32 where
  "Random_M = 2147483647"

definition Random_A :: u64 where
  "Random_A = 16807"

definition GoodSeed :: "u32 \<Rightarrow> u32" where
  "GoodSeed s = (if s AND Random_M \<noteq> 0 then s AND Random_M else 1)"

text \<open>Each draw returns the new \<open>seed\<close>.\<close>

definition Random_Next :: "u32 \<Rightarrow> u32" where
  "Random_Next seed =
     (let product = (ucast seed :: u64) * Random_A;
          seed = (ucast (drop_bit 31 product + (product AND ucast Random_M)) :: u32)
      in if Random_M < seed then seed - Random_M else seed)"

definition Random_Uniform :: "nat \<Rightarrow> u32 \<Rightarrow> u32 \<times> u32" where
  "Random_Uniform n seed = (let seed = Random_Next seed in (seed mod word_of_nat n, seed))"

definition Random_OneIn :: "nat \<Rightarrow> u32 \<Rightarrow> bool \<times> u32" where
  "Random_OneIn n seed = (let seed = Random_Next seed in (seed mod word_of_nat n = 0, seed))"

definition Random_Skewed :: "nat \<Rightarrow> u32 \<Rightarrow> u32 \<times> u32" where
  "Random_Skewed max_log seed =
     (case Random_Uniform (max_log + 1) seed of (base, seed) \<Rightarrow>
        Random_Uniform (2 ^ unat base) seed)"

section \<open>The reduction computes the remainder modulo the Mersenne prime\<close>

definition seed_ok :: "u32 \<Rightarrow> bool" where
  "seed_ok s \<longleftrightarrow> s \<noteq> 0 \<and> s < Random_M"

lemma mersenne_step: "(p :: nat) mod (2 ^ 31 - 1) = (p div 2 ^ 31 + p mod 2 ^ 31) mod (2 ^ 31 - 1)"
proof -
  have "p mod (2 ^ 31 - 1) = (p div 2 ^ 31 * 2 ^ 31 + p mod 2 ^ 31) mod (2 ^ 31 - 1)"
    by simp
  also have "\<dots> = ((p div 2 ^ 31 * (2 ^ 31 mod (2 ^ 31 - 1))) + p mod 2 ^ 31) mod (2 ^ 31 - 1)"
    by (metis mod_add_left_eq mod_mult_right_eq)
  finally show ?thesis
    by simp
qed

lemma unat_Random_sum:
  assumes "unat s < 2 ^ 31"
  defines "p \<equiv> unat s * 16807"
  shows "unat (ucast (drop_bit 31 ((ucast s :: u64) * Random_A) +
           ((ucast s * Random_A) AND ucast Random_M)) :: u32) = p div 2 ^ 31 + p mod 2 ^ 31"
proof -
  have p: "p < 2 ^ 46"
    using assms by simp
  have prod: "unat ((ucast s :: u64) * Random_A) = p"
    using p by (simp add: p_def Random_A_def unat_word_ariths unat_ucast_mod)
  have mask: "(ucast Random_M :: u64) = mask 31"
    by (simp add: Random_M_def mask_eq_exp_minus_1)
  have lo: "unat (((ucast s :: u64) * Random_A) AND ucast Random_M) = p mod 2 ^ 31"
    by (simp only: mask unat_take_bit prod flip: take_bit_eq_mask)
  have hi: "unat (drop_bit 31 ((ucast s :: u64) * Random_A)) = p div 2 ^ 31"
    by (simp only: unat_drop_bit prod)
  have small: "p div 2 ^ 31 + p mod 2 ^ 31 < 2 ^ 32"
    using p by (simp add: less_mult_imp_div_less)
  then have "unat (drop_bit 31 ((ucast s :: u64) * Random_A) +
      ((ucast s * Random_A) AND ucast Random_M)) = p div 2 ^ 31 + p mod 2 ^ 31"
    by (simp only: unat_word_ariths lo hi) simp
  with small show ?thesis
    by (simp only: unat_ucast_mod) simp
qed

lemma Random_Next_eq:
  assumes "unat s < 2 ^ 31"
  defines "q \<equiv> unat s * 16807 div 2 ^ 31 + unat s * 16807 mod 2 ^ 31"
  shows "unat (Random_Next s) = (if 2 ^ 31 - 1 < q then q - (2 ^ 31 - 1) else q)"
  using unat_Random_sum [OF assms(1)]
  by (simp add: Random_Next_def Let_def word_less_nat_alt unat_sub_if' q_def)
    (simp add: Random_M_def)

lemma coprime_multiplier: "coprime (2 ^ 31 - 1 :: nat) 16807"
  by (simp add: coprime_iff_gcd_eq_1 gcd_non_0_nat)

text \<open>
  For every proper seed, one step of the generator, computed with one shift, one mask and at
  most one subtraction on machine words, returns the remainder of 16807 times the seed modulo
  2147483647, which is again a proper seed.
\<close>
theorem Random_Next_correct:
  assumes "seed_ok s"
  shows "unat (Random_Next s) = unat s * 16807 mod 2147483647 \<and> seed_ok (Random_Next s)"
proof -
  define p where "p = unat s * 16807"
  define q where "q = p div 2 ^ 31 + p mod 2 ^ 31"
  have s: "0 < unat s" "unat s < 2 ^ 31 - 1"
    using assms by (auto simp: seed_ok_def Random_M_def word_less_nat_alt unat_gt_0)
  then have q: "q < 2 * (2 ^ 31 - 1)"
    using s by (simp add: q_def p_def less_mult_imp_div_less)
  have "\<not> (2 ^ 31 - 1) dvd p"
    using s coprime_dvd_mult_left_iff [OF coprime_multiplier] by (auto simp: p_def dest: dvd_imp_le)
  then have nz: "p mod (2 ^ 31 - 1) \<noteq> 0"
    by (simp add: dvd_eq_mod_eq_0)
  have step: "p mod (2 ^ 31 - 1) = q mod (2 ^ 31 - 1)"
    unfolding q_def by (rule mersenne_step)
  have "unat (Random_Next s) = (if 2 ^ 31 - 1 < q then q - (2 ^ 31 - 1) else q)"
    using Random_Next_eq [of s] s by (simp add: q_def p_def)
  also have "\<dots> = q mod (2 ^ 31 - 1)"
    using q nz step by (cases "q = 2 ^ 31 - 1") (auto simp: mod_if)
  finally have eq: "unat (Random_Next s) = p mod (2 ^ 31 - 1)"
    using step by simp
  moreover have "seed_ok (Random_Next s)"
    using eq nz by (auto simp: seed_ok_def Random_M_def word_less_nat_alt simp flip: unat_eq_0)
  ultimately show ?thesis
    by (simp add: p_def)
qed

theorem Random_Next_correct_witness:
  "unat (Random_Next 301) = unat (301 :: u32) * 16807 mod 2147483647 \<and> seed_ok (Random_Next 301)"
  by (rule Random_Next_correct) (simp add: seed_ok_def Random_M_def)

text \<open>
  \<open>GoodSeed\<close> maps every seed to a proper one except those whose low 31 bits are all set;
  such a seed is a fixed point of the generator, which then returns the same number for ever.
\<close>
theorem GoodSeed_stuck:
  "(seed_ok (GoodSeed s) \<longleftrightarrow> s AND Random_M \<noteq> Random_M)
   \<and> (s AND Random_M = Random_M \<longrightarrow> (Random_Next ^^ n) (GoodSeed s) = Random_M)"
proof -
  have "s AND Random_M \<le> Random_M"
    by (rule word_and_le1)
  then have ok: "seed_ok (GoodSeed s) \<longleftrightarrow> s AND Random_M \<noteq> Random_M"
    by (auto simp: seed_ok_def GoodSeed_def Random_M_def)
  have fixed: "Random_Next Random_M = Random_M"
    by (simp add: Random_Next_def Random_M_def Random_A_def Let_def)
  have "(Random_Next ^^ n) Random_M = Random_M"
    by (induction n) (simp_all add: fixed)
  with ok show ?thesis
    by (simp add: GoodSeed_def Random_M_def)
qed

theorem GoodSeed_stuck_witness:
  "(seed_ok (GoodSeed 2147483647) \<longleftrightarrow> 2147483647 AND Random_M \<noteq> Random_M)
   \<and> (Random_Next ^^ 3) (GoodSeed 2147483647) = Random_M"
  using GoodSeed_stuck [of 2147483647 3] by (simp add: Random_M_def)

end
