(* ===== verification/Rate_Limiter.thy ===== *)
theory Rate_Limiter
  imports Prelude Random_Gen
begin

text \<open>
  The token-bucket rate limiter of util/rate_limiter.{h,cc}, through which SILK steers the I/O
  bandwidth of flushes and compactions.  Every function runs under \<open>request_mutex_\<close>, so the
  model is a state and one atomic step per critical section: \<open>Request\<close>, which waits on condition
  variables, is split at its waits.  Signed 64-bit quantities are \<open>int\<close>; the one product that can
  overflow is guarded in the source and the guard is shown to suffice.  A division by zero is
  \<open>None\<close>.  The clock is an argument of every step that reads it.
\<close>

unbundle bit_operations_syntax

section \<open>State\<close>

datatype IOPriority = IO_LOW | IO_HIGH

datatype OpType = kRead | kWrite

datatype RateLimiterMode = kReadsOnly | kWritesOnly | kAllIo

record Req =
  req_id :: nat
  request_bytes :: int
  bytes :: int

text \<open>
  A \<open>Req\<close> lives on the stack of the requesting thread and is known by an identifier.
  \<open>granted\<close> and \<open>signalled\<close> collect the requests whose \<open>granted\<close> flag is set and whose condition
  variable has been signalled.
\<close>

record GenericRateLimiter =
  refill_period_us :: int
  rate_bytes_per_sec :: int
  refill_bytes_per_period :: int
  rl_stop :: bool
  requests_to_wait :: int
  total_requests :: "IOPriority \<Rightarrow> int"
  total_bytes_through :: "IOPriority \<Rightarrow> int"
  available_bytes :: int
  next_refill_us :: int
  fairness :: int
  rnd :: u32
  leader :: "nat option"
  rl_queue :: "IOPriority \<Rightarrow> Req list"
  auto_tuned :: bool
  num_drains :: int
  prev_num_drains :: int
  max_bytes_per_sec :: int
  tuned_time :: int
  granted :: "nat list"
  signalled :: "nat list"

definition kMaxInt64 :: int where
  "kMaxInt64 = 2 ^ 63 - 1"

definition kMinRefillBytesPerPeriod :: int where
  "kMinRefillBytesPerPeriod = 100"

section \<open>Operations\<close>

definition CalculateRefillBytesPerPeriod :: "int \<Rightarrow> int \<Rightarrow> int option" where
  "CalculateRefillBytesPerPeriod period rate =
     (if rate = 0 then None
      else if kMaxInt64 div rate < period then Some (kMaxInt64 div 1000000)
      else Some (max kMinRefillBytesPerPeriod (rate * period div 1000000)))"

definition new_GenericRateLimiter ::
    "int \<Rightarrow> int \<Rightarrow> int \<Rightarrow> bool \<Rightarrow> int \<Rightarrow> u32 \<Rightarrow> GenericRateLimiter option" where
  "new_GenericRateLimiter rate period fair tuned now time_seed =
     (let rate' = (if tuned then rate div 2 else rate)
      in case CalculateRefillBytesPerPeriod period rate' of
           None \<Rightarrow> None
         | Some refill \<Rightarrow>
             Some \<lparr>refill_period_us = period, rate_bytes_per_sec = rate',
                   refill_bytes_per_period = refill, rl_stop = False, requests_to_wait = 0,
                   total_requests = (\<lambda>_. 0), total_bytes_through = (\<lambda>_. 0),
                   available_bytes = 0, next_refill_us = now,
                   fairness = (if 100 < fair then 100 else fair), rnd = GoodSeed time_seed,
                   leader = None, rl_queue = (\<lambda>_. []), auto_tuned = tuned, num_drains = 0,
                   prev_num_drains = 0, max_bytes_per_sec = rate, tuned_time = now,
                   granted = [], signalled = []\<rparr>)"

definition SetBytesPerSecond :: "int \<Rightarrow> GenericRateLimiter \<Rightarrow> GenericRateLimiter option" where
  "SetBytesPerSecond bytes_per_second s =
     (case CalculateRefillBytesPerPeriod (refill_period_us s) bytes_per_second of
        None \<Rightarrow> None
      | Some refill \<Rightarrow>
          Some (s\<lparr>rate_bytes_per_sec := bytes_per_second, refill_bytes_per_period := refill\<rparr>))"

definition GetTotalBytesThrough :: "IOPriority option \<Rightarrow> GenericRateLimiter \<Rightarrow> int" where
  "GetTotalBytesThrough pri s =
     (case pri of
        None \<Rightarrow> total_bytes_through s IO_LOW + total_bytes_through s IO_HIGH
      | Some p \<Rightarrow> total_bytes_through s p)"

definition GetTotalRequests :: "IOPriority option \<Rightarrow> GenericRateLimiter \<Rightarrow> int" where
  "GetTotalRequests pri s =
     (case pri of
        None \<Rightarrow> total_requests s IO_LOW + total_requests s IO_HIGH
      | Some p \<Rightarrow> total_requests s p)"

text \<open>The rate \<open>Tune\<close> computes from the percentage of drained intervals and the current rate.\<close>

definition Tune_rate :: "int \<Rightarrow> int \<Rightarrow> int \<Rightarrow> int" where
  "Tune_rate max_rate drained_pct prev_bytes_per_sec =
     (if drained_pct = 0 then max_rate div 20
      else if drained_pct < 50 then
        max (max_rate div 20) (min prev_bytes_per_sec (kMaxInt64 div 100) * 100 div 105)
      else if 90 < drained_pct then
        min max_rate (min prev_bytes_per_sec (kMaxInt64 div 105) * 105 div 100)
      else prev_bytes_per_sec)"

definition Tune :: "int \<Rightarrow> GenericRateLimiter \<Rightarrow> GenericRateLimiter option" where
  "Tune now s =
     (let prev_tuned_time = tuned_time s;
          s = s\<lparr>tuned_time := now\<rparr>;
          elapsed_intervals = (now - prev_tuned_time + refill_period_us s - 1) div refill_period_us s;
          drained_pct = (num_drains s - prev_num_drains s) * 100 div elapsed_intervals;
          prev_bytes_per_sec = rate_bytes_per_sec s;
          new_bytes_per_sec = Tune_rate (max_bytes_per_sec s) drained_pct prev_bytes_per_sec
      in case (if new_bytes_per_sec \<noteq> prev_bytes_per_sec then SetBytesPerSecond new_bytes_per_sec s
               else Some s) of
           None \<Rightarrow> None
         | Some s \<Rightarrow> Some (s\<lparr>num_drains := prev_num_drains s\<rparr>))"

text \<open>
  \<open>Refill\<close> serves one queue with the inner \<open>while\<close> loop; the result carries the bytes still
  available, the bytes sent through, the remaining queue and the requests granted.
\<close>

fun Refill_queue :: "Req list \<Rightarrow> int \<Rightarrow> int \<times> int \<times> Req list \<times> nat list" where
  "Refill_queue [] avail = (avail, 0, [], [])"
| "Refill_queue (next_req # queue) avail =
     (if avail < request_bytes next_req
      then (0, 0, next_req\<lparr>request_bytes := request_bytes next_req - avail\<rparr> # queue, [])
      else
        (case Refill_queue queue (avail - request_bytes next_req) of
           (avail', through, queue', ids) \<Rightarrow>
             (avail', bytes next_req + through, queue', req_id next_req # ids)))"

definition Refill_serve :: "IOPriority \<Rightarrow> GenericRateLimiter \<Rightarrow> GenericRateLimiter" where
  "Refill_serve use_pri s =
     (case Refill_queue (rl_queue s use_pri) (available_bytes s) of
        (avail, through, queue, ids) \<Rightarrow>
          s\<lparr>available_bytes := avail,
            total_bytes_through :=
              (total_bytes_through s)(use_pri := total_bytes_through s use_pri + through),
            rl_queue := (rl_queue s)(use_pri := queue),
            granted := granted s @ ids,
            signalled := signalled s @ filter (\<lambda>i. Some i \<noteq> leader s) ids\<rparr>)"

definition Refill :: "int \<Rightarrow> GenericRateLimiter \<Rightarrow> GenericRateLimiter" where
  "Refill now s =
     (let s = s\<lparr>next_refill_us := now + refill_period_us s\<rparr>;
          s = (if available_bytes s < refill_bytes_per_period s
               then s\<lparr>available_bytes := available_bytes s + refill_bytes_per_period s\<rparr> else s);
          (one_in, seed) = Random_OneIn (nat (fairness s)) (rnd s);
          s = s\<lparr>rnd := seed\<rparr>
      in if one_in then Refill_serve IO_HIGH (Refill_serve IO_LOW s)
         else Refill_serve IO_LOW (Refill_serve IO_HIGH s))"

text \<open>\<open>Request\<close> up to the wait loop: \<open>True\<close> when the call returns at once.\<close>

definition Request_enter ::
    "int \<Rightarrow> int \<Rightarrow> nat \<Rightarrow> int \<Rightarrow> IOPriority \<Rightarrow> GenericRateLimiter
     \<Rightarrow> (bool \<times> GenericRateLimiter) option" where
  "Request_enter now now_tune r n pri s =
     (case (if auto_tuned s \<and> 100 * refill_period_us s \<le> now - tuned_time s
            then Tune now_tune s else Some s) of
        None \<Rightarrow> None
      | Some s \<Rightarrow>
          if rl_stop s then Some (True, s)
          else
            (let s = s\<lparr>total_requests := (total_requests s)(pri := total_requests s pri + 1)\<rparr>
             in if n \<le> available_bytes s
                then Some (True,
                  s\<lparr>available_bytes := available_bytes s - n,
                    total_bytes_through :=
                      (total_bytes_through s)(pri := total_bytes_through s pri + n)\<rparr>)
                else Some (False,
                  s\<lparr>rl_queue := (rl_queue s)(pri := rl_queue s pri @
                      [\<lparr>req_id = r, request_bytes = n, bytes = n\<rparr>])\<rparr>)))"

definition at_front :: "nat \<Rightarrow> GenericRateLimiter \<Rightarrow> bool" where
  "at_front r s \<longleftrightarrow>
     rl_queue s IO_HIGH \<noteq> [] \<and> r = req_id (hd (rl_queue s IO_HIGH))
     \<or> rl_queue s IO_LOW \<noteq> [] \<and> r = req_id (hd (rl_queue s IO_LOW))"

datatype wait_kind = NoWait | TimedWait int | CvWait

text \<open>The head of the wait loop: leader election, and how the thread waits.\<close>

definition Request_elect :: "int \<Rightarrow> int \<Rightarrow> nat \<Rightarrow> GenericRateLimiter \<Rightarrow> wait_kind \<times> GenericRateLimiter" where
  "Request_elect now now_us r s =
     (if leader s = None \<and> at_front r s then
        (let s = s\<lparr>leader := Some r\<rparr>;
             delta = next_refill_us s - now;
             delta = (if 0 < delta then delta else 0)
         in if delta = 0 then (NoWait, s)
            else (TimedWait (now_us + delta), s\<lparr>num_drains := num_drains s + 1\<rparr>))
      else (CvWait, s))"

definition signal_head :: "GenericRateLimiter \<Rightarrow> GenericRateLimiter" where
  "signal_head s =
     (if rl_queue s IO_HIGH \<noteq> [] then s\<lparr>signalled := signalled s @ [req_id (hd (rl_queue s IO_HIGH))]\<rparr>
      else if rl_queue s IO_LOW \<noteq> [] then
        s\<lparr>signalled := signalled s @ [req_id (hd (rl_queue s IO_LOW))]\<rparr>
      else s)"

text \<open>The rest of the loop body after the wait: \<open>True\<close> when the call returns.\<close>

definition Request_wake :: "int \<Rightarrow> nat \<Rightarrow> bool \<Rightarrow> GenericRateLimiter \<Rightarrow> bool \<times> GenericRateLimiter" where
  "Request_wake now r timedout s =
     (if rl_stop s then (True, s\<lparr>requests_to_wait := requests_to_wait s - 1\<rparr>)
      else if leader s = Some r then
        (if timedout then
           (let s = (Refill now s)\<lparr>leader := None\<rparr>
            in if r \<in> set (granted s) then (True, signal_head s) else (False, s))
         else (r \<in> set (granted s), s\<lparr>leader := None\<rparr>))
      else (r \<in> set (granted s), s))"

text \<open>The destructor up to its wait for the blocked requests.\<close>

definition destroy_begin :: "GenericRateLimiter \<Rightarrow> GenericRateLimiter" where
  "destroy_begin s =
     s\<lparr>rl_stop := True,
       requests_to_wait := int (length (rl_queue s IO_LOW) + length (rl_queue s IO_HIGH)),
       signalled := signalled s @ map req_id (rl_queue s IO_HIGH) @ map req_id (rl_queue s IO_LOW)\<rparr>"

section \<open>Request tokens\<close>

fun IsRateLimited :: "RateLimiterMode \<Rightarrow> OpType \<Rightarrow> bool" where
  "IsRateLimited kWritesOnly kRead = False"
| "IsRateLimited kReadsOnly kWrite = False"
| "IsRateLimited _ _ = True"

definition TruncateToPageBoundary :: "u64 \<Rightarrow> u64 \<Rightarrow> u64" where
  "TruncateToPageBoundary page_size s = s - (s AND (page_size - 1))"

text \<open>
  The number of bytes \<open>RequestToken\<close> returns; \<open>Some\<close> also says that it has been asked of
  \<open>Request\<close>.  A missing priority is \<open>IO_TOTAL\<close>.
\<close>

definition RequestToken ::
    "u64 \<Rightarrow> u64 \<Rightarrow> IOPriority option \<Rightarrow> RateLimiterMode \<Rightarrow> OpType \<Rightarrow> GenericRateLimiter
     \<Rightarrow> u64 \<times> u64 option" where
  "RequestToken n alignment io_priority mode op_type s =
     (if io_priority \<noteq> None \<and> IsRateLimited mode op_type then
        (let n = min n (word_of_int (refill_bytes_per_period s));
             n = (if 0 < alignment then max alignment (TruncateToPageBoundary alignment n) else n)
         in (n, Some n))
      else (n, None))"

section \<open>Refills conserve bytes\<close>

definition req_ok :: "Req \<Rightarrow> bool" where
  "req_ok q \<longleftrightarrow> 0 \<le> request_bytes q \<and> request_bytes q \<le> bytes q"

text \<open>Bytes a queue has been credited with but that have not gone through yet.\<close>

definition credit :: "Req list \<Rightarrow> int" where
  "credit qs = (\<Sum>q\<leftarrow>qs. bytes q - request_bytes q)"

lemma credit_simps [simp]:
  "credit [] = 0"
  "credit (q # qs) = bytes q - request_bytes q + credit qs"
  "credit (qs @ rs) = credit qs + credit rs"
  by (simp_all add: credit_def)

lemma credit_nonneg: "list_all req_ok qs \<Longrightarrow> 0 \<le> credit qs"
  by (induction qs) (auto simp: req_ok_def)

lemma Refill_queue_spec:
  assumes "list_all req_ok qs" and "0 \<le> avail" and "Refill_queue qs avail = (avail', through, qs', ids)"
  shows "0 \<le> avail' \<and> 0 \<le> through \<and> list_all req_ok qs'
    \<and> through + credit qs' + avail' = credit qs + avail
    \<and> (qs' = [] \<or> avail' = 0)
    \<and> map req_id qs = ids @ map req_id qs'"
  using assms
proof (induction qs arbitrary: avail through ids)
  case (Cons q qs)
  show ?case
  proof (cases "avail < request_bytes q")
    case False
    obtain a t r i where rec: "Refill_queue qs (avail - request_bytes q) = (a, t, r, i)"
      by (metis prod_cases4)
    with Cons.prems False have eqs: "avail' = a" "through = bytes q + t" "qs' = r" "ids = req_id q # i"
      by simp_all
    have "list_all req_ok qs" "0 \<le> avail - request_bytes q"
      using Cons.prems False by simp_all
    from Cons.IH [OF this, of t i] rec Cons.prems(1) show ?thesis
      by (simp add: eqs req_ok_def)
  qed (use Cons.prems in \<open>auto simp: req_ok_def\<close>)
qed simp

text \<open>All bytes the limiter has accounted for.\<close>

definition accounted :: "GenericRateLimiter \<Rightarrow> int" where
  "accounted s = total_bytes_through s IO_LOW + total_bytes_through s IO_HIGH
     + credit (rl_queue s IO_LOW) + credit (rl_queue s IO_HIGH) + available_bytes s"

definition rl_inv :: "GenericRateLimiter \<Rightarrow> bool" where
  "rl_inv s \<longleftrightarrow> 0 < refill_period_us s \<and> 0 < refill_bytes_per_period s \<and> 0 \<le> available_bytes s
     \<and> list_all req_ok (rl_queue s IO_LOW) \<and> list_all req_ok (rl_queue s IO_HIGH)"

lemma Refill_serve_spec:
  assumes "rl_inv s"
  shows "rl_inv (Refill_serve pri s)"
    and "accounted (Refill_serve pri s) = accounted s"
    and "rl_queue (Refill_serve pri s) pri = [] \<or> available_bytes (Refill_serve pri s) = 0"
proof -
  obtain avail' through qs' ids
    where r: "Refill_queue (rl_queue s pri) (available_bytes s) = (avail', through, qs', ids)"
    by (metis prod_cases4)
  with assms have "list_all req_ok (rl_queue s pri)" "0 \<le> available_bytes s"
    by (cases pri; simp add: rl_inv_def)+
  from Refill_queue_spec [OF this r]
  show "rl_inv (Refill_serve pri s)" "accounted (Refill_serve pri s) = accounted s"
    "rl_queue (Refill_serve pri s) pri = [] \<or> available_bytes (Refill_serve pri s) = 0"
    using assms r by (cases pri; auto simp: Refill_serve_def rl_inv_def accounted_def)+
qed

lemma Refill_serve_sel [simp]:
  "refill_period_us (Refill_serve pri s) = refill_period_us s"
  "refill_bytes_per_period (Refill_serve pri s) = refill_bytes_per_period s"
  "next_refill_us (Refill_serve pri s) = next_refill_us s"
  "pri' \<noteq> pri \<Longrightarrow> rl_queue (Refill_serve pri s) pri' = rl_queue s pri'"
  by (simp_all add: Refill_serve_def split: prod.split)

lemma Refill_serve_empty:
  assumes "rl_inv s" and "available_bytes s = 0"
  shows "available_bytes (Refill_serve pri s) = 0"
proof -
  obtain avail' through qs' ids
    where r: "Refill_queue (rl_queue s pri) (available_bytes s) = (avail', through, qs', ids)"
    by (metis prod_cases4)
  have "list_all req_ok qs \<Longrightarrow> fst (Refill_queue qs 0) = 0" for qs
    by (induction qs) (auto simp: req_ok_def split: prod.splits)
  moreover have "list_all req_ok (rl_queue s pri)"
    using assms by (cases pri; simp add: rl_inv_def)
  ultimately show ?thesis
    using r assms by (simp add: Refill_serve_def) (metis fst_conv)
qed

lemma Refill_serve_granted:
  assumes "rl_inv s"
  shows "\<exists>ids. map req_id (rl_queue s pri) = ids @ map req_id (rl_queue (Refill_serve pri s) pri)
           \<and> granted (Refill_serve pri s) = granted s @ ids"
proof -
  obtain avail' through qs' ids
    where r: "Refill_queue (rl_queue s pri) (available_bytes s) = (avail', through, qs', ids)"
    by (metis prod_cases4)
  with assms have "list_all req_ok (rl_queue s pri)" "0 \<le> available_bytes s"
    by (cases pri; simp add: rl_inv_def)+
  from Refill_queue_spec [OF this r] r show ?thesis
    by (simp add: Refill_serve_def)
qed

text \<open>A refill adds the bytes of a period and serves both queues, in one order or the other.\<close>

lemma RefillE:
  assumes "rl_inv s"
  obtains p q s1 where "p \<noteq> q" and "Refill now s = Refill_serve q (Refill_serve p s1)"
    and "rl_inv s1" and "rl_queue s1 = rl_queue s"
    and "accounted s1 = accounted s
       + (if available_bytes s < refill_bytes_per_period s then refill_bytes_per_period s else 0)"
    and "next_refill_us s1 = now + refill_period_us s" and "refill_period_us s1 = refill_period_us s"
    and "refill_bytes_per_period s1 = refill_bytes_per_period s"
proof -
  define s1 where "s1 = (let s = s\<lparr>next_refill_us := now + refill_period_us s\<rparr>;
      s = (if available_bytes s < refill_bytes_per_period s
           then s\<lparr>available_bytes := available_bytes s + refill_bytes_per_period s\<rparr> else s)
      in s\<lparr>rnd := snd (Random_OneIn (nat (fairness s)) (rnd s))\<rparr>)"
  have "Refill now s = (if fst (Random_OneIn (nat (fairness s)) (rnd s))
      then Refill_serve IO_HIGH (Refill_serve IO_LOW s1) else Refill_serve IO_LOW (Refill_serve IO_HIGH s1))"
    by (simp add: Refill_def s1_def Let_def case_prod_beta)
  moreover have "IO_LOW \<noteq> IO_HIGH" "IO_HIGH \<noteq> IO_LOW"
    by simp_all
  ultimately obtain p q where "p \<noteq> q" "Refill now s = Refill_serve q (Refill_serve p s1)"
    by metis
  moreover have "rl_inv s1" "rl_queue s1 = rl_queue s"
    using assms by (simp_all add: s1_def rl_inv_def Let_def)
  moreover have "accounted s1 = accounted s
       + (if available_bytes s < refill_bytes_per_period s then refill_bytes_per_period s else 0)"
    by (simp add: s1_def accounted_def Let_def)
  moreover have "next_refill_us s1 = now + refill_period_us s" "refill_period_us s1 = refill_period_us s"
    "refill_bytes_per_period s1 = refill_bytes_per_period s"
    by (simp_all add: s1_def Let_def)
  ultimately show ?thesis
    by (rule that)
qed

lemma Refill_spec:
  assumes "rl_inv s"
  shows "rl_inv (Refill now s)"
    and "accounted (Refill now s) = accounted s
      + (if available_bytes s < refill_bytes_per_period s then refill_bytes_per_period s else 0)"
    and "rl_queue (Refill now s) pri = [] \<or> available_bytes (Refill now s) = 0"
    and "next_refill_us (Refill now s) = now + refill_period_us s"
    and "refill_period_us (Refill now s) = refill_period_us s"
    and "refill_bytes_per_period (Refill now s) = refill_bytes_per_period s"
    and "\<exists>ids. map req_id (rl_queue s pri) = ids @ map req_id (rl_queue (Refill now s) pri)
           \<and> set ids \<subseteq> set (granted (Refill now s))"
proof (atomize (full), rule RefillE [OF assms, of now], goal_cases)
  case (1 p q s1)
  note inv1 = Refill_serve_spec(1) [OF 1(3), of p]
  note both = Refill_serve_spec [OF inv1, of q] Refill_serve_spec [OF 1(3), of p]
    Refill_serve_empty [OF inv1, of q]
  from Refill_serve_granted [OF inv1, of q] obtain ids where ids:
    "map req_id (rl_queue (Refill_serve p s1) q) = ids @ map req_id (rl_queue (Refill now s) q)"
    "granted (Refill now s) = granted (Refill_serve p s1) @ ids"
    by (auto simp: 1(2))
  from Refill_serve_granted [OF 1(3), of p] obtain ids' where ids':
    "map req_id (rl_queue s1 p) = ids' @ map req_id (rl_queue (Refill_serve p s1) p)"
    "granted (Refill_serve p s1) = granted s1 @ ids'"
    by auto
  have "pri = p \<or> pri = q"
    using 1(1) by (cases pri; cases p; cases q) auto
  then show ?case
    using 1 both ids ids' by auto
qed

section \<open>Runs\<close>

text \<open>
  The atomic steps of a run, each with the time it reads: a call of \<open>Request\<close>, an election, a
  wake-up, a change of the rate.
\<close>

datatype rl_event =
    Enter int int nat int IOPriority
  | Elect int int nat
  | Wake int nat bool
  | SetRate int int

fun rl_time :: "rl_event \<Rightarrow> int" where
  "rl_time (Enter now _ _ _ _) = now"
| "rl_time (Elect now _ _) = now"
| "rl_time (Wake now _ _) = now"
| "rl_time (SetRate now _) = now"

fun rl_step :: "rl_event \<Rightarrow> GenericRateLimiter \<Rightarrow> GenericRateLimiter option" where
  "rl_step (Enter now now_tune r n pri) s = map_option snd (Request_enter now now_tune r n pri s)"
| "rl_step (Elect now now_us r) s = Some (snd (Request_elect now now_us r s))"
| "rl_step (Wake now r timedout) s = Some (snd (Request_wake now r timedout s))"
| "rl_step (SetRate _ rate) s = SetBytesPerSecond rate s"

text \<open>
  What the callers and the clock guarantee: requests are not negative, and a leader whose timed
  wait has expired, or that did not have to wait, wakes no earlier than the time of the refill.
\<close>

fun rl_ok :: "rl_event \<Rightarrow> GenericRateLimiter \<Rightarrow> bool" where
  "rl_ok (Enter _ _ _ n _) s \<longleftrightarrow> 0 \<le> n"
| "rl_ok (Wake now r timedout) s \<longleftrightarrow> (timedout \<and> leader s = Some r \<longrightarrow> next_refill_us s \<le> now)"
| "rl_ok _ s \<longleftrightarrow> True"

text \<open>
  A run from time \<open>t\<close>; it fails if time runs backwards, a guarantee is broken, a step divides by
  zero, or the refill exceeds \<open>R\<close> bytes per period at some moment.  The result carries the time of
  the last step.
\<close>

fun rl_run :: "int \<Rightarrow> int \<Rightarrow> rl_event list \<Rightarrow> GenericRateLimiter \<Rightarrow> (int \<times> GenericRateLimiter) option" where
  "rl_run R t [] s = (if refill_bytes_per_period s \<le> R then Some (t, s) else None)"
| "rl_run R t (e # es) s =
     (if refill_bytes_per_period s \<le> R \<and> t \<le> rl_time e \<and> rl_ok e s then
        (case rl_step e s of None \<Rightarrow> None | Some s' \<Rightarrow> rl_run R (rl_time e) es s')
      else None)"

definition paced :: "int \<Rightarrow> int \<Rightarrow> int \<Rightarrow> int \<Rightarrow> GenericRateLimiter \<Rightarrow> bool" where
  "paced P R t0 t s \<longleftrightarrow> rl_inv s \<and> refill_period_us s = P \<and> next_refill_us s \<le> t + P
     \<and> accounted s * P \<le> R * (next_refill_us s - t0)"

lemma CalculateRefill_pos:
  "CalculateRefillBytesPerPeriod period rate = Some n \<Longrightarrow> 0 < n"
  by (auto simp: CalculateRefillBytesPerPeriod_def kMinRefillBytesPerPeriod_def kMaxInt64_def
      split: if_splits)

lemma SetBytesPerSecond_paced:
  assumes "paced P R t0 t s" and "SetBytesPerSecond rate s = Some s'"
  shows "paced P R t0 t s'"
  using assms CalculateRefill_pos
  by (auto simp: SetBytesPerSecond_def paced_def rl_inv_def accounted_def split: option.splits)

lemma paced_frame [simp]:
  "paced P R t0 t (s\<lparr>tuned_time := a\<rparr>) = paced P R t0 t s"
  "paced P R t0 t (s\<lparr>num_drains := b\<rparr>) = paced P R t0 t s"
  "paced P R t0 t (s\<lparr>leader := l\<rparr>) = paced P R t0 t s"
  "paced P R t0 t (s\<lparr>signalled := g\<rparr>) = paced P R t0 t s"
  "paced P R t0 t (s\<lparr>requests_to_wait := w\<rparr>) = paced P R t0 t s"
  "paced P R t0 t (s\<lparr>total_requests := c\<rparr>) = paced P R t0 t s"
  by (simp_all add: paced_def rl_inv_def accounted_def)

lemma TuneE:
  assumes "Tune now s = Some s'"
  obtains s1 where "s' = s1\<lparr>num_drains := prev_num_drains s1\<rparr>"
    and "s1 = s\<lparr>tuned_time := now\<rparr> \<or> (\<exists>r. SetBytesPerSecond r (s\<lparr>tuned_time := now\<rparr>) = Some s1)"
  using assms that unfolding Tune_def Let_def by (auto split: option.splits if_splits)

lemma Tune_paced:
  assumes "paced P R t0 t s" and "Tune now s = Some s'"
  shows "paced P R t0 t s'"
proof (rule TuneE [OF assms(2)])
  fix s1
  assume "s1 = s\<lparr>tuned_time := now\<rparr> \<or> (\<exists>r. SetBytesPerSecond r (s\<lparr>tuned_time := now\<rparr>) = Some s1)"
  then have "paced P R t0 t s1"
    using assms(1) SetBytesPerSecond_paced [of P R t0 t "s\<lparr>tuned_time := now\<rparr>"] by auto
  then show "s' = s1\<lparr>num_drains := prev_num_drains s1\<rparr> \<Longrightarrow> ?thesis"
    by simp
qed

lemma Request_enter_paced:
  assumes "paced P R t0 t s" and "0 \<le> n" and "Request_enter now now_tune r n pri s = Some (d, s')"
  shows "paced P R t0 t s'"
proof -
  obtain s1 where s1: "(if auto_tuned s \<and> 100 * refill_period_us s \<le> now - tuned_time s
      then Tune now_tune s else Some s) = Some s1"
    using assms(3) by (cases "if auto_tuned s \<and> 100 * refill_period_us s \<le> now - tuned_time s
      then Tune now_tune s else Some s") (simp_all add: Request_enter_def)
  then have paced: "paced P R t0 t s1"
    using assms(1) Tune_paced by (simp split: if_splits)
  have "d \<and> s' = s1 \<or> s' = (let s = s1\<lparr>total_requests := (total_requests s1)(pri := total_requests s1 pri + 1)\<rparr>
             in if n \<le> available_bytes s
                then s\<lparr>available_bytes := available_bytes s - n,
                    total_bytes_through :=
                      (total_bytes_through s)(pri := total_bytes_through s pri + n)\<rparr>
                else s\<lparr>rl_queue := (rl_queue s)(pri := rl_queue s pri @
                      [\<lparr>req_id = r, request_bytes = n, bytes = n\<rparr>])\<rparr>)"
    using assms(3) s1 by (simp add: Request_enter_def Let_def split: if_splits)
  with paced assms(2) show ?thesis
    by (cases pri) (auto simp: Let_def paced_def rl_inv_def accounted_def req_ok_def add.assoc)
qed

lemma signal_head_paced [simp]: "paced P R t0 t (signal_head s) = paced P R t0 t s"
  by (simp add: signal_head_def)

lemma paced_later: "paced P R t0 t s \<Longrightarrow> t \<le> t' \<Longrightarrow> paced P R t0 t' s"
  by (auto simp: paced_def)

lemma Refill_paced:
  assumes "paced P R t0 t s" and "next_refill_us s \<le> now" and "refill_bytes_per_period s \<le> R"
    and "0 < R"
  shows "paced P R t0 now (Refill now s)"
proof -
  have inv: "rl_inv s" and acc: "accounted s * P \<le> R * (next_refill_us s - t0)"
    and p: "0 < P" "refill_period_us s = P"
    using assms(1) by (auto simp: paced_def rl_inv_def)
  have "accounted (Refill now s) \<le> accounted s + R"
    using assms(3,4) by (simp add: Refill_spec(2) [OF inv])
  then have "accounted (Refill now s) * P \<le> (accounted s + R) * P"
    using p by (simp add: mult_right_mono)
  also have "\<dots> \<le> R * (next_refill_us s - t0) + R * P"
    using acc by (simp add: algebra_simps)
  also have "\<dots> \<le> R * (now + P - t0)"
    using assms(2,4) by (simp add: algebra_simps)
  finally show ?thesis
    by (simp add: paced_def Refill_spec [OF inv] p)
qed

lemma rl_step_paced:
  assumes "paced P R t0 t s" and "t \<le> rl_time e" and "rl_ok e s" and "rl_step e s = Some s'"
    and "refill_bytes_per_period s \<le> R" and "0 < R"
  shows "paced P R t0 (rl_time e) s'"
proof (cases e)
  case (Enter now now_tune r n pri)
  then show ?thesis
    using assms(3,4) Request_enter_paced [OF paced_later [OF assms(1,2)]] by auto
next
  case (Elect now now_us r)
  then show ?thesis
    using paced_later [OF assms(1,2)] assms(4)
    by (auto simp: Request_elect_def Let_def split: if_splits)
next
  case (Wake now r timedout)
  have s': "snd (Request_wake now r timedout s) = s'"
    using assms(4) Wake by simp
  note later = paced_later [OF assms(1,2)]
  have "leader s = Some r \<Longrightarrow> timedout \<Longrightarrow> paced P R t0 now (Refill now s)"
    using Refill_paced assms Wake by simp
  then show ?thesis
    using later by (simp add: Wake Request_wake_def Let_def flip: s')
next
  case (SetRate now rate)
  then show ?thesis
    using SetBytesPerSecond_paced [OF paced_later [OF assms(1,2)]] assms(4) by simp
qed

lemma rl_run_paced:
  assumes "paced P R t0 t s" and "0 < R" and "rl_run R t es s = Some (t', s')"
  shows "paced P R t0 t' s'"
  using assms(1,3)
proof (induction es arbitrary: t s)
  case (Cons e es)
  from Cons.prems(2) obtain s1 where "refill_bytes_per_period s \<le> R" "t \<le> rl_time e" "rl_ok e s"
      "rl_step e s = Some s1" "rl_run R (rl_time e) es s1 = Some (t', s')"
    by (simp split: if_splits option.splits)
  then show ?case
    using Cons.IH [OF rl_step_paced [OF Cons.prems(1)]] assms(2) by blast
qed (simp split: if_splits)

lemma new_paced:
  assumes "new_GenericRateLimiter rate period fair tuned t0 seed = Some s" and "0 < period"
  shows "paced period R t0 t0 s" and "0 < refill_bytes_per_period s"
  using assms CalculateRefill_pos
  by (auto simp: new_GenericRateLimiter_def paced_def rl_inv_def accounted_def Let_def
      split: option.splits)

text \<open>
  C7: The rate limit is respected.  Take a new limiter and any interleaving of requests of both
  priorities, elections, wake-ups and rate changes, auto-tuning included, during which a period
  never refills more than \<open>R\<close> bytes.  Then at every moment the bytes that have gone through are at
  most \<open>R\<close> for each period that has elapsed since the start, and one period more.
\<close>
theorem rate_limit_respected:
  assumes "new_GenericRateLimiter rate period fair tuned t0 seed = Some s0" and "0 < period"
    and "rl_run R t0 es s0 = Some (t, s)"
  shows "GetTotalBytesThrough None s * period \<le> R * (t - t0 + period)"
proof -
  have R: "0 < R"
    using new_paced(2) [OF assms(1,2)] assms(3) by (cases es) (auto split: if_splits)
  have "paced period R t0 t s"
    by (rule rl_run_paced [OF new_paced(1) [OF assms(1,2)] R assms(3)])
  then have "0 \<le> credit (rl_queue s IO_LOW) + credit (rl_queue s IO_HIGH) + available_bytes s"
    and acc: "accounted s * period \<le> R * (next_refill_us s - t0)"
    and nxt: "next_refill_us s \<le> t + period"
    by (auto simp: paced_def rl_inv_def credit_nonneg)
  then have "GetTotalBytesThrough None s * period \<le> accounted s * period"
    using assms(2) by (intro mult_right_mono) (simp_all add: accounted_def GetTotalBytesThrough_def)
  also have "\<dots> \<le> R * (t - t0 + period)"
    using acc nxt R by (smt (verit) mult_left_mono)
  finally show ?thesis .
qed

text \<open>
  The witness: 1,000,000 bytes per second in periods of 100 milliseconds; a request of 60,000
  bytes waits, is elected leader, refills and is granted, and a second one is served at once.
\<close>

definition rl_example :: GenericRateLimiter where
  "rl_example = the (new_GenericRateLimiter 1000000 100000 10 False 0 301)"

definition rl_example_events :: "rl_event list" where
  "rl_example_events = [Enter 5 5 1 60000 IO_LOW, Elect 6 6 1, Wake 7 1 True, Enter 8 8 2 30000 IO_HIGH]"

lemmas rl_eval = rl_example_def rl_example_events_def new_GenericRateLimiter_def
  CalculateRefillBytesPerPeriod_def kMaxInt64_def kMinRefillBytesPerPeriod_def Let_def
  Request_enter_def Request_elect_def Request_wake_def at_front_def Refill_def Refill_serve_def
  signal_head_def GetTotalBytesThrough_def Random_OneIn_def

theorem rate_limit_respected_witness:
  "\<exists>t s. rl_run 100000 0 rl_example_events rl_example = Some (t, s)
     \<and> GetTotalBytesThrough None s = 90000
     \<and> GetTotalBytesThrough None s * 100000 \<le> 100000 * (t - 0 + 100000)"
proof -
  have new: "new_GenericRateLimiter 1000000 100000 10 False 0 301 = Some rl_example"
    by (simp add: rl_eval)
  have run: "\<exists>s. rl_run 100000 0 rl_example_events rl_example = Some (8, s)
      \<and> GetTotalBytesThrough None s = 90000"
    by (cases "Random_Next (GoodSeed 301) mod 10 = 0") (simp_all add: rl_eval)
  then obtain s where s: "rl_run 100000 0 rl_example_events rl_example = Some (8, s)"
    "GetTotalBytesThrough None s = 90000"
    by blast
  from rate_limit_respected [OF new _ s(1)] s show ?thesis
    by auto
qed

text \<open>
  C33: A refill is work-conserving and first-in first-out: it grants a prefix of each queue, in
  order, and if any request is left waiting in either queue then no byte is left available; the
  bytes it hands out, as throughput or as credit of the requests at the front, are exactly those
  it had and those it added.
\<close>
theorem Refill_work_conserving:
  assumes "rl_inv s"
  shows "(\<forall>pri. \<exists>ids. map req_id (rl_queue s pri) = ids @ map req_id (rl_queue (Refill now s) pri)
             \<and> set ids \<subseteq> set (granted (Refill now s)))
    \<and> (\<forall>pri. rl_queue (Refill now s) pri \<noteq> [] \<longrightarrow> available_bytes (Refill now s) = 0)
    \<and> accounted (Refill now s) - accounted s =
        (if available_bytes s < refill_bytes_per_period s then refill_bytes_per_period s else 0)"
  using Refill_spec(2,3,7) [OF assms] by auto

definition rl_waiting :: GenericRateLimiter where
  "rl_waiting = snd (the (Request_enter 5 5 1 250000 IO_LOW rl_example))"

theorem Refill_work_conserving_witness:
  "(\<exists>ids. map req_id (rl_queue rl_waiting IO_LOW) = ids @ map req_id (rl_queue (Refill 9 rl_waiting) IO_LOW))
    \<and> map req_id (rl_queue (Refill 9 rl_waiting) IO_LOW) = [1]
    \<and> available_bytes (Refill 9 rl_waiting) = 0
    \<and> accounted (Refill 9 rl_waiting) - accounted rl_waiting = 100000"
proof -
  have inv: "rl_inv rl_waiting"
    by (simp add: rl_waiting_def rl_eval rl_inv_def req_ok_def)
  have queue: "map req_id (rl_queue (Refill 9 rl_waiting) IO_LOW) = [1]"
    by (cases "Random_Next (GoodSeed 301) mod 10 = 0") (simp_all add: rl_waiting_def rl_eval)
  have refill: "available_bytes rl_waiting < refill_bytes_per_period rl_waiting"
    "refill_bytes_per_period rl_waiting = 100000"
    by (simp_all add: rl_waiting_def rl_eval)
  from queue have "rl_queue (Refill 9 rl_waiting) IO_LOW \<noteq> []"
    by auto
  with Refill_work_conserving [OF inv, of 9] refill queue show ?thesis
    by metis
qed

text \<open>
  The guard against overflow suffices and the refill is sane: for a positive rate and period
  that fit in 64 bits, the product is only formed when it fits in 64 bits, the refill is at least
  100 bytes, and on the exact path it is the bytes of a period rounded down; the only input that
  divides by zero is the rate 0.
\<close>
theorem CalculateRefill_bounds:
  assumes "0 < rate" and "0 < period"
  shows "\<exists>n. CalculateRefillBytesPerPeriod period rate = Some n \<and> 100 \<le> n \<and> n \<le> kMaxInt64
     \<and> (period \<le> kMaxInt64 div rate \<longrightarrow>
          rate * period \<le> kMaxInt64 \<and> n = max 100 (rate * period div 1000000))
     \<and> CalculateRefillBytesPerPeriod period 0 = None"
proof (cases "kMaxInt64 div rate < period")
  case False
  then have "rate * period \<le> rate * (kMaxInt64 div rate)"
    using assms by simp
  also have "\<dots> \<le> kMaxInt64"
    using assms by (metis add_increasing2 div_mult_mod_eq mod_int_pos_iff mult.commute order_refl)
  finally have prod: "rate * period \<le> kMaxInt64" .
  moreover have "rate * period div 1000000 \<le> rate * period"
    using assms zdiv_mono2 [of "rate * period" 1 1000000] by simp
  ultimately show ?thesis
    using False assms
    by (auto simp: CalculateRefillBytesPerPeriod_def kMinRefillBytesPerPeriod_def kMaxInt64_def)
qed (use assms in \<open>simp add: CalculateRefillBytesPerPeriod_def kMaxInt64_def\<close>)

theorem CalculateRefill_bounds_witness:
  "\<exists>n. CalculateRefillBytesPerPeriod 100000 1000000 = Some n \<and> n = max 100 (1000000 * 100000 div 1000000)"
  using CalculateRefill_bounds [of 1000000 100000] by (simp add: kMaxInt64_def)

text \<open>
  Auto-tuning keeps the rate inside the documented range, a twentieth of the maximum to the
  maximum, when the maximum is at most a fifth of the largest 64-bit number.
\<close>
theorem Tune_rate_range:
  assumes "0 \<le> max_rate" and "max_rate \<le> kMaxInt64 div 5" and "0 \<le> drained_pct"
    and "max_rate div 20 \<le> prev" and "prev \<le> max_rate"
  shows "max_rate div 20 \<le> Tune_rate max_rate drained_pct prev
    \<and> Tune_rate max_rate drained_pct prev \<le> max_rate"
  using assms by (auto simp: Tune_rate_def kMaxInt64_def min_def max_def)

theorem Tune_rate_range_witness:
  "(1000 :: int) div 20 \<le> Tune_rate 1000 95 600 \<and> Tune_rate 1000 95 600 \<le> 1000"
  using Tune_rate_range [of 1000 95 600] by (simp add: kMaxInt64_def)

text \<open>
  Above that bound the documented range is missed: with the largest 64-bit number as the
  maximum, a limiter that is drained in every interval is slowed down below a twentieth of it,
  although being drained asks for a higher rate.
\<close>
theorem Tune_rate_below_range:
  "Tune_rate kMaxInt64 100 kMaxInt64 < kMaxInt64 div 20"
  by (simp add: Tune_rate_def kMaxInt64_def)

text \<open>
  A request that finds enough bytes is served at once even when earlier requests wait: from
  a new limiter, a run reaches a state in which one request has waited since the start and a later
  one of the same priority goes through.
\<close>
theorem Request_overtakes:
  "\<exists>s t s'. rl_run 100000 0 (rl_example_events @ [Enter 9 9 3 50000 IO_LOW]) rl_example = Some (t, s)
     \<and> map req_id (rl_queue s IO_LOW) = [3]
     \<and> Request_enter 10 10 4 10000 IO_LOW s = Some (True, s')
     \<and> map req_id (rl_queue s' IO_LOW) = [3]
     \<and> GetTotalBytesThrough (Some IO_LOW) s' = GetTotalBytesThrough (Some IO_LOW) s + 10000"
  by (cases "Random_Next (GoodSeed 301) mod 10 = 0") (simp_all add: rl_eval)

end
