(* ===== verification/Silk_Controller.thy ===== *)
theory Silk_Controller
  imports Silk_Props Rate_Limiter
begin

text \<open>
  The controller of SILK, thread 0 of the benchmark \<open>LongPeakTest\<close> of tools/db_bench_tool.cc: it
  samples the throughput of the clients, pauses compactions during a peak and gives compactions
  the bandwidth the clients leave.  The theory composes it with the scheduler of the database and
  the rate limiter, and models the other threads of the benchmark: load generators, the thread that
  switches the load, and the workers.
\<close>

section \<open>The threads of the benchmark\<close>

text \<open>
  What the threads share.  An operation in a queue is the size of its value and when it was put
  there.  \<open>cur_ops_interval\<close> is not initialised by the source, so that its first value is arbitrary.
\<close>

record SharedState =
  op_queues :: "(int \<times> int) list list list"
  send_low_workload :: int
  cur_ops_interval :: int
  high_peak :: int

definition new_SharedState :: "int \<Rightarrow> int \<Rightarrow> int \<Rightarrow> SharedState" where
  "new_SharedState low ops peak =
     \<lparr>op_queues = replicate 5 (replicate 8 []), send_low_workload = low, cur_ops_interval = ops, high_peak = peak\<rparr>"

definition thread0_init :: "SharedState \<Rightarrow> SharedState" where
  "thread0_init sh = sh\<lparr>high_peak := 0, send_low_workload := 1\<rparr>"

text \<open>A turn of the load generator \<open>tid\<close>: the new value of \<open>workerthread\<close>, the sleep in microseconds.\<close>

definition generator_turn :: "nat \<Rightarrow> int \<Rightarrow> int \<Rightarrow> nat \<Rightarrow> SharedState \<Rightarrow> nat \<times> int \<times> SharedState" where
  "generator_turn tid value_size now workerthread sh =
     (let queues = op_queues sh ! (tid - 9);
          queues = queues[workerthread := queues ! workerthread @ [(value_size, now)]];
          sh = sh\<lparr>op_queues := (op_queues sh)[tid - 9 := queues]\<rparr>
      in ((workerthread + 1) mod 8, if send_low_workload sh = 1 then 700 else 70, sh))"

text \<open>A turn of thread 14: the new value of \<open>steady_workload_time\<close> and the sleep.\<close>

definition fluctuation_turn :: "int \<Rightarrow> SharedState \<Rightarrow> int \<times> int \<times> SharedState" where
  "fluctuation_turn steady sh =
     (let (sleep_time, sh) =
        (if 200 < steady then
           (if send_low_workload sh = 1 then (50000000, sh\<lparr>send_low_workload := 0\<rparr>)
            else (10000000, sh\<lparr>send_low_workload := 1\<rparr>))
         else (10000000, sh))
      in (steady + 10, sleep_time, sh))"

datatype worker_op = Put int | Get

text \<open>
  A turn of worker \<open>tid\<close>: the operation it performs, if its current queue has one.  \<open>op_prob\<close> is the
  random number drawn and \<open>curops\<close> what \<open>FinishedOpsQUEUES\<close> returns.
\<close>

definition worker_turn :: "nat \<Rightarrow> nat \<Rightarrow> int \<Rightarrow> nat \<Rightarrow> SharedState \<Rightarrow> worker_op option \<times> nat \<times> SharedState" where
  "worker_turn tid op_prob curops cur_queue sh =
     (let queues = op_queues sh ! cur_queue; next_queue = (cur_queue + 1) mod 5
      in case queues ! (tid - 1) of
           [] \<Rightarrow> (None, next_queue, sh)
         | (val_size, _) # rest \<Rightarrow>
             (let sh = sh\<lparr>op_queues := (op_queues sh)[cur_queue := queues[tid - 1 := rest]]\<rparr>;
                  sh = (if curops \<noteq> 0 \<and> tid = 1 then sh\<lparr>cur_ops_interval := curops\<rparr> else sh)
              in (Some (if op_prob < 50 then Put val_size else Get), next_queue, sh)))"

section \<open>The controller\<close>

record silk_thread =
  pausedcompaction :: bool
  prev_bandwidth_compaction_MBPS :: int

definition new_silk_thread :: silk_thread where
  "new_silk_thread = \<lparr>pausedcompaction = False, prev_bandwidth_compaction_MBPS = 0\<rparr>"

definition user_bandwidth :: "int \<Rightarrow> SharedState \<Rightarrow> int" where
  "user_bandwidth value_size sh = (let cur_throughput = cur_ops_interval sh * 8 in tdiv (cur_throughput * value_size) 1000000)"

datatype peak_decision = PausePeak | ResumePeak | KeepPeak

definition peak_decision_of :: "int \<Rightarrow> silk_thread \<Rightarrow> peak_decision" where
  "peak_decision_of u t =
     (if \<not> pausedcompaction t \<and> 150 < u then PausePeak
      else if pausedcompaction t \<and> u \<le> 150 then ResumePeak else KeepPeak)"

definition compaction_bandwidth :: "int \<Rightarrow> int" where
  "compaction_bandwidth u = (let b = 200 - u in if b < 10 then 10 else b)"

text \<open>\<open>None\<close> would be the division by zero of \<open>SetBytesPerSecond\<close>.\<close>

definition adjust_rate ::
    "bool \<Rightarrow> int \<Rightarrow> silk_thread \<Rightarrow> GenericRateLimiter \<Rightarrow> (silk_thread \<times> GenericRateLimiter) option" where
  "adjust_rate dynamic u t rl =
     (let b = compaction_bandwidth u
      in if dynamic \<and> 10 \<le> \<bar>prev_bandwidth_compaction_MBPS t - b\<bar>
         then map_option (\<lambda>rl. (t\<lparr>prev_bandwidth_compaction_MBPS := b\<rparr>, rl)) (SetBytesPerSecond (b * 1000 * 1000) rl)
         else Some (t, rl))"

section \<open>The controlled database\<close>

text \<open>
  \<open>pausing\<close> is the bandwidth the controller has measured, while it waits inside
  \<open>PauseCompactionWork\<close>.
\<close>

record silk_system =
  silk :: silk_thread
  pausing :: "int option"
  shared :: SharedState
  database :: DBImpl
  limiter :: GenericRateLimiter

definition finish_turn :: "bool \<Rightarrow> int \<Rightarrow> silk_system \<Rightarrow> silk_system option" where
  "finish_turn dynamic u s =
     map_option (\<lambda>(t, rl). s\<lparr>silk := t, limiter := rl\<rparr>) (adjust_rate dynamic u (silk s) (limiter s))"

definition silk_turn :: "bool \<Rightarrow> int \<Rightarrow> silk_system \<Rightarrow> silk_system option" where
  "silk_turn dynamic value_size s =
     (let u = user_bandwidth value_size (shared s)
      in case peak_decision_of u (silk s) of
           PausePeak \<Rightarrow> Some (s\<lparr>database := PauseCompactionWork_begin (database s), pausing := Some u\<rparr>)
         | ResumePeak \<Rightarrow>
             finish_turn dynamic u
               (s\<lparr>database := snd (ContinueCompactionWork (database s)), silk := (silk s)\<lparr>pausedcompaction := False\<rparr>\<rparr>)
         | KeepPeak \<Rightarrow> finish_turn dynamic u s)"

definition silk_paused :: "bool \<Rightarrow> int \<Rightarrow> silk_system \<Rightarrow> silk_system option" where
  "silk_paused dynamic u s =
     finish_turn dynamic u
       (s\<lparr>database := PauseCompactionWork_end (database s), silk := (silk s)\<lparr>pausedcompaction := True\<rparr>, pausing := None\<rparr>)"

text \<open>
  The steps of the whole: the database does anything but pause or continue by itself, the limiter
  serves requests, workers report a throughput, and the controller takes its turns.
\<close>

inductive silk_step :: "bool \<Rightarrow> int \<Rightarrow> (rat \<Rightarrow> rat) \<Rightarrow> silk_system \<Rightarrow> silk_system \<Rightarrow> bool" for dynamic value_size rd where
  database: "db_step rd (database s) d \<Longrightarrow> bg_compaction_paused d = bg_compaction_paused (database s) \<Longrightarrow>
    silk_step dynamic value_size rd s (s\<lparr>database := d\<rparr>)"
| limiter: "rl_step e (limiter s) = Some l \<Longrightarrow> \<forall>now rate. e \<noteq> SetRate now rate \<Longrightarrow>
    silk_step dynamic value_size rd s (s\<lparr>limiter := l\<rparr>)"
| generator: "8 < tid \<Longrightarrow> tid < 14 \<Longrightarrow> w < 8 \<Longrightarrow> generator_turn tid value_size now w (shared s) = (w', sleep, sh) \<Longrightarrow>
    silk_step dynamic value_size rd s (s\<lparr>shared := sh\<rparr>)"
| fluctuation: "fluctuation_turn steady (shared s) = (steady', sleep, sh) \<Longrightarrow>
    silk_step dynamic value_size rd s (s\<lparr>shared := sh\<rparr>)"
| worker: "0 < tid \<Longrightarrow> tid \<le> 8 \<Longrightarrow> q < 5 \<Longrightarrow> 0 \<le> curops \<Longrightarrow>
    worker_turn tid op_prob curops q (shared s) = (op, q', sh) \<Longrightarrow>
    silk_step dynamic value_size rd s (s\<lparr>shared := sh\<rparr>)"
| turn: "pausing s = None \<Longrightarrow> silk_turn dynamic value_size s = Some s' \<Longrightarrow>
    silk_step dynamic value_size rd s s'"
| paused: "pausing s = Some u \<Longrightarrow> \<not> PauseCompactionWork_wait (database s) \<Longrightarrow> silk_paused dynamic u s = Some s' \<Longrightarrow>
    silk_step dynamic value_size rd s s'"

definition silk_init :: "silk_system \<Rightarrow> bool" where
  "silk_init s \<longleftrightarrow> silk s = new_silk_thread \<and> pausing s = None \<and> db_init (database s)
     \<and> bg_compaction_paused (database s) = 0 \<and> 0 \<le> cur_ops_interval (shared s)
     \<and> (\<exists>low ops peak. shared s = thread0_init (new_SharedState low ops peak))
     \<and> 0 < refill_period_us (limiter s) \<and> \<not> auto_tuned (limiter s)"

section \<open>Queues\<close>

text \<open>The array of queues keeps its shape, so that every index the threads use is inside it.\<close>

definition queues_shaped :: "SharedState \<Rightarrow> bool" where
  "queues_shaped sh \<longleftrightarrow> length (op_queues sh) = 5 \<and> (\<forall>qs\<in>set (op_queues sh). length qs = 8)"

lemma generator_shaped:
  assumes "generator_turn tid v now w sh = (w', sl, sh')" and "queues_shaped sh" and "8 < tid" "tid < 14"
  shows "queues_shaped sh'" "w' < 8" "cur_ops_interval sh' = cur_ops_interval sh" "tid - 9 < length (op_queues sh)"
  using assms by (auto simp: generator_turn_def Let_def queues_shaped_def dest!: set_update_subset_insert [THEN subsetD])

lemma fluctuation_shaped:
  assumes "fluctuation_turn st sh = (st', sl, sh')"
  shows "queues_shaped sh' = queues_shaped sh" "cur_ops_interval sh' = cur_ops_interval sh"
  using assms by (auto simp: fluctuation_turn_def Let_def queues_shaped_def split: if_splits)

lemma worker_shaped:
  assumes "worker_turn tid p ops q sh = (a, q', sh')" and "queues_shaped sh" and "0 \<le> ops" and "0 \<le> cur_ops_interval sh" and "q < 5"
  shows "queues_shaped sh'" "q' < 5" "0 \<le> cur_ops_interval sh'"
  using assms by (auto simp: worker_turn_def Let_def queues_shaped_def split: list.splits if_splits prod.splits
      dest!: set_update_subset_insert [THEN subsetD])

section \<open>What holds in every run\<close>

lemma tdiv_nonneg: "0 \<le> a \<Longrightarrow> 0 < b \<Longrightarrow> 0 \<le> tdiv a b"
  by (auto simp: tdiv_def pos_imp_zdiv_nonneg_iff sgn_if)

lemma user_bandwidth_nonneg: "0 \<le> value_size \<Longrightarrow> 0 \<le> cur_ops_interval sh \<Longrightarrow> 0 \<le> user_bandwidth value_size sh"
  by (simp add: user_bandwidth_def Let_def tdiv_nonneg)

text \<open>The limiter serves requests without a change of the rate, unless it tunes itself.\<close>

lemma Refill_rate [simp]:
  "rate_bytes_per_sec (Refill now l) = rate_bytes_per_sec l" "auto_tuned (Refill now l) = auto_tuned l"
  "refill_period_us (Refill now l) = refill_period_us l"
  by (simp_all add: Refill_def Refill_serve_def Let_def split_def)

lemma rl_step_rate:
  assumes "rl_step e l = Some l'" and "\<forall>now rate. e \<noteq> SetRate now rate" and "\<not> auto_tuned l"
  shows "rate_bytes_per_sec l' = rate_bytes_per_sec l \<and> auto_tuned l' = auto_tuned l \<and> refill_period_us l' = refill_period_us l"
  using assms by (cases e) (auto simp: Request_enter_def Request_elect_def Request_wake_def signal_head_def Let_def split: if_splits)

lemma SetBytesPerSecond_eq:
  assumes "rate \<noteq> 0"
  shows "\<exists>l'. SetBytesPerSecond rate l = Some l' \<and> rate_bytes_per_sec l' = rate
    \<and> auto_tuned l' = auto_tuned l \<and> refill_period_us l' = refill_period_us l"
  using assms by (simp add: SetBytesPerSecond_def CalculateRefillBytesPerPeriod_def)

text \<open>The bandwidth given to compactions and the rate of the limiter.\<close>

definition rate_ok :: "silk_thread \<Rightarrow> GenericRateLimiter \<Rightarrow> bool" where
  "rate_ok t l \<longleftrightarrow> 0 < refill_period_us l \<and> \<not> auto_tuned l
     \<and> (prev_bandwidth_compaction_MBPS t = 0
        \<or> 10 \<le> prev_bandwidth_compaction_MBPS t \<and> prev_bandwidth_compaction_MBPS t \<le> 200
          \<and> rate_bytes_per_sec l = prev_bandwidth_compaction_MBPS t * 1000000)"

lemma rate_ok_paused [simp]: "rate_ok (t\<lparr>pausedcompaction := b\<rparr>) l = rate_ok t l"
  by (simp add: rate_ok_def)

lemma adjust_rate_ok:
  assumes "rate_ok t l" and "0 \<le> u"
  shows "\<exists>t' l'. adjust_rate dynamic u t l = Some (t', l') \<and> rate_ok t' l' \<and> pausedcompaction t' = pausedcompaction t
    \<and> (dynamic \<longrightarrow> \<bar>prev_bandwidth_compaction_MBPS t' - compaction_bandwidth u\<bar> < 10)"
proof -
  have b: "10 \<le> compaction_bandwidth u" "compaction_bandwidth u \<le> 200"
    using assms(2) by (simp_all add: compaction_bandwidth_def Let_def)
  then obtain l' where "SetBytesPerSecond (compaction_bandwidth u * 1000 * 1000) l = Some l'"
    "rate_bytes_per_sec l' = compaction_bandwidth u * 1000 * 1000" "auto_tuned l' = auto_tuned l"
    "refill_period_us l' = refill_period_us l"
    using SetBytesPerSecond_eq [of "compaction_bandwidth u * 1000 * 1000" l] by auto
  then show ?thesis
    using assms(1) b by (auto simp: adjust_rate_def Let_def rate_ok_def)
qed

lemma finish_turn_ok:
  assumes "rate_ok (silk s) (limiter s)" and "0 \<le> u"
  obtains t l where "finish_turn dynamic u s = Some (s\<lparr>silk := t, limiter := l\<rparr>)" "rate_ok t l"
    "pausedcompaction t = pausedcompaction (silk s)"
    "dynamic \<longrightarrow> \<bar>prev_bandwidth_compaction_MBPS t - compaction_bandwidth u\<bar> < 10"
  using adjust_rate_ok [OF assms, of dynamic] that by (auto simp: finish_turn_def)

text \<open>Every resumed peak leaves one pause behind: \<open>k\<close> of them.\<close>

definition pauses_ok :: "silk_system \<Rightarrow> bool" where
  "pauses_ok s \<longleftrightarrow> (pausing s \<noteq> None \<longrightarrow> \<not> pausedcompaction (silk s))
     \<and> (\<exists>k. bg_compaction_paused (database s) = int k + (if pausedcompaction (silk s) then 2 else 0) + of_bool (pausing s \<noteq> None))"

definition silk_inv :: "silk_system \<Rightarrow> bool" where
  "silk_inv s \<longleftrightarrow> queues_shaped (shared s) \<and> 0 \<le> cur_ops_interval (shared s) \<and> rate_ok (silk s) (limiter s)
     \<and> pauses_ok s \<and> (\<forall>u. pausing s = Some u \<longrightarrow> 0 \<le> u)"

lemma ContinueCompactionWork_paused:
  "0 < bg_compaction_paused db \<Longrightarrow> bg_compaction_paused (snd (ContinueCompactionWork db)) = bg_compaction_paused db - 1"
  by (simp add: ContinueCompactionWork_def Let_def MaybeSchedule_same_cfs [unfolded same_cfs_def])

lemma silk_turn_inv:
  assumes "silk_inv s" and "pausing s = None" and "0 \<le> value_size" and "silk_turn dynamic value_size s = Some s'"
  shows "silk_inv s'" and "db_step rd (database s) (database s') \<or> database s' = database s"
    and "dynamic \<Longrightarrow> pausing s' = None \<Longrightarrow>
      \<bar>prev_bandwidth_compaction_MBPS (silk s') - compaction_bandwidth (user_bandwidth value_size (shared s))\<bar> < 10"
proof -
  let ?u = "user_bandwidth value_size (shared s)"
  have u: "0 \<le> ?u" and r: "rate_ok (silk s) (limiter s)"
    using assms(1,3) by (simp_all add: silk_inv_def user_bandwidth_nonneg)
  consider (pause) "peak_decision_of ?u (silk s) = PausePeak"
    | (resume) "peak_decision_of ?u (silk s) = ResumePeak" | (keep) "peak_decision_of ?u (silk s) = KeepPeak"
    by (cases "peak_decision_of ?u (silk s)") auto
  then have "silk_inv s' \<and> (db_step rd (database s) (database s') \<or> database s' = database s)
    \<and> (dynamic \<longrightarrow> pausing s' = None \<longrightarrow> \<bar>prev_bandwidth_compaction_MBPS (silk s') - compaction_bandwidth ?u\<bar> < 10)"
  proof cases
    case pause
    then have s': "s' = s\<lparr>database := PauseCompactionWork_begin (database s), pausing := Some ?u\<rparr>" "\<not> pausedcompaction (silk s)"
      using assms(4) by (auto simp: silk_turn_def Let_def peak_decision_of_def split: if_splits)
    then show ?thesis
      using assms(1,2) u db_step.pause_compaction_begin [of rd "database s"]
      by (auto simp: silk_inv_def pauses_ok_def PauseCompactionWork_begin_def)
  next
    case resume
    let ?s = "s\<lparr>database := snd (ContinueCompactionWork (database s)), silk := (silk s)\<lparr>pausedcompaction := False\<rparr>\<rparr>"
    obtain t l where f: "finish_turn dynamic ?u ?s = Some (?s\<lparr>silk := t, limiter := l\<rparr>)" "rate_ok t l"
      "pausedcompaction t = pausedcompaction (silk ?s)"
      "dynamic \<longrightarrow> \<bar>prev_bandwidth_compaction_MBPS t - compaction_bandwidth ?u\<bar> < 10"
      by (rule finish_turn_ok [of ?s ?u dynamic]) (use r u in simp_all)
    have p: "pausedcompaction (silk s)"
      using resume by (auto simp: peak_decision_of_def split: if_splits)
    have "pauses_ok (?s\<lparr>silk := t, limiter := l\<rparr>)"
    proof -
      obtain k where "bg_compaction_paused (database s) = int k + 2"
        using assms(1,2) p by (auto simp: silk_inv_def pauses_ok_def)
      then have "bg_compaction_paused (snd (ContinueCompactionWork (database s))) = int (Suc k)"
        using ContinueCompactionWork_paused [of "database s"] by simp
      then show ?thesis
        unfolding pauses_ok_def using f(3) assms(2) by (auto intro!: exI [of _ "Suc k"])
    qed
    moreover have "s' = ?s\<lparr>silk := t, limiter := l\<rparr>"
      using assms(4) resume f(1) by (simp add: silk_turn_def Let_def)
    ultimately show ?thesis
      using assms(1,2) f db_step.continue_compaction [of rd "database s"] by (auto simp: silk_inv_def)
  next
    case keep
    obtain t l where f: "finish_turn dynamic ?u s = Some (s\<lparr>silk := t, limiter := l\<rparr>)" "rate_ok t l"
      "pausedcompaction t = pausedcompaction (silk s)"
      "dynamic \<longrightarrow> \<bar>prev_bandwidth_compaction_MBPS t - compaction_bandwidth ?u\<bar> < 10"
      by (rule finish_turn_ok [OF r u])
    then have "s' = s\<lparr>silk := t, limiter := l\<rparr>"
      using assms(4) keep by (simp add: silk_turn_def Let_def)
    then show ?thesis
      using assms(1,2) f by (auto simp: silk_inv_def pauses_ok_def)
  qed
  then show "silk_inv s'" "db_step rd (database s) (database s') \<or> database s' = database s"
    "dynamic \<Longrightarrow> pausing s' = None \<Longrightarrow> \<bar>prev_bandwidth_compaction_MBPS (silk s') - compaction_bandwidth ?u\<bar> < 10"
    by auto
qed

lemma silk_turn_total:
  assumes "silk_inv s" and "0 \<le> value_size"
  shows "\<exists>s'. silk_turn dynamic value_size s = Some s'"
proof -
  have "0 \<le> user_bandwidth value_size (shared s)" "rate_ok (silk s) (limiter s)"
    using assms by (simp_all add: silk_inv_def user_bandwidth_nonneg)
  then have "adjust_rate dynamic (user_bandwidth value_size (shared s)) (silk s) (limiter s) \<noteq> None"
    "adjust_rate dynamic (user_bandwidth value_size (shared s)) ((silk s)\<lparr>pausedcompaction := False\<rparr>) (limiter s) \<noteq> None"
    using adjust_rate_ok [of "silk s" "limiter s" "user_bandwidth value_size (shared s)" dynamic]
      adjust_rate_ok [of "(silk s)\<lparr>pausedcompaction := False\<rparr>" "limiter s" "user_bandwidth value_size (shared s)" dynamic]
    by auto
  then show ?thesis
    by (auto simp: silk_turn_def finish_turn_def Let_def split: peak_decision.splits)
qed

lemma silk_paused_inv:
  assumes "silk_inv s" and "pausing s = Some u" and "silk_paused dynamic u s = Some s'"
  shows "silk_inv s'" and "database s' = PauseCompactionWork_end (database s)"
proof -
  let ?s = "s\<lparr>database := PauseCompactionWork_end (database s), silk := (silk s)\<lparr>pausedcompaction := True\<rparr>, pausing := None\<rparr>"
  have "0 \<le> u" "rate_ok (silk ?s) (limiter ?s)"
    using assms(1,2) by (simp_all add: silk_inv_def)
  then obtain t l where f: "finish_turn dynamic u ?s = Some (?s\<lparr>silk := t, limiter := l\<rparr>)" "rate_ok t l"
    "pausedcompaction t = pausedcompaction (silk ?s)"
    using finish_turn_ok [of ?s u dynamic] by metis
  then have s': "s' = ?s\<lparr>silk := t, limiter := l\<rparr>"
    using assms(3) by (simp add: silk_paused_def)
  show "silk_inv s'" "database s' = PauseCompactionWork_end (database s)"
    using assms(1,2) f(2,3) by (auto simp: s' silk_inv_def pauses_ok_def PauseCompactionWork_end_def)
qed

lemma silk_step_inv:
  assumes "silk_step dynamic value_size rd s s'" and "silk_inv s" and "0 \<le> value_size"
  shows "silk_inv s' \<and> (db_step rd (database s) (database s') \<or> database s' = database s)"
  using assms(1)
proof cases
  case (database d)
  then show ?thesis
    using assms(2) by (auto simp: silk_inv_def pauses_ok_def)
next
  case (limiter e l)
  then show ?thesis
    using assms(2) rl_step_rate [of e "silk_system.limiter s" l] by (auto simp: silk_inv_def pauses_ok_def rate_ok_def)
next
  case (generator tid w now w' sleep sh)
  then show ?thesis
    using assms(2) generator_shaped [of tid value_size now w "shared s" w' sleep sh] by (auto simp: silk_inv_def pauses_ok_def)
next
  case (fluctuation steady steady' sleep sh)
  then show ?thesis
    using assms(2) fluctuation_shaped [of steady "shared s" steady' sleep sh] by (auto simp: silk_inv_def pauses_ok_def)
next
  case (worker tid q curops op_prob op q' sh)
  then show ?thesis
    using assms(2) worker_shaped [of tid op_prob curops q "shared s" op q' sh] by (auto simp: silk_inv_def pauses_ok_def)
next
  case turn
  then show ?thesis
    using silk_turn_inv [OF assms(2) _ assms(3)] by blast
next
  case (paused u)
  then show ?thesis
    using silk_paused_inv [OF assms(2)] db_step.pause_compaction_end [of "silk_system.database s" rd] by metis
qed

lemma silk_init_inv: "silk_init s \<Longrightarrow> silk_inv s"
  by (auto simp: silk_init_def silk_inv_def pauses_ok_def rate_ok_def new_silk_thread_def queues_shaped_def
      thread0_init_def new_SharedState_def)

lemma silk_run_inv:
  assumes "(silk_step dynamic value_size rd)\<^sup>*\<^sup>* s0 s" and "silk_inv s0" and "0 \<le> value_size"
  shows "silk_inv s \<and> (db_step rd)\<^sup>*\<^sup>* (database s0) (database s)"
  using assms(1)
proof (induction rule: rtranclp_induct)
  case (step s s')
  then show ?case
    using silk_step_inv [OF step(2) _ assms(3)] by (metis rtranclp.rtrancl_into_rtrancl)
qed (use assms(2) in simp)

section \<open>The bandwidth of compactions\<close>

text \<open>An example: clients write 50000 values of 1000 bytes per second and worker, a peak.\<close>

definition peak_limiter :: GenericRateLimiter where
  "peak_limiter = the (new_GenericRateLimiter 200000000 100000 10 False 0 7)"

definition peak_system :: silk_system where
  "peak_system = \<lparr>silk = new_silk_thread, pausing = None,
     shared = thread0_init (new_SharedState 0 50000 0), database = silk_db, limiter = peak_limiter\<rparr>"

lemma peak_system_init: "silk_init peak_system"
proof -
  have "refill_period_us peak_limiter = 100000" "\<not> auto_tuned peak_limiter"
    by (simp_all add: peak_limiter_def new_GenericRateLimiter_def CalculateRefillBytesPerPeriod_def kMaxInt64_def)
  moreover have "bg_compaction_paused silk_db = 0"
    by (simp add: silk_db_def)
  ultimately show ?thesis
    using silk_db_init by (auto simp: silk_init_def peak_system_def thread0_init_def new_SharedState_def)
qed



section \<open>After a peak\<close>

lemma paused_no_low_compaction:
  assumes "sched_inv h db" and "0 < bg_compaction_paused db" and "GetBackgroundThreads (env_pool db HIGH) \<noteq> 0"
  shows "queued is_compaction LOW (MaybeScheduleFlushOrCompaction db) = queued is_compaction LOW db"
proof -
  have "pools_ok db" "0 \<le> unscheduled_flushes db"
    using assms(1) by (simp_all add: sched_inv_def counters_ok_def)
  then show ?thesis
    using silk_stage_effect(9) [of db] assms(2,3) stages_same_cfs(2) [of db] by (simp add: MaybeSchedule_stages same_cfs_def)
qed

lemma finish_turn_database: "finish_turn dynamic u s = Some s' \<Longrightarrow> database s' = database s"
  by (auto simp: finish_turn_def)

lemma pause_stays:
  assumes "silk_step dynamic value_size rd s s'" and "silk_inv s" and "0 < bg_compaction_paused (database s)"
  shows "0 < bg_compaction_paused (database s')"
  using assms(1)
proof cases
  case turn
  show ?thesis
  proof (cases "peak_decision_of (user_bandwidth value_size (shared s)) (silk s)")
    case ResumePeak
    then have "pausedcompaction (silk s)"
      by (auto simp: peak_decision_of_def split: if_splits)
    then have "2 \<le> bg_compaction_paused (database s)"
      using assms(2) by (auto simp: silk_inv_def pauses_ok_def)
    then have "0 < bg_compaction_paused (snd (ContinueCompactionWork (database s)))"
      by (subst ContinueCompactionWork_paused) auto
    then show ?thesis
      using turn(2) ResumePeak by (auto simp: silk_turn_def Let_def dest!: finish_turn_database)
  qed (use turn(2) assms(3) in \<open>auto simp: silk_turn_def Let_def PauseCompactionWork_begin_def dest!: finish_turn_database\<close>)
next
  case (paused u)
  then show ?thesis
    using assms(3) by (auto simp: silk_paused_def PauseCompactionWork_end_def dest!: finish_turn_database)
qed (use assms(3) in auto)

text \<open>
  C13: The first peak starves compactions for the rest of the run.  Once the controller has started
  to pause compactions for a peak, then whatever the load does and however often the controller
  resumes them, compactions stay paused, and scheduling never again puts one in the LOW pool.
\<close>

theorem silk_peak_starves_compactions:
  assumes "silk_init s0" and "0 \<le> value_size" and "(silk_step dynamic value_size rd)\<^sup>*\<^sup>* s0 s"
    and "pausing s \<noteq> None" and "(silk_step dynamic value_size rd)\<^sup>*\<^sup>* s s'"
    and "GetBackgroundThreads (env_pool (database s') HIGH) \<noteq> 0"
  shows "0 < bg_compaction_paused (database s')
    \<and> queued is_compaction LOW (MaybeScheduleFlushOrCompaction (database s')) = queued is_compaction LOW (database s')"
proof -
  have s: "silk_inv s" "(db_step rd)\<^sup>*\<^sup>* (database s0) (database s)"
    using silk_run_inv [OF assms(3) silk_init_inv [OF assms(1)] assms(2)] by simp_all
  have "0 < bg_compaction_paused (database s') \<and> silk_inv s'"
    using assms(5)
  proof (induction rule: rtranclp_induct)
    case base
    then show ?case
      using s(1) assms(4) by (auto simp: silk_inv_def pauses_ok_def split: if_splits)
  next
    case (step a b)
    then show ?case
      using pause_stays silk_step_inv assms(2) by blast
  qed
  moreover have "sched_inv (\<lambda>_. 0) (database s')"
  proof (rule reachable_inv)
    show "(db_step rd)\<^sup>*\<^sup>* (database s0) (database s')"
      using s silk_run_inv [OF assms(5) s(1) assms(2)] by (meson rtranclp_trans)
    show "db_init (database s0)"
      using assms(1) by (simp add: silk_init_def)
  qed
  ultimately show ?thesis
    using paused_no_low_compaction assms(6) by blast
qed

text \<open>In the example the peak is noticed in the first turn, which waits for no compaction.\<close>

lemma silk_peak_starves_compactions_witness:
  "\<exists>s'. silk_turn True 1000 peak_system = Some s' \<and> 0 < bg_compaction_paused (database s')
    \<and> queued is_compaction LOW (MaybeScheduleFlushOrCompaction (database s')) = queued is_compaction LOW (database s')"
proof -
  have "user_bandwidth 1000 (shared peak_system) = 400"
    by (simp add: user_bandwidth_def peak_system_def thread0_init_def new_SharedState_def tdiv_def)
  then have turn: "silk_turn True 1000 peak_system =
      Some (peak_system\<lparr>database := PauseCompactionWork_begin silk_db, pausing := Some 400\<rparr>)"
    by (simp add: silk_turn_def Let_def peak_decision_of_def peak_system_def new_silk_thread_def)
  then have run: "(silk_step True 1000 id)\<^sup>*\<^sup>* peak_system (peak_system\<lparr>database := PauseCompactionWork_begin silk_db, pausing := Some 400\<rparr>)"
    by (intro r_into_rtranclp silk_step.turn) (simp_all add: peak_system_def)
  have "GetBackgroundThreads (env_pool (PauseCompactionWork_begin silk_db) HIGH) \<noteq> 0"
    by (simp add: PauseCompactionWork_begin_def silk_db_def GetBackgroundThreads_def Impl_def)
  then show ?thesis
    using silk_peak_starves_compactions [OF peak_system_init _ run _ rtranclp.rtrancl_refl] turn by simp
qed

end
