(* ===== verification/Write_Batch.thy ===== *)
theory Write_Batch
  imports Dbformat "HOL-Library.Sublist"
begin

text \<open>
  Write batches (db/write_batch.cc, db/write_batch_internal.h, include/rocksdb/write_batch.h): the
  serialised updates that one \<open>Write\<close> applies atomically and that the write-ahead log stores.  A
  batch is its string \<open>rep_\<close> (a sequence number, a count, then tagged records) with the save points,
  the termination point for the log and the content flags.  The operations that append records, save
  points and \<open>Append\<close> are the source's; \<open>Iterate\<close> replays a batch into a \<open>Handler\<close>, a record of
  functions on a state of the handler's.

  The lemmas relate a batch to the list of updates it stands for (\<open>WriteOp\<close>): every operation refines
  an operation on lists, and \<open>Iterate\<close> delivers exactly that list.
\<close>

section \<open>The batch\<close>

record SavePoint =
  sp_size :: nat
  sp_count :: u32
  sp_content_flags :: u32

definition SavePoint_clear :: SavePoint where
  "SavePoint_clear = \<lparr>sp_size = 0, sp_count = 0, sp_content_flags = 0\<rparr>"

definition is_cleared :: "SavePoint \<Rightarrow> bool" where
  "is_cleared p \<longleftrightarrow> sp_size p = 0 \<and> sp_count p = 0 \<and> sp_content_flags p = 0"

text \<open>\<open>ContentFlags\<close>.\<close>

abbreviation DEFERRED :: u32 where "DEFERRED \<equiv> push_bit 0 1"
abbreviation HAS_PUT :: u32 where "HAS_PUT \<equiv> push_bit 1 1"
abbreviation HAS_DELETE :: u32 where "HAS_DELETE \<equiv> push_bit 2 1"
abbreviation HAS_SINGLE_DELETE :: u32 where "HAS_SINGLE_DELETE \<equiv> push_bit 3 1"
abbreviation HAS_MERGE :: u32 where "HAS_MERGE \<equiv> push_bit 4 1"
abbreviation HAS_BEGIN_PREPARE :: u32 where "HAS_BEGIN_PREPARE \<equiv> push_bit 5 1"
abbreviation HAS_END_PREPARE :: u32 where "HAS_END_PREPARE \<equiv> push_bit 6 1"
abbreviation HAS_COMMIT :: u32 where "HAS_COMMIT \<equiv> push_bit 7 1"
abbreviation HAS_ROLLBACK :: u32 where "HAS_ROLLBACK \<equiv> push_bit 8 1"
abbreviation HAS_DELETE_RANGE :: u32 where "HAS_DELETE_RANGE \<equiv> push_bit 9 1"

text \<open>The stack of save points with its top first; a batch without a stack has the empty one.\<close>

record WriteBatch =
  save_points :: "SavePoint list"
  wal_term_point :: SavePoint
  content_flags :: u32
  max_bytes :: nat
  rep :: bytes

abbreviation kHeader :: nat where "kHeader \<equiv> 12"

definition new_WriteBatch :: "nat \<Rightarrow> WriteBatch" where
  "new_WriteBatch limit =
     \<lparr>save_points = [], wal_term_point = SavePoint_clear, content_flags = 0, max_bytes = limit,
      rep = replicate kHeader 0\<rparr>"

definition WriteBatch_of_rep :: "bytes \<Rightarrow> WriteBatch" where
  "WriteBatch_of_rep r =
     \<lparr>save_points = [], wal_term_point = SavePoint_clear, content_flags = DEFERRED, max_bytes = 0,
      rep = r\<rparr>"

definition Clear :: "WriteBatch \<Rightarrow> WriteBatch" where
  "Clear b = b\<lparr>rep := replicate kHeader 0, content_flags := 0, save_points := [],
               wal_term_point := SavePoint_clear\<rparr>"

definition Count :: "WriteBatch \<Rightarrow> u32" where
  "Count b = DecodeFixed32 (drop 8 (rep b))"

definition SetCount :: "u32 \<Rightarrow> WriteBatch \<Rightarrow> WriteBatch" where
  "SetCount n b = b\<lparr>rep := memcpy (rep b) 8 (EncodeFixed32 n)\<rparr>"

definition Sequence :: "WriteBatch \<Rightarrow> u64" where
  "Sequence b = DecodeFixed64 (rep b)"

definition SetSequence :: "u64 \<Rightarrow> WriteBatch \<Rightarrow> WriteBatch" where
  "SetSequence seq b = b\<lparr>rep := memcpy (rep b) 0 (EncodeFixed64 seq)\<rparr>"

definition GetDataSize :: "WriteBatch \<Rightarrow> nat" where
  "GetDataSize b = length (rep b)"

definition MarkWalTerminationPoint :: "WriteBatch \<Rightarrow> WriteBatch" where
  "MarkWalTerminationPoint b =
     b\<lparr>wal_term_point := \<lparr>sp_size = GetDataSize b, sp_count = Count b, sp_content_flags = content_flags b\<rparr>\<rparr>"

section \<open>Appending records\<close>

text \<open>\<open>LocalSavePoint\<close>: the state at its construction, restored by \<open>commit\<close> over the size limit.\<close>

definition MemoryLimit :: Status where
  "MemoryLimit = Status kAborted ''Memory limit reached''"

definition LocalSavePoint :: "WriteBatch \<Rightarrow> SavePoint" where
  "LocalSavePoint b = \<lparr>sp_size = GetDataSize b, sp_count = Count b, sp_content_flags = content_flags b\<rparr>"

definition commit :: "SavePoint \<Rightarrow> WriteBatch \<Rightarrow> Status \<times> WriteBatch" where
  "commit savepoint b =
     (if max_bytes b \<noteq> 0 \<and> length (rep b) > max_bytes b
      then (let b = b\<lparr>rep := take (sp_size savepoint) (rep b)\<rparr>;
                b = SetCount (sp_count savepoint) b
            in (MemoryLimit, b\<lparr>content_flags := sp_content_flags savepoint\<rparr>))
      else (OK, b))"

definition add_flags :: "u32 \<Rightarrow> WriteBatch \<Rightarrow> WriteBatch" where
  "add_flags flags b = b\<lparr>content_flags := content_flags b OR flags\<rparr>"

text \<open>The tag of a record, with the column family behind it unless that is the default one.\<close>

definition push_tag :: "ValueType \<Rightarrow> ValueType \<Rightarrow> u32 \<Rightarrow> WriteBatch \<Rightarrow> WriteBatch" where
  "push_tag tag cf_tag column_family_id b =
     b\<lparr>rep := (if column_family_id = 0 then rep b @ [tag]
                else PutVarint32 (rep b @ [cf_tag]) column_family_id)\<rparr>"

definition push_slice :: "bytes \<Rightarrow> WriteBatch \<Rightarrow> WriteBatch" where
  "push_slice s b = b\<lparr>rep := PutLengthPrefixedSlice (rep b) s\<rparr>"

definition push_parts :: "bytes list \<Rightarrow> WriteBatch \<Rightarrow> WriteBatch" where
  "push_parts parts b = b\<lparr>rep := PutLengthPrefixedSliceParts (rep b) parts\<rparr>"

definition Put :: "u32 \<Rightarrow> bytes \<Rightarrow> bytes \<Rightarrow> WriteBatch \<Rightarrow> Status \<times> WriteBatch" where
  "Put column_family_id key value b =
     (let save = LocalSavePoint b;
          b = SetCount (Count b + 1) b;
          b = push_tag kTypeValue kTypeColumnFamilyValue column_family_id b;
          b = push_slice key b;
          b = push_slice value b;
          b = add_flags HAS_PUT b
      in commit save b)"

definition PutParts :: "u32 \<Rightarrow> bytes list \<Rightarrow> bytes list \<Rightarrow> WriteBatch \<Rightarrow> Status \<times> WriteBatch" where
  "PutParts column_family_id key value b =
     (let save = LocalSavePoint b;
          b = SetCount (Count b + 1) b;
          b = push_tag kTypeValue kTypeColumnFamilyValue column_family_id b;
          b = push_parts key b;
          b = push_parts value b;
          b = add_flags HAS_PUT b
      in commit save b)"

definition InsertNoop :: "WriteBatch \<Rightarrow> Status \<times> WriteBatch" where
  "InsertNoop b = (OK, b\<lparr>rep := rep b @ [kTypeNoop]\<rparr>)"

definition MarkEndPrepare :: "bytes \<Rightarrow> WriteBatch \<Rightarrow> Status \<times> WriteBatch" where
  "MarkEndPrepare xid b =
     (let b = b\<lparr>save_points := []\<rparr>;
          b = b\<lparr>rep := (rep b)[12 := kTypeBeginPrepareXID]\<rparr>;
          b = b\<lparr>rep := rep b @ [kTypeEndPrepareXID]\<rparr>;
          b = push_slice xid b
      in (OK, add_flags (HAS_END_PREPARE OR HAS_BEGIN_PREPARE) b))"

definition MarkCommit :: "bytes \<Rightarrow> WriteBatch \<Rightarrow> Status \<times> WriteBatch" where
  "MarkCommit xid b =
     (let b = b\<lparr>rep := rep b @ [kTypeCommitXID]\<rparr>;
          b = push_slice xid b
      in (OK, add_flags HAS_COMMIT b))"

definition MarkRollback :: "bytes \<Rightarrow> WriteBatch \<Rightarrow> Status \<times> WriteBatch" where
  "MarkRollback xid b =
     (let b = b\<lparr>rep := rep b @ [kTypeRollbackXID]\<rparr>;
          b = push_slice xid b
      in (OK, add_flags HAS_ROLLBACK b))"

definition Delete :: "u32 \<Rightarrow> bytes \<Rightarrow> WriteBatch \<Rightarrow> Status \<times> WriteBatch" where
  "Delete column_family_id key b =
     (let save = LocalSavePoint b;
          b = SetCount (Count b + 1) b;
          b = push_tag kTypeDeletion kTypeColumnFamilyDeletion column_family_id b;
          b = push_slice key b;
          b = add_flags HAS_DELETE b
      in commit save b)"

definition DeleteParts :: "u32 \<Rightarrow> bytes list \<Rightarrow> WriteBatch \<Rightarrow> Status \<times> WriteBatch" where
  "DeleteParts column_family_id key b =
     (let save = LocalSavePoint b;
          b = SetCount (Count b + 1) b;
          b = push_tag kTypeDeletion kTypeColumnFamilyDeletion column_family_id b;
          b = push_parts key b;
          b = add_flags HAS_DELETE b
      in commit save b)"

definition SingleDelete :: "u32 \<Rightarrow> bytes \<Rightarrow> WriteBatch \<Rightarrow> Status \<times> WriteBatch" where
  "SingleDelete column_family_id key b =
     (let save = LocalSavePoint b;
          b = SetCount (Count b + 1) b;
          b = push_tag kTypeSingleDeletion kTypeColumnFamilySingleDeletion column_family_id b;
          b = push_slice key b;
          b = add_flags HAS_SINGLE_DELETE b
      in commit save b)"

definition SingleDeleteParts :: "u32 \<Rightarrow> bytes list \<Rightarrow> WriteBatch \<Rightarrow> Status \<times> WriteBatch" where
  "SingleDeleteParts column_family_id key b =
     (let save = LocalSavePoint b;
          b = SetCount (Count b + 1) b;
          b = push_tag kTypeSingleDeletion kTypeColumnFamilySingleDeletion column_family_id b;
          b = push_parts key b;
          b = add_flags HAS_SINGLE_DELETE b
      in commit save b)"

definition DeleteRange :: "u32 \<Rightarrow> bytes \<Rightarrow> bytes \<Rightarrow> WriteBatch \<Rightarrow> Status \<times> WriteBatch" where
  "DeleteRange column_family_id bkey ekey b =
     (let save = LocalSavePoint b;
          b = SetCount (Count b + 1) b;
          b = push_tag kTypeRangeDeletion kTypeColumnFamilyRangeDeletion column_family_id b;
          b = push_slice bkey b;
          b = push_slice ekey b;
          b = add_flags HAS_DELETE_RANGE b
      in commit save b)"

definition DeleteRangeParts :: "u32 \<Rightarrow> bytes list \<Rightarrow> bytes list \<Rightarrow> WriteBatch \<Rightarrow> Status \<times> WriteBatch" where
  "DeleteRangeParts column_family_id bkey ekey b =
     (let save = LocalSavePoint b;
          b = SetCount (Count b + 1) b;
          b = push_tag kTypeRangeDeletion kTypeColumnFamilyRangeDeletion column_family_id b;
          b = push_parts bkey b;
          b = push_parts ekey b;
          b = add_flags HAS_DELETE_RANGE b
      in commit save b)"

definition Merge :: "u32 \<Rightarrow> bytes \<Rightarrow> bytes \<Rightarrow> WriteBatch \<Rightarrow> Status \<times> WriteBatch" where
  "Merge column_family_id key value b =
     (let save = LocalSavePoint b;
          b = SetCount (Count b + 1) b;
          b = push_tag kTypeMerge kTypeColumnFamilyMerge column_family_id b;
          b = push_slice key b;
          b = push_slice value b;
          b = add_flags HAS_MERGE b
      in commit save b)"

definition MergeParts :: "u32 \<Rightarrow> bytes list \<Rightarrow> bytes list \<Rightarrow> WriteBatch \<Rightarrow> Status \<times> WriteBatch" where
  "MergeParts column_family_id key value b =
     (let save = LocalSavePoint b;
          b = SetCount (Count b + 1) b;
          b = push_tag kTypeMerge kTypeColumnFamilyMerge column_family_id b;
          b = push_parts key b;
          b = push_parts value b;
          b = add_flags HAS_MERGE b
      in commit save b)"

definition PutLogData :: "bytes \<Rightarrow> WriteBatch \<Rightarrow> Status \<times> WriteBatch" where
  "PutLogData blob b =
     (let save = LocalSavePoint b;
          b = b\<lparr>rep := rep b @ [kTypeLogData]\<rparr>;
          b = push_slice blob b
      in commit save b)"

section \<open>Save points\<close>

definition SetSavePoint :: "WriteBatch \<Rightarrow> WriteBatch" where
  "SetSavePoint b =
     b\<lparr>save_points :=
         \<lparr>sp_size = GetDataSize b, sp_count = Count b, sp_content_flags = content_flags b\<rparr> # save_points b\<rparr>"

definition RollbackToSavePoint :: "WriteBatch \<Rightarrow> Status \<times> WriteBatch" where
  "RollbackToSavePoint b =
     (case save_points b of
        [] \<Rightarrow> (NotFound, b)
      | savepoint # stack \<Rightarrow>
          (let b = b\<lparr>save_points := stack\<rparr>
           in (OK,
               if sp_size savepoint = length (rep b) then b
               else if sp_size savepoint = 0 then Clear b
               else (let b = b\<lparr>rep := take (sp_size savepoint) (rep b)\<rparr>;
                         b = SetCount (sp_count savepoint) b
                     in b\<lparr>content_flags := sp_content_flags savepoint\<rparr>))))"

definition PopSavePoint :: "WriteBatch \<Rightarrow> Status \<times> WriteBatch" where
  "PopSavePoint b =
     (case save_points b of [] \<Rightarrow> (NotFound, b) | _ # stack \<Rightarrow> (OK, b\<lparr>save_points := stack\<rparr>))"

section \<open>Contents\<close>

definition SetContents :: "bytes \<Rightarrow> WriteBatch \<Rightarrow> Status \<times> WriteBatch" where
  "SetContents contents b = (OK, b\<lparr>rep := contents, content_flags := DEFERRED\<rparr>)"

definition Append :: "WriteBatch \<Rightarrow> WriteBatch \<Rightarrow> bool \<Rightarrow> Status \<times> WriteBatch" where
  "Append dst src wal_only =
     (let batch_end = wal_term_point src;
          (src_len, src_count, src_flags) =
            (if wal_only \<and> \<not> is_cleared batch_end
             then (sp_size batch_end - kHeader, sp_count batch_end, sp_content_flags batch_end)
             else (length (rep src) - kHeader, Count src, content_flags src));
          dst = SetCount (Count dst + src_count) dst;
          dst = dst\<lparr>rep := rep dst @ take src_len (drop kHeader (rep src))\<rparr>
      in (OK, add_flags src_flags dst))"

definition AppendedByteSize :: "nat \<Rightarrow> nat \<Rightarrow> nat" where
  "AppendedByteSize leftByteSize rightByteSize =
     (if leftByteSize = 0 \<or> rightByteSize = 0 then leftByteSize + rightByteSize
      else leftByteSize + rightByteSize - kHeader)"

section \<open>Replaying a batch\<close>

text \<open>\<open>WriteBatch::Handler\<close>: its virtual functions over its state.\<close>

record 's Handler =
  PutCF :: "u32 \<Rightarrow> bytes \<Rightarrow> bytes \<Rightarrow> 's \<Rightarrow> Status \<times> 's"
  DeleteCF :: "u32 \<Rightarrow> bytes \<Rightarrow> 's \<Rightarrow> Status \<times> 's"
  SingleDeleteCF :: "u32 \<Rightarrow> bytes \<Rightarrow> 's \<Rightarrow> Status \<times> 's"
  DeleteRangeCF :: "u32 \<Rightarrow> bytes \<Rightarrow> bytes \<Rightarrow> 's \<Rightarrow> Status \<times> 's"
  MergeCF :: "u32 \<Rightarrow> bytes \<Rightarrow> bytes \<Rightarrow> 's \<Rightarrow> Status \<times> 's"
  LogData :: "bytes \<Rightarrow> 's \<Rightarrow> 's"
  handle_BeginPrepare :: "'s \<Rightarrow> Status \<times> 's"
  handle_EndPrepare :: "bytes \<Rightarrow> 's \<Rightarrow> Status \<times> 's"
  handle_Commit :: "bytes \<Rightarrow> 's \<Rightarrow> Status \<times> 's"
  handle_Rollback :: "bytes \<Rightarrow> 's \<Rightarrow> Status \<times> 's"
  Continue :: "'s \<Rightarrow> bool"

text \<open>What \<open>ReadRecordFromWriteBatch\<close> stores through its pointers; a slice that the tag's case does not
  assign is empty here, and \<open>Iterate\<close> does not read it.\<close>

record batch_record =
  rec_tag :: ValueType
  rec_cf :: u32
  rec_key :: bytes
  rec_value :: bytes
  rec_blob :: bytes
  rec_xid :: bytes

text \<open>The column family in front of a record, with the error of a tag whose slices are missing.\<close>

definition read_cf :: "bool \<Rightarrow> string \<Rightarrow> bytes \<Rightarrow> Status + (u32 \<times> bytes)" where
  "read_cf present err input =
     (if present
      then (case GetVarint32 input of None \<Rightarrow> Inl (Corruption err) | Some (cf, input) \<Rightarrow> Inr (cf, input))
      else Inr (0, input))"

definition read_slice :: "string \<Rightarrow> bytes \<Rightarrow> Status + (bytes \<times> bytes)" where
  "read_slice err input =
     (case GetLengthPrefixedSlice input of None \<Rightarrow> Inl (Corruption err) | Some (v, input) \<Rightarrow> Inr (v, input))"

definition bind_result :: "'e + 'a \<Rightarrow> ('a \<Rightarrow> 'e + 'b) \<Rightarrow> 'e + 'b" where
  "bind_result m f = (case m of Inl e \<Rightarrow> Inl e | Inr x \<Rightarrow> f x)"

definition read_key_value :: "ValueType \<Rightarrow> bool \<Rightarrow> string \<Rightarrow> bytes \<Rightarrow> Status + (batch_record \<times> bytes)" where
  "read_key_value tag cf_record err input =
     bind_result (read_cf cf_record err input) (\<lambda>(cf, input).
       bind_result (read_slice err input) (\<lambda>(key, input).
         bind_result (read_slice err input) (\<lambda>(value, input).
           Inr (\<lparr>rec_tag = tag, rec_cf = cf, rec_key = key, rec_value = value, rec_blob = [], rec_xid = []\<rparr>,
                input))))"

definition read_key :: "ValueType \<Rightarrow> bool \<Rightarrow> string \<Rightarrow> bytes \<Rightarrow> Status + (batch_record \<times> bytes)" where
  "read_key tag cf_record err input =
     bind_result (read_cf cf_record err input) (\<lambda>(cf, input).
       bind_result (read_slice err input) (\<lambda>(key, input).
         Inr (\<lparr>rec_tag = tag, rec_cf = cf, rec_key = key, rec_value = [], rec_blob = [], rec_xid = []\<rparr>, input)))"

definition read_xid :: "ValueType \<Rightarrow> string \<Rightarrow> bytes \<Rightarrow> Status + (batch_record \<times> bytes)" where
  "read_xid tag err input =
     bind_result (read_slice err input) (\<lambda>(xid, input).
       Inr (\<lparr>rec_tag = tag, rec_cf = 0, rec_key = [], rec_value = [], rec_blob = [], rec_xid = xid\<rparr>, input))"

definition ReadRecordFromWriteBatch :: "bytes \<Rightarrow> Status + (batch_record \<times> bytes)" where
  "ReadRecordFromWriteBatch input =
     (let tag = hd input; input = tl input
      in if tag = kTypeColumnFamilyValue then read_key_value tag True ''bad WriteBatch Put'' input
         else if tag = kTypeValue then read_key_value tag False ''bad WriteBatch Put'' input
         else if tag = kTypeColumnFamilyDeletion \<or> tag = kTypeColumnFamilySingleDeletion
           then read_key tag True ''bad WriteBatch Delete'' input
         else if tag = kTypeDeletion \<or> tag = kTypeSingleDeletion
           then read_key tag False ''bad WriteBatch Delete'' input
         else if tag = kTypeColumnFamilyRangeDeletion
           then read_key_value tag True ''bad WriteBatch DeleteRange'' input
         else if tag = kTypeRangeDeletion then read_key_value tag False ''bad WriteBatch DeleteRange'' input
         else if tag = kTypeColumnFamilyMerge then read_key_value tag True ''bad WriteBatch Merge'' input
         else if tag = kTypeMerge then read_key_value tag False ''bad WriteBatch Merge'' input
         else if tag = kTypeLogData
           then bind_result (read_slice ''bad WriteBatch Blob'' input) (\<lambda>(blob, input).
                  Inr (\<lparr>rec_tag = tag, rec_cf = 0, rec_key = [], rec_value = [], rec_blob = blob, rec_xid = []\<rparr>,
                       input))
         else if tag = kTypeNoop \<or> tag = kTypeBeginPrepareXID
           then Inr (\<lparr>rec_tag = tag, rec_cf = 0, rec_key = [], rec_value = [], rec_blob = [], rec_xid = []\<rparr>, input)
         else if tag = kTypeEndPrepareXID then read_xid tag ''bad EndPrepare XID'' input
         else if tag = kTypeCommitXID then read_xid tag ''bad Commit XID'' input
         else if tag = kTypeRollbackXID then read_xid tag ''bad Rollback XID'' input
         else Inl (Corruption ''unknown WriteBatch tag''))"

definition ReadKeyFromWriteBatchEntry :: "bytes \<Rightarrow> bool \<Rightarrow> (bytes \<times> bytes) option" where
  "ReadKeyFromWriteBatchEntry input cf_record =
     (let input = tl input
      in if cf_record
         then (case GetVarint32 input of None \<Rightarrow> None | Some (cf, input) \<Rightarrow> GetLengthPrefixedSlice input)
         else GetLengthPrefixedSlice input)"

text \<open>The body of the switch of \<open>Iterate\<close>: the status it goes on with, whether the record is counted, and
  the handler's state.  The statuses of the four transaction markers are dropped.\<close>

definition dispatch :: "'s Handler \<Rightarrow> batch_record \<Rightarrow> 's \<Rightarrow> Status \<times> u32 \<times> 's" where
  "dispatch h r s =
     (let tag = rec_tag r
      in if tag = kTypeColumnFamilyValue \<or> tag = kTypeValue
           then (let (st, s) = PutCF h (rec_cf r) (rec_key r) (rec_value r) s in (st, 1, s))
         else if tag = kTypeColumnFamilyDeletion \<or> tag = kTypeDeletion
           then (let (st, s) = DeleteCF h (rec_cf r) (rec_key r) s in (st, 1, s))
         else if tag = kTypeColumnFamilySingleDeletion \<or> tag = kTypeSingleDeletion
           then (let (st, s) = SingleDeleteCF h (rec_cf r) (rec_key r) s in (st, 1, s))
         else if tag = kTypeColumnFamilyRangeDeletion \<or> tag = kTypeRangeDeletion
           then (let (st, s) = DeleteRangeCF h (rec_cf r) (rec_key r) (rec_value r) s in (st, 1, s))
         else if tag = kTypeColumnFamilyMerge \<or> tag = kTypeMerge
           then (let (st, s) = MergeCF h (rec_cf r) (rec_key r) (rec_value r) s in (st, 1, s))
         else if tag = kTypeLogData then (OK, 0, LogData h (rec_blob r) s)
         else if tag = kTypeBeginPrepareXID then (OK, 0, snd (handle_BeginPrepare h s))
         else if tag = kTypeEndPrepareXID then (OK, 0, snd (handle_EndPrepare h (rec_xid r) s))
         else if tag = kTypeCommitXID then (OK, 0, snd (handle_Commit h (rec_xid r) s))
         else if tag = kTypeRollbackXID then (OK, 0, snd (handle_Rollback h (rec_xid r) s))
         else if tag = kTypeNoop then (OK, 0, s)
         else (Corruption ''unknown WriteBatch tag'', 0, s))"

lemma bind_result_Inr:
  "bind_result m f = Inr y \<longleftrightarrow> (\<exists>x. m = Inr x \<and> f x = Inr y)"
  by (cases m) (simp_all add: bind_result_def)

lemma read_cf_shorter: "read_cf p err input = Inr (cf, rest) \<Longrightarrow> length rest \<le> length input"
  by (auto simp: read_cf_def split: if_splits option.splits dest: GetVarint32_shorter)

lemma read_slice_shorter: "read_slice err input = Inr (v, rest) \<Longrightarrow> length rest < length input"
  by (auto simp: read_slice_def split: option.splits dest: GetLengthPrefixedSlice_shorter)

lemma read_helpers_shorter:
  "read_key_value tag p err input = Inr (r, rest) \<Longrightarrow> length rest \<le> length input"
  "read_key tag p err input = Inr (r, rest) \<Longrightarrow> length rest \<le> length input"
  "read_xid tag err input = Inr (r, rest) \<Longrightarrow> length rest \<le> length input"
  by (force simp: read_key_value_def read_key_def read_xid_def bind_result_Inr
      dest!: read_cf_shorter read_slice_shorter)+

lemma ReadRecord_shorter:
  assumes "ReadRecordFromWriteBatch input = Inr (r, rest)" "input \<noteq> []"
  shows "length rest < length input"
proof -
  obtain t i where i: "input = t # i"
    using assms(2) by (cases input) auto
  have "length rest \<le> length i"
    using assms(1) unfolding i ReadRecordFromWriteBatch_def Let_def list.sel
    by (auto simp: bind_result_Inr split: if_splits dest!: read_helpers_shorter read_slice_shorter)
  then show ?thesis
    by (simp add: i)
qed

text \<open>The loop of \<open>Iterate\<close> and its result.\<close>

function Iterate_loop :: "'s Handler \<Rightarrow> bytes \<Rightarrow> u32 \<Rightarrow> 's \<Rightarrow> Status \<times> u32 \<times> 's" where
  "Iterate_loop h input found s =
     (if input \<noteq> [] \<and> Continue h s then
        (case ReadRecordFromWriteBatch input of
           Inl st \<Rightarrow> (st, found, s)
         | Inr (r, rest) \<Rightarrow>
             (case dispatch h r s of
                (st, n, s) \<Rightarrow> if ok st then Iterate_loop h rest (found + n) s else (st, found + n, s)))
      else (OK, found, s))"
  by pat_completeness auto
termination
  by (relation "measure (\<lambda>(h, input, found, s). length input)") (auto dest: ReadRecord_shorter)

declare Iterate_loop.simps [simp del]

definition Iterate :: "'s Handler \<Rightarrow> WriteBatch \<Rightarrow> 's \<Rightarrow> Status \<times> 's" where
  "Iterate h b s =
     (if length (rep b) < kHeader then (Corruption ''malformed WriteBatch (too small)'', s)
      else
        (case Iterate_loop h (drop kHeader (rep b)) 0 s of
           (st, found, s) \<Rightarrow>
             if \<not> ok st then (st, s)
             else if found \<noteq> Count b then (Corruption ''WriteBatch has wrong count'', s)
             else (OK, s)))"

text \<open>\<open>BatchContentClassifier\<close>: the flags of a batch that was not built by the operations.\<close>

definition BatchContentClassifier :: "u32 Handler" where
  "BatchContentClassifier =
     \<lparr>PutCF = \<lambda>_ _ _ flags. (OK, flags OR HAS_PUT),
      DeleteCF = \<lambda>_ _ flags. (OK, flags OR HAS_DELETE),
      SingleDeleteCF = \<lambda>_ _ flags. (OK, flags OR HAS_SINGLE_DELETE),
      DeleteRangeCF = \<lambda>_ _ _ flags. (OK, flags OR HAS_DELETE_RANGE),
      MergeCF = \<lambda>_ _ _ flags. (OK, flags OR HAS_MERGE),
      LogData = \<lambda>_ flags. flags,
      handle_BeginPrepare = \<lambda>flags. (OK, flags OR HAS_BEGIN_PREPARE),
      handle_EndPrepare = \<lambda>_ flags. (OK, flags OR HAS_END_PREPARE),
      handle_Commit = \<lambda>_ flags. (OK, flags OR HAS_COMMIT),
      handle_Rollback = \<lambda>_ flags. (OK, flags OR HAS_ROLLBACK),
      Continue = \<lambda>_. True\<rparr>"

definition ComputeContentFlags :: "WriteBatch \<Rightarrow> u32 \<times> WriteBatch" where
  "ComputeContentFlags b =
     (let rv = content_flags b
      in if rv AND DEFERRED \<noteq> 0
         then (let rv = snd (Iterate BatchContentClassifier b 0) in (rv, b\<lparr>content_flags := rv\<rparr>))
         else (rv, b))"

definition HasPut :: "WriteBatch \<Rightarrow> bool" where
  "HasPut b \<longleftrightarrow> fst (ComputeContentFlags b) AND HAS_PUT \<noteq> 0"

definition HasDelete :: "WriteBatch \<Rightarrow> bool" where
  "HasDelete b \<longleftrightarrow> fst (ComputeContentFlags b) AND HAS_DELETE \<noteq> 0"

definition HasSingleDelete :: "WriteBatch \<Rightarrow> bool" where
  "HasSingleDelete b \<longleftrightarrow> fst (ComputeContentFlags b) AND HAS_SINGLE_DELETE \<noteq> 0"

definition HasDeleteRange :: "WriteBatch \<Rightarrow> bool" where
  "HasDeleteRange b \<longleftrightarrow> fst (ComputeContentFlags b) AND HAS_DELETE_RANGE \<noteq> 0"

definition HasMerge :: "WriteBatch \<Rightarrow> bool" where
  "HasMerge b \<longleftrightarrow> fst (ComputeContentFlags b) AND HAS_MERGE \<noteq> 0"

definition HasBeginPrepare :: "WriteBatch \<Rightarrow> bool" where
  "HasBeginPrepare b \<longleftrightarrow> fst (ComputeContentFlags b) AND HAS_BEGIN_PREPARE \<noteq> 0"

definition HasEndPrepare :: "WriteBatch \<Rightarrow> bool" where
  "HasEndPrepare b \<longleftrightarrow> fst (ComputeContentFlags b) AND HAS_END_PREPARE \<noteq> 0"

definition HasCommit :: "WriteBatch \<Rightarrow> bool" where
  "HasCommit b \<longleftrightarrow> fst (ComputeContentFlags b) AND HAS_COMMIT \<noteq> 0"

definition HasRollback :: "WriteBatch \<Rightarrow> bool" where
  "HasRollback b \<longleftrightarrow> fst (ComputeContentFlags b) AND HAS_ROLLBACK \<noteq> 0"

section \<open>The updates a batch stands for\<close>

datatype (discs_sels) WriteOp =
    PutOp u32 bytes bytes | DeleteOp u32 bytes | SingleDeleteOp u32 bytes | DeleteRangeOp u32 bytes bytes
  | MergeOp u32 bytes bytes | LogDataOp bytes | BeginPrepareOp | EndPrepareOp bytes | CommitOp bytes
  | RollbackOp bytes | NoopOp

fun op_counted :: "WriteOp \<Rightarrow> bool" where
  "op_counted (PutOp cf k v) = True"
| "op_counted (DeleteOp cf k) = True"
| "op_counted (SingleDeleteOp cf k) = True"
| "op_counted (DeleteRangeOp cf k e) = True"
| "op_counted (MergeOp cf k v) = True"
| "op_counted _ = False"

fun op_flag :: "WriteOp \<Rightarrow> u32" where
  "op_flag (PutOp cf k v) = HAS_PUT"
| "op_flag (DeleteOp cf k) = HAS_DELETE"
| "op_flag (SingleDeleteOp cf k) = HAS_SINGLE_DELETE"
| "op_flag (DeleteRangeOp cf k e) = HAS_DELETE_RANGE"
| "op_flag (MergeOp cf k v) = HAS_MERGE"
| "op_flag (LogDataOp blob) = 0"
| "op_flag BeginPrepareOp = HAS_BEGIN_PREPARE"
| "op_flag (EndPrepareOp xid) = HAS_END_PREPARE"
| "op_flag (CommitOp xid) = HAS_COMMIT"
| "op_flag (RollbackOp xid) = HAS_ROLLBACK"
| "op_flag NoopOp = 0"

fun op_short :: "WriteOp \<Rightarrow> bool" where
  "op_short (PutOp cf k v) \<longleftrightarrow> short k \<and> short v"
| "op_short (DeleteOp cf k) \<longleftrightarrow> short k"
| "op_short (SingleDeleteOp cf k) \<longleftrightarrow> short k"
| "op_short (DeleteRangeOp cf k e) \<longleftrightarrow> short k \<and> short e"
| "op_short (MergeOp cf k v) \<longleftrightarrow> short k \<and> short v"
| "op_short (LogDataOp blob) \<longleftrightarrow> short blob"
| "op_short BeginPrepareOp \<longleftrightarrow> True"
| "op_short (EndPrepareOp xid) \<longleftrightarrow> short xid"
| "op_short (CommitOp xid) \<longleftrightarrow> short xid"
| "op_short (RollbackOp xid) \<longleftrightarrow> short xid"
| "op_short NoopOp \<longleftrightarrow> True"

text \<open>The format documented at the head of db/write_batch.cc.\<close>

definition varstring :: "bytes \<Rightarrow> bytes" where
  "varstring s = EncodeVarint32 (word_of_nat (length s)) @ s"

definition tag_bytes :: "ValueType \<Rightarrow> ValueType \<Rightarrow> u32 \<Rightarrow> bytes" where
  "tag_bytes tag cf_tag cf = (if cf = 0 then [tag] else cf_tag # EncodeVarint32 cf)"

fun op_bytes :: "WriteOp \<Rightarrow> bytes" where
  "op_bytes (PutOp cf k v) = tag_bytes kTypeValue kTypeColumnFamilyValue cf @ varstring k @ varstring v"
| "op_bytes (DeleteOp cf k) = tag_bytes kTypeDeletion kTypeColumnFamilyDeletion cf @ varstring k"
| "op_bytes (SingleDeleteOp cf k) =
     tag_bytes kTypeSingleDeletion kTypeColumnFamilySingleDeletion cf @ varstring k"
| "op_bytes (DeleteRangeOp cf k e) =
     tag_bytes kTypeRangeDeletion kTypeColumnFamilyRangeDeletion cf @ varstring k @ varstring e"
| "op_bytes (MergeOp cf k v) = tag_bytes kTypeMerge kTypeColumnFamilyMerge cf @ varstring k @ varstring v"
| "op_bytes (LogDataOp blob) = kTypeLogData # varstring blob"
| "op_bytes BeginPrepareOp = [kTypeBeginPrepareXID]"
| "op_bytes (EndPrepareOp xid) = kTypeEndPrepareXID # varstring xid"
| "op_bytes (CommitOp xid) = kTypeCommitXID # varstring xid"
| "op_bytes (RollbackOp xid) = kTypeRollbackXID # varstring xid"
| "op_bytes NoopOp = [kTypeNoop]"

definition ops_bytes :: "WriteOp list \<Rightarrow> bytes" where
  "ops_bytes ops = concat (map op_bytes ops)"

definition ops_count :: "WriteOp list \<Rightarrow> nat" where
  "ops_count ops = length (filter op_counted ops)"

definition ops_flags :: "WriteOp list \<Rightarrow> u32" where
  "ops_flags ops = fold (\<lambda>op flags. flags OR op_flag op) ops 0"

definition batch_bytes :: "u64 \<Rightarrow> WriteOp list \<Rightarrow> bytes" where
  "batch_bytes seq ops = EncodeFixed64 seq @ EncodeFixed32 (word_of_nat (ops_count ops)) @ ops_bytes ops"

text \<open>What a handler is told of one update, and of a list of them until it stops or fails; the last
  component is the part of the list that was not delivered.\<close>

fun deliver :: "'s Handler \<Rightarrow> WriteOp \<Rightarrow> 's \<Rightarrow> Status \<times> 's" where
  "deliver h (PutOp cf k v) s = PutCF h cf k v s"
| "deliver h (DeleteOp cf k) s = DeleteCF h cf k s"
| "deliver h (SingleDeleteOp cf k) s = SingleDeleteCF h cf k s"
| "deliver h (DeleteRangeOp cf k e) s = DeleteRangeCF h cf k e s"
| "deliver h (MergeOp cf k v) s = MergeCF h cf k v s"
| "deliver h (LogDataOp blob) s = (OK, LogData h blob s)"
| "deliver h BeginPrepareOp s = (OK, snd (handle_BeginPrepare h s))"
| "deliver h (EndPrepareOp xid) s = (OK, snd (handle_EndPrepare h xid s))"
| "deliver h (CommitOp xid) s = (OK, snd (handle_Commit h xid s))"
| "deliver h (RollbackOp xid) s = (OK, snd (handle_Rollback h xid s))"
| "deliver h NoopOp s = (OK, s)"

fun replay :: "'s Handler \<Rightarrow> WriteOp list \<Rightarrow> 's \<Rightarrow> Status \<times> 's \<times> WriteOp list" where
  "replay h [] s = (OK, s, [])"
| "replay h (op # ops) s =
     (if Continue h s
      then (case deliver h op s of (st, s) \<Rightarrow> if ok st then replay h ops s else (st, s, ops))
      else (OK, s, op # ops))"

lemma ops_simps [simp]:
  "ops_bytes [] = []" "ops_bytes (op # ops) = op_bytes op @ ops_bytes ops"
  "ops_bytes (ops @ ops') = ops_bytes ops @ ops_bytes ops'"
  "ops_count [] = 0" "ops_count (op # ops) = (if op_counted op then Suc (ops_count ops) else ops_count ops)"
  "ops_count (ops @ ops') = ops_count ops + ops_count ops'"
  by (simp_all add: ops_bytes_def ops_count_def)

lemma fold_flags: "fold (\<lambda>op flags. flags OR op_flag op) ops f = f OR ops_flags ops"
proof (induction ops arbitrary: f)
  case Nil
  then show ?case by (simp add: ops_flags_def)
next
  case (Cons op ops)
  show ?case
    using Cons [of "f OR op_flag op"] Cons [of "op_flag op"] by (simp add: ops_flags_def or.assoc)
qed

lemma ops_flags_simps [simp]:
  "ops_flags [] = 0" "ops_flags (op # ops) = op_flag op OR ops_flags ops"
  "ops_flags (ops @ ops') = ops_flags ops OR ops_flags ops'"
  using fold_flags [of ops "op_flag op"] fold_flags [of ops' "ops_flags ops"] by (simp_all add: ops_flags_def)

section \<open>Reading a record back\<close>

lemma read_parts [simp]:
  "short s \<Longrightarrow> read_slice err (varstring s @ rest) = Inr (s, rest)"
  "read_cf False err rest = Inr (0, rest)"
  "read_cf True err (EncodeVarint32 cf @ rest) = Inr (cf, rest)"
  "bind_result (Inr x) f = f x"
  by (simp_all add: read_slice_def read_cf_def varstring_def bind_result_def)

lemma deliver_read:
  assumes "op_short op"
  obtains r where "ReadRecordFromWriteBatch (op_bytes op @ rest) = Inr (r, rest)"
    "\<And>h s. dispatch h r s =
       (case deliver h op s of (st, s) \<Rightarrow> (st, if op_counted op then 1 else 0, s))"
proof -
  have "\<exists>r. ReadRecordFromWriteBatch (op_bytes op @ rest) = Inr (r, rest) \<and>
      (\<forall>h :: 'a Handler. \<forall>s. dispatch h r s =
       (case deliver h op s of (st, s) \<Rightarrow> (st, if op_counted op then 1 else 0, s)))"
    using assms
    by (cases op)
      (simp_all add: ReadRecordFromWriteBatch_def tag_bytes_def read_key_value_def read_key_def read_xid_def
        dispatch_def split_def Let_def)
  then show ?thesis
    using that by blast
qed

lemma op_bytes_nonempty [simp]: "op_bytes op \<noteq> []"
  by (cases op) (simp_all add: tag_bytes_def)

lemma replay_rest: "replay h ops s = (st, s', rest) \<Longrightarrow> ops_count rest \<le> ops_count ops"
  by (induction ops arbitrary: s) (auto split: if_splits prod.splits, force+)

lemma Iterate_loop_replay:
  assumes "list_all op_short ops"
  shows "Iterate_loop h (ops_bytes ops) found s =
    (case replay h ops s of (st, s, rest) \<Rightarrow> (st, found + word_of_nat (ops_count ops - ops_count rest), s))"
  using assms
proof (induction ops arbitrary: found s)
  case Nil
  then show ?case by (simp add: Iterate_loop.simps)
next
  case (Cons op ops)
  from Cons.prems have "op_short op" by simp
  then obtain r where r: "ReadRecordFromWriteBatch (op_bytes op @ ops_bytes ops) = Inr (r, ops_bytes ops)"
    "\<And>h s. dispatch (h :: 'a Handler) r s =
       (case deliver h op s of (st, s) \<Rightarrow> (st, if op_counted op then 1 else 0, s))"
    by (rule deliver_read [where rest = "ops_bytes ops"]) (rule that)
  obtain st s1 where d: "deliver h op s = (st, s1)"
    by (cases "deliver h op s")
  obtain st2 s2 rest where rp: "replay h ops s1 = (st2, s2, rest)"
    by (cases "replay h ops s1")
  have le: "ops_count rest \<le> ops_count ops"
    using rp by (rule replay_rest)
  show ?case
    using Cons.IH [of "found + 1" s1] Cons.IH [of found s1] Cons.prems d rp le
    by (auto simp: Iterate_loop.simps [of h "op_bytes op @ ops_bytes ops"] r Suc_diff_le)
qed

section \<open>The operations on lists of updates\<close>

text \<open>The specification: the updates of the batch, those it had at each save point and at the termination
  point for the log.\<close>

record batch_spec =
  spec_seq :: u64
  spec_ops :: "WriteOp list"
  spec_saves :: "WriteOp list list"
  spec_wal :: "WriteOp list option"

definition point_of :: "WriteOp list \<Rightarrow> SavePoint" where
  "point_of ops =
     \<lparr>sp_size = kHeader + length (ops_bytes ops), sp_count = word_of_nat (ops_count ops),
      sp_content_flags = ops_flags ops\<rparr>"

definition represents :: "WriteBatch \<Rightarrow> batch_spec \<Rightarrow> bool" where
  "represents b sp \<longleftrightarrow>
     rep b = batch_bytes (spec_seq sp) (spec_ops sp) \<and> list_all op_short (spec_ops sp)
     \<and> content_flags b = ops_flags (spec_ops sp)
     \<and> save_points b = map point_of (spec_saves sp)
     \<and> sorted_wrt (\<lambda>x y. prefix y x) (spec_ops sp # spec_saves sp)
     \<and> wal_term_point b = (case spec_wal sp of None \<Rightarrow> SavePoint_clear | Some w \<Rightarrow> point_of w)"

datatype BatchCall =
    CallPut u32 bytes bytes | CallDelete u32 bytes | CallSingleDelete u32 bytes
  | CallDeleteRange u32 bytes bytes | CallMerge u32 bytes bytes | CallPutLogData bytes | CallInsertNoop
  | CallMarkEndPrepare bytes | CallMarkCommit bytes | CallMarkRollback bytes
  | CallSetSavePoint | CallRollbackToSavePoint | CallPopSavePoint | CallMarkWalTerminationPoint
  | CallClear | CallSetSequence u64

fun run_call :: "BatchCall \<Rightarrow> WriteBatch \<Rightarrow> Status \<times> WriteBatch" where
  "run_call (CallPut cf k v) b = Put cf k v b"
| "run_call (CallDelete cf k) b = Delete cf k b"
| "run_call (CallSingleDelete cf k) b = SingleDelete cf k b"
| "run_call (CallDeleteRange cf k e) b = DeleteRange cf k e b"
| "run_call (CallMerge cf k v) b = Merge cf k v b"
| "run_call (CallPutLogData blob) b = PutLogData blob b"
| "run_call CallInsertNoop b = InsertNoop b"
| "run_call (CallMarkEndPrepare xid) b = MarkEndPrepare xid b"
| "run_call (CallMarkCommit xid) b = MarkCommit xid b"
| "run_call (CallMarkRollback xid) b = MarkRollback xid b"
| "run_call CallSetSavePoint b = (OK, SetSavePoint b)"
| "run_call CallRollbackToSavePoint b = RollbackToSavePoint b"
| "run_call CallPopSavePoint b = PopSavePoint b"
| "run_call CallMarkWalTerminationPoint b = (OK, MarkWalTerminationPoint b)"
| "run_call CallClear b = (OK, Clear b)"
| "run_call (CallSetSequence seq) b = (OK, SetSequence seq b)"

definition spec_add :: "WriteOp \<Rightarrow> batch_spec \<Rightarrow> batch_spec" where
  "spec_add op sp = sp\<lparr>spec_ops := spec_ops sp @ [op]\<rparr>"

definition spec_limited :: "nat \<Rightarrow> WriteOp \<Rightarrow> batch_spec \<Rightarrow> Status \<times> batch_spec" where
  "spec_limited limit op sp =
     (if limit \<noteq> 0 \<and> kHeader + length (ops_bytes (spec_ops sp @ [op])) > limit then (MemoryLimit, sp)
      else (OK, spec_add op sp))"

fun spec_call :: "nat \<Rightarrow> BatchCall \<Rightarrow> batch_spec \<Rightarrow> Status \<times> batch_spec" where
  "spec_call limit (CallPut cf k v) sp = spec_limited limit (PutOp cf k v) sp"
| "spec_call limit (CallDelete cf k) sp = spec_limited limit (DeleteOp cf k) sp"
| "spec_call limit (CallSingleDelete cf k) sp = spec_limited limit (SingleDeleteOp cf k) sp"
| "spec_call limit (CallDeleteRange cf k e) sp = spec_limited limit (DeleteRangeOp cf k e) sp"
| "spec_call limit (CallMerge cf k v) sp = spec_limited limit (MergeOp cf k v) sp"
| "spec_call limit (CallPutLogData blob) sp = spec_limited limit (LogDataOp blob) sp"
| "spec_call limit CallInsertNoop sp = (OK, spec_add NoopOp sp)"
| "spec_call limit (CallMarkEndPrepare xid) sp =
     (OK, sp\<lparr>spec_ops := (BeginPrepareOp # tl (spec_ops sp)) @ [EndPrepareOp xid], spec_saves := []\<rparr>)"
| "spec_call limit (CallMarkCommit xid) sp = (OK, spec_add (CommitOp xid) sp)"
| "spec_call limit (CallMarkRollback xid) sp = (OK, spec_add (RollbackOp xid) sp)"
| "spec_call limit CallSetSavePoint sp = (OK, sp\<lparr>spec_saves := spec_ops sp # spec_saves sp\<rparr>)"
| "spec_call limit CallRollbackToSavePoint sp =
     (case spec_saves sp of [] \<Rightarrow> (NotFound, sp) | ops # saves \<Rightarrow> (OK, sp\<lparr>spec_ops := ops, spec_saves := saves\<rparr>))"
| "spec_call limit CallPopSavePoint sp =
     (case spec_saves sp of [] \<Rightarrow> (NotFound, sp) | ops # saves \<Rightarrow> (OK, sp\<lparr>spec_saves := saves\<rparr>))"
| "spec_call limit CallMarkWalTerminationPoint sp = (OK, sp\<lparr>spec_wal := Some (spec_ops sp)\<rparr>)"
| "spec_call limit CallClear sp = (OK, \<lparr>spec_seq = 0, spec_ops = [], spec_saves = [], spec_wal = None\<rparr>)"
| "spec_call limit (CallSetSequence seq) sp = (OK, sp\<lparr>spec_seq := seq\<rparr>)"

text \<open>The strings fit their length prefix, and a prepared section closes the batch's leading no-op, as
  \<open>MarkEndPrepare\<close> asserts.\<close>

fun call_ok :: "BatchCall \<Rightarrow> batch_spec \<Rightarrow> bool" where
  "call_ok (CallPut cf k v) sp \<longleftrightarrow> short k \<and> short v"
| "call_ok (CallDelete cf k) sp \<longleftrightarrow> short k"
| "call_ok (CallSingleDelete cf k) sp \<longleftrightarrow> short k"
| "call_ok (CallDeleteRange cf k e) sp \<longleftrightarrow> short k \<and> short e"
| "call_ok (CallMerge cf k v) sp \<longleftrightarrow> short k \<and> short v"
| "call_ok (CallPutLogData blob) sp \<longleftrightarrow> short blob"
| "call_ok (CallMarkEndPrepare xid) sp \<longleftrightarrow> short xid \<and> take 1 (spec_ops sp) = [NoopOp]"
| "call_ok (CallMarkCommit xid) sp \<longleftrightarrow> short xid"
| "call_ok (CallMarkRollback xid) sp \<longleftrightarrow> short xid"
| "call_ok _ sp \<longleftrightarrow> True"

lemma batch_bytes_parts [simp]:
  "length (batch_bytes seq ops) = kHeader + length (ops_bytes ops)"
  "drop kHeader (batch_bytes seq ops) = ops_bytes ops"
  "rep b = batch_bytes seq ops \<Longrightarrow> Count b = word_of_nat (ops_count ops)"
  "rep b = batch_bytes seq ops \<Longrightarrow> Sequence b = seq"
  by (simp_all add: batch_bytes_def Count_def Sequence_def)

lemma memcpy_header:
  "memcpy (batch_bytes seq ops @ body) 8 (EncodeFixed32 n) = EncodeFixed64 seq @ EncodeFixed32 n @ ops_bytes ops @ body"
  "memcpy (batch_bytes seq ops) 8 (EncodeFixed32 n) = EncodeFixed64 seq @ EncodeFixed32 n @ ops_bytes ops"
  "memcpy (batch_bytes seq ops) 0 (EncodeFixed64 seq') = batch_bytes seq' ops"
  by (simp_all add: memcpy_def batch_bytes_def)

lemma take_prefix:
  assumes "prefix ops' ops"
  shows "memcpy (take (kHeader + length (ops_bytes ops')) (batch_bytes seq ops)) 8
      (EncodeFixed32 (word_of_nat (ops_count ops'))) = batch_bytes seq ops'"
  using assms by (auto simp: prefix_def memcpy_def batch_bytes_def)

lemma LocalSavePoint_point:
  "represents b sp \<Longrightarrow> LocalSavePoint b = point_of (spec_ops sp)"
  by (simp add: represents_def LocalSavePoint_def point_of_def GetDataSize_def)

text \<open>Adding a record under the size limit, and taking it back.\<close>

lemma commit_added:
  assumes b: "represents b sp" and op: "op_short op"
    and b': "b' = b\<lparr>rep := batch_bytes (spec_seq sp) (spec_ops sp @ [op]),
                   content_flags := ops_flags (spec_ops sp @ [op])\<rparr>"
  shows "\<exists>r. commit (LocalSavePoint b) b' = (fst (spec_limited (max_bytes b) op sp), r)
     \<and> represents r (snd (spec_limited (max_bytes b) op sp)) \<and> max_bytes r = max_bytes b"
proof (cases "max_bytes b \<noteq> 0 \<and> kHeader + length (ops_bytes (spec_ops sp @ [op])) > max_bytes b")
  case True
  have "commit (LocalSavePoint b) b' = (MemoryLimit, b)"
    using True b unfolding LocalSavePoint_point [OF b]
    by (simp add: commit_def b' point_of_def Let_def SetCount_def represents_def
        take_prefix [of "spec_ops sp" "spec_ops sp @ [op]"])
  then show ?thesis
    using True b by (simp add: spec_limited_def)
next
  case False
  have "represents b' (spec_add op sp)"
    using b op by (auto simp: represents_def b' spec_add_def)
  moreover have "commit (LocalSavePoint b) b' = (OK, b')"
    using False by (auto simp: commit_def b')
  ultimately show ?thesis
    using False by (auto simp: spec_limited_def b')
qed

lemmas append_simps = Let_def SetCount_def push_tag_def push_slice_def add_flags_def memcpy_header
  batch_bytes_def PutVarint32_def PutLengthPrefixedSlice_def varstring_def tag_bytes_def

definition added :: "WriteOp \<Rightarrow> batch_spec \<Rightarrow> WriteBatch \<Rightarrow> WriteBatch" where
  "added op sp b = b\<lparr>rep := batch_bytes (spec_seq sp) (spec_ops sp @ [op]),
                     content_flags := ops_flags (spec_ops sp @ [op])\<rparr>"

lemma counted_header:
  assumes "represents b sp"
  shows "SetCount (Count b + 1) b =
      b\<lparr>rep := EncodeFixed64 (spec_seq sp) @ EncodeFixed32 (word_of_nat (Suc (ops_count (spec_ops sp))))
              @ ops_bytes (spec_ops sp)\<rparr>"
  using assms by (simp add: represents_def SetCount_def memcpy_header add.commute)

lemma updates_add:
  assumes "represents b sp"
  shows "Put cf k v b = commit (LocalSavePoint b) (added (PutOp cf k v) sp b)"
    "Delete cf k b = commit (LocalSavePoint b) (added (DeleteOp cf k) sp b)"
    "SingleDelete cf k b = commit (LocalSavePoint b) (added (SingleDeleteOp cf k) sp b)"
    "DeleteRange cf k e b = commit (LocalSavePoint b) (added (DeleteRangeOp cf k e) sp b)"
    "Merge cf k v b = commit (LocalSavePoint b) (added (MergeOp cf k v) sp b)"
    "PutLogData v b = commit (LocalSavePoint b) (added (LogDataOp v) sp b)"
    "InsertNoop b = (OK, added NoopOp sp b)"
    "MarkCommit v b = (OK, added (CommitOp v) sp b)"
    "MarkRollback v b = (OK, added (RollbackOp v) sp b)"
proof -
  have flags: "b\<lparr>rep := x, content_flags := ops_flags (spec_ops sp)\<rparr> = b\<lparr>rep := x\<rparr>" for x
    using assms by (simp add: represents_def)
  note defs = Put_def Delete_def SingleDelete_def DeleteRange_def Merge_def PutLogData_def InsertNoop_def
    MarkCommit_def MarkRollback_def counted_header [OF assms]
  show "Put cf k v b = commit (LocalSavePoint b) (added (PutOp cf k v) sp b)"
    "Delete cf k b = commit (LocalSavePoint b) (added (DeleteOp cf k) sp b)"
    "SingleDelete cf k b = commit (LocalSavePoint b) (added (SingleDeleteOp cf k) sp b)"
    "DeleteRange cf k e b = commit (LocalSavePoint b) (added (DeleteRangeOp cf k e) sp b)"
    "Merge cf k v b = commit (LocalSavePoint b) (added (MergeOp cf k v) sp b)"
    "PutLogData v b = commit (LocalSavePoint b) (added (LogDataOp v) sp b)"
    "InsertNoop b = (OK, added NoopOp sp b)"
    "MarkCommit v b = (OK, added (CommitOp v) sp b)"
    "MarkRollback v b = (OK, added (RollbackOp v) sp b)"
    unfolding defs using assms by (simp_all add: append_simps added_def represents_def flags)
qed

lemma represents_added: "represents b sp \<Longrightarrow> op_short op \<Longrightarrow> represents (added op sp b) (spec_add op sp)"
  by (auto simp: represents_def added_def spec_add_def)

lemma limited_refines:
  assumes "represents b sp" "op_short op"
  shows "\<exists>r. commit (LocalSavePoint b) (added op sp b) = (fst (spec_limited (max_bytes b) op sp), r)
     \<and> represents r (snd (spec_limited (max_bytes b) op sp)) \<and> max_bytes r = max_bytes b"
  using assms by (rule commit_added) (rule added_def)

lemma max_bytes_added [simp]: "max_bytes (added op sp b) = max_bytes b"
  by (simp add: added_def)

lemma represents_RollbackToSavePoint:
  assumes "represents b sp"
  shows "\<exists>r. RollbackToSavePoint b = (fst (spec_call n CallRollbackToSavePoint sp), r)
     \<and> represents r (snd (spec_call n CallRollbackToSavePoint sp)) \<and> max_bytes r = max_bytes b"
proof (cases "spec_saves sp")
  case Nil
  then show ?thesis
    using assms by (simp add: RollbackToSavePoint_def represents_def)
next
  case (Cons ops saves)
  have pre: "prefix ops (spec_ops sp)"
    using assms by (simp add: represents_def Cons)
  have eq: "ops = spec_ops sp" if "length (ops_bytes ops) = length (ops_bytes (spec_ops sp))"
  proof -
    obtain zs where zs: "spec_ops sp = ops @ zs"
      using pre by (auto simp: prefix_def)
    have "ops_bytes zs = []"
      using that by (simp add: zs)
    then have "zs = []"
      by (cases zs) simp_all
    then show ?thesis
      by (simp add: zs)
  qed
  show ?thesis
    using assms eq take_prefix [OF pre, of "spec_seq sp"]
    by (auto simp: RollbackToSavePoint_def represents_def Cons point_of_def SetCount_def Let_def
        list_all_iff dest: set_mono_prefix [OF pre, THEN subsetD])
qed

lemma represents_MarkEndPrepare:
  assumes "represents b sp" "call_ok (CallMarkEndPrepare xid) sp"
  shows "\<exists>r. MarkEndPrepare xid b = (OK, r)
     \<and> represents r (snd (spec_call n (CallMarkEndPrepare xid) sp)) \<and> max_bytes r = max_bytes b"
proof -
  obtain ops where ops: "spec_ops sp = NoopOp # ops"
    using assms(2) by (cases "spec_ops sp") auto
  have "(batch_bytes (spec_seq sp) (NoopOp # ops))[12 := kTypeBeginPrepareXID] =
      batch_bytes (spec_seq sp) (BeginPrepareOp # ops)"
    by (simp add: batch_bytes_def list_update_append)
  moreover have "ops_flags ops OR (HAS_END_PREPARE OR HAS_BEGIN_PREPARE) =
      HAS_BEGIN_PREPARE OR ops_flags ops OR HAS_END_PREPARE"
    by (simp add: or.left_commute or.commute or.assoc)
  ultimately show ?thesis
    using assms by (auto simp: MarkEndPrepare_def represents_def ops append_simps)
qed

lemma empty_batch: "replicate kHeader 0 = batch_bytes 0 []"
  by (simp add: batch_bytes_def EncodeFixed32_def EncodeFixed64_def object_bytes_def kLittleEndian_def upt_rec
      eval_nat_numeral)

lemma call_refines:
  assumes "represents b sp" "call_ok c sp"
  shows "\<exists>b'. run_call c b = (fst (spec_call (max_bytes b) c sp), b')
     \<and> represents b' (snd (spec_call (max_bytes b) c sp)) \<and> max_bytes b' = max_bytes b"
proof (cases c)
  case CallRollbackToSavePoint
  then show ?thesis
    using represents_RollbackToSavePoint [OF assms(1)] by simp
next
  case (CallMarkEndPrepare xid)
  then show ?thesis
    using represents_MarkEndPrepare [OF assms(1)] assms(2) by simp
next
  case CallClear
  then show ?thesis
    by (simp add: Clear_def represents_def empty_batch)
next
  case CallPopSavePoint
  then show ?thesis
    using assms(1) by (cases "spec_saves sp") (auto simp: PopSavePoint_def represents_def)
next
  case CallSetSavePoint
  then show ?thesis
    using assms(1) by (auto simp: SetSavePoint_def represents_def point_of_def GetDataSize_def)
next
  case CallMarkWalTerminationPoint
  then show ?thesis
    using assms(1) by (simp add: MarkWalTerminationPoint_def represents_def point_of_def GetDataSize_def)
next
  case (CallSetSequence seq)
  then show ?thesis
    using assms(1) by (simp add: SetSequence_def represents_def memcpy_header)
qed (use assms in \<open>simp_all add: updates_add [OF assms(1)] limited_refines represents_added\<close>)

text \<open>The overloads that gather a key or a value from parts append the same bytes.\<close>

lemma parts_eq:
  "PutParts cf ks vs = Put cf (concat ks) (concat vs)"
  "DeleteParts cf ks = Delete cf (concat ks)"
  "SingleDeleteParts cf ks = SingleDelete cf (concat ks)"
  "DeleteRangeParts cf ks es = DeleteRange cf (concat ks) (concat es)"
  "MergeParts cf ks vs = Merge cf (concat ks) (concat vs)"
proof -
  have "push_parts = push_slice \<circ> concat"
    by (simp add: fun_eq_iff push_parts_def push_slice_def PutLengthPrefixedSliceParts_eq)
  then show "PutParts cf ks vs = Put cf (concat ks) (concat vs)"
    "DeleteParts cf ks = Delete cf (concat ks)"
    "SingleDeleteParts cf ks = SingleDelete cf (concat ks)"
    "DeleteRangeParts cf ks es = DeleteRange cf (concat ks) (concat es)"
    "MergeParts cf ks vs = Merge cf (concat ks) (concat vs)"
    by (simp_all add: fun_eq_iff PutParts_def Put_def DeleteParts_def Delete_def SingleDeleteParts_def
        SingleDelete_def DeleteRangeParts_def DeleteRange_def MergeParts_def Merge_def)
qed

section \<open>Sequences of calls\<close>

fun run_calls :: "BatchCall list \<Rightarrow> WriteBatch \<Rightarrow> Status list \<times> WriteBatch" where
  "run_calls [] b = ([], b)"
| "run_calls (c # cs) b =
     (case run_call c b of (st, b) \<Rightarrow> (case run_calls cs b of (sts, b) \<Rightarrow> (st # sts, b)))"

fun spec_calls :: "nat \<Rightarrow> BatchCall list \<Rightarrow> batch_spec \<Rightarrow> Status list \<times> batch_spec" where
  "spec_calls limit [] sp = ([], sp)"
| "spec_calls limit (c # cs) sp =
     (case spec_call limit c sp of (st, sp) \<Rightarrow> (case spec_calls limit cs sp of (sts, sp) \<Rightarrow> (st # sts, sp)))"

fun calls_ok :: "nat \<Rightarrow> BatchCall list \<Rightarrow> batch_spec \<Rightarrow> bool" where
  "calls_ok limit [] sp \<longleftrightarrow> True"
| "calls_ok limit (c # cs) sp \<longleftrightarrow> call_ok c sp \<and> calls_ok limit cs (snd (spec_call limit c sp))"

definition empty_spec :: batch_spec where
  "empty_spec = \<lparr>spec_seq = 0, spec_ops = [], spec_saves = [], spec_wal = None\<rparr>"

lemma represents_new: "represents (new_WriteBatch limit) empty_spec"
  by (simp add: represents_def new_WriteBatch_def empty_spec_def empty_batch)

lemma run_calls_refine:
  assumes "represents b sp" "calls_ok (max_bytes b) cs sp"
  shows "fst (run_calls cs b) = fst (spec_calls (max_bytes b) cs sp)
     \<and> represents (snd (run_calls cs b)) (snd (spec_calls (max_bytes b) cs sp))
     \<and> max_bytes (snd (run_calls cs b)) = max_bytes b"
  using assms
proof (induction cs arbitrary: b sp)
  case (Cons c cs)
  obtain b' where b': "run_call c b = (fst (spec_call (max_bytes b) c sp), b')"
    "represents b' (snd (spec_call (max_bytes b) c sp))" "max_bytes b' = max_bytes b"
    using call_refines [OF Cons.prems(1), of c] Cons.prems(2) by auto
  show ?case
    using Cons.IH [OF b'(2)] Cons.prems(2) b'(1,3) by (simp add: split_def)
qed simp

text \<open>What \<open>Iterate\<close> returns for a list of updates: a handler that fails ends it with its status, and one
  that stops it before an update that counts makes it report corruption.\<close>

definition replay_result :: "'s Handler \<Rightarrow> WriteOp list \<Rightarrow> 's \<Rightarrow> Status \<times> 's" where
  "replay_result h ops s =
     (case replay h ops s of (st, s, rest) \<Rightarrow>
        (if \<not> ok st then st
         else if ops_count rest mod 2 ^ 32 \<noteq> 0 then Corruption ''WriteBatch has wrong count''
         else OK, s))"

lemma word_of_nat_diff_eq:
  assumes "m \<le> n"
  shows "word_of_nat (n - m) = (word_of_nat n :: u32) \<longleftrightarrow> m mod 2 ^ 32 = 0"
proof -
  have "word_of_nat (n - m) = (word_of_nat n :: u32) \<longleftrightarrow> (word_of_nat m :: u32) = 0"
    using assms by (simp add: of_nat_diff)
  also have "\<dots> \<longleftrightarrow> m mod 2 ^ 32 = 0"
    by (simp add: word_of_nat_eq_0_iff dvd_eq_mod_eq_0)
  finally show ?thesis .
qed

lemma Iterate_replay:
  assumes "rep b = batch_bytes seq ops" "list_all op_short ops"
  shows "Iterate h b s = replay_result h ops s"
proof -
  obtain st s' rest where r: "replay h ops s = (st, s', rest)"
    by (cases "replay h ops s")
  show ?thesis
    using word_of_nat_diff_eq [OF replay_rest [OF r]]
    by (simp add: Iterate_def assms Iterate_loop_replay r replay_result_def)
qed

lemma replay_classifier:
  "replay BatchContentClassifier ops f = (OK, f OR ops_flags ops, [])"
proof (induction ops arbitrary: f)
  case (Cons op ops)
  have "deliver BatchContentClassifier op f = (OK, f OR op_flag op)"
    by (cases op) (simp_all add: BatchContentClassifier_def)
  then show ?case
    using Cons by (simp add: or.assoc) (simp add: BatchContentClassifier_def)
qed (simp add: BatchContentClassifier_def)

lemma flag_bits: "bit (ops_flags ops) n \<longleftrightarrow> (\<exists>op\<in>set ops. bit (op_flag op) n)"
  by (induction ops) (simp_all add: bit_simps)

lemma and_flag: "w AND push_bit n 1 = 0 \<longleftrightarrow> \<not> bit w n" for w :: u32
  using and_exp_eq_0_iff_not_bit [of w n] by (simp add: push_bit_eq_mult)

lemma Compute_flags:
  assumes "rep b = batch_bytes seq ops" "list_all op_short ops"
    "content_flags b = ops_flags ops \<or> bit (content_flags b) 0"
  shows "fst (ComputeContentFlags b) = ops_flags ops"
  using assms(3) and_flag [of "content_flags b" 0]
  by (auto simp: ComputeContentFlags_def Iterate_replay [OF assms(1,2)] replay_result_def replay_classifier Let_def)

lemma bit_flag: "bit (push_bit m 1 :: u32) n \<longleftrightarrow> n < 32 \<and> n = m"
  unfolding push_bit_of_1 bit_exp_iff by auto

lemma op_flag_bits:
  "bit (op_flag op) 1 \<longleftrightarrow> is_PutOp op" "bit (op_flag op) 2 \<longleftrightarrow> is_DeleteOp op"
  "bit (op_flag op) 3 \<longleftrightarrow> is_SingleDeleteOp op" "bit (op_flag op) 4 \<longleftrightarrow> is_MergeOp op"
  "bit (op_flag op) 5 \<longleftrightarrow> op = BeginPrepareOp" "bit (op_flag op) 6 \<longleftrightarrow> is_EndPrepareOp op"
  "bit (op_flag op) 7 \<longleftrightarrow> is_CommitOp op" "bit (op_flag op) 8 \<longleftrightarrow> is_RollbackOp op"
  "bit (op_flag op) 9 \<longleftrightarrow> is_DeleteRangeOp op"
  by (cases op; simp only: op_flag.simps bit_flag; simp)+

lemmas Has_defs = HasPut_def HasDelete_def HasSingleDelete_def HasDeleteRange_def HasMerge_def
  HasBeginPrepare_def HasEndPrepare_def HasCommit_def HasRollback_def

section \<open>Properties\<close>

text \<open>C4: A batch built by any sequence of calls (updates, log data, transaction markers, save points,
  rollbacks, \<open>Clear\<close>) returns the statuses of the specification on lists of updates, \<open>MemoryLimit\<close>
  included, and \<open>Iterate\<close> then delivers exactly the updates that the specification keeps, in order.\<close>

theorem WriteBatch_replays:
  assumes "calls_ok limit cs empty_spec"
  shows "fst (run_calls cs (new_WriteBatch limit)) = fst (spec_calls limit cs empty_spec)
    \<and> Iterate h (snd (run_calls cs (new_WriteBatch limit))) s
      = replay_result h (spec_ops (snd (spec_calls limit cs empty_spec))) s"
proof -
  have limit: "max_bytes (new_WriteBatch limit) = limit"
    by (simp add: new_WriteBatch_def)
  note r = run_calls_refine [OF represents_new, of limit cs, unfolded limit, OF assms]
  show ?thesis
    using r by (auto simp: represents_def intro: Iterate_replay)
qed

definition example_calls :: "BatchCall list" where
  "example_calls = [CallPut 0 [1] [2], CallSetSavePoint, CallDelete 7 [1], CallRollbackToSavePoint, CallMerge 3 [4] [5],
     CallPut 0 [6] (replicate 20 0)]"

lemmas example_simps = example_calls_def empty_spec_def spec_limited_def spec_add_def varstring_def tag_bytes_def
  EncodeVarint32_def Let_def

lemma WriteBatch_replays_witness:
  "fst (run_calls example_calls (new_WriteBatch 40)) = [OK, OK, OK, OK, OK, MemoryLimit]
   \<and> Iterate BatchContentClassifier (snd (run_calls example_calls (new_WriteBatch 40))) 0 = (OK, HAS_PUT OR HAS_MERGE)"
proof -
  have ok: "calls_ok 40 example_calls empty_spec"
    by (simp add: example_simps short_def)
  have spec: "spec_calls 40 example_calls empty_spec =
      ([OK, OK, OK, OK, OK, MemoryLimit], empty_spec\<lparr>spec_ops := [PutOp 0 [1] [2], MergeOp 3 [4] [5]]\<rparr>)"
    by (simp add: example_simps)
  have "replay_result BatchContentClassifier [PutOp 0 [1] [2], MergeOp 3 [4] [5]] 0 = (OK, HAS_PUT OR HAS_MERGE)"
    by (simp add: replay_result_def replay_classifier del: replay.simps)
  then show ?thesis
    using WriteBatch_replays [OF ok, of BatchContentClassifier 0] by (simp add: spec)
qed

text \<open>C35: The content flags are exact: for a batch that the calls built, and for one whose contents were
  set from such a batch's bytes (where the flags are computed on demand), each \<open>Has\<close> query holds iff the
  batch has an update of that kind.\<close>

theorem content_flags_exact:
  assumes "represents b sp" "c = b \<or> c = WriteBatch_of_rep (rep b) \<or> c = snd (SetContents (rep b) b)"
  shows "(HasPut c \<longleftrightarrow> list_ex is_PutOp (spec_ops sp))
    \<and> (HasDelete c \<longleftrightarrow> list_ex is_DeleteOp (spec_ops sp))
    \<and> (HasSingleDelete c \<longleftrightarrow> list_ex is_SingleDeleteOp (spec_ops sp))
    \<and> (HasDeleteRange c \<longleftrightarrow> list_ex is_DeleteRangeOp (spec_ops sp))
    \<and> (HasMerge c \<longleftrightarrow> list_ex is_MergeOp (spec_ops sp))
    \<and> (HasBeginPrepare c \<longleftrightarrow> list_ex (\<lambda>op. op = BeginPrepareOp) (spec_ops sp))
    \<and> (HasEndPrepare c \<longleftrightarrow> list_ex is_EndPrepareOp (spec_ops sp))
    \<and> (HasCommit c \<longleftrightarrow> list_ex is_CommitOp (spec_ops sp))
    \<and> (HasRollback c \<longleftrightarrow> list_ex is_RollbackOp (spec_ops sp))"
proof -
  have "fst (ComputeContentFlags c) = ops_flags (spec_ops sp)"
    using assms by (intro Compute_flags [of c "spec_seq sp"])
      (auto simp: represents_def WriteBatch_of_rep_def SetContents_def bit_simps)
  then show ?thesis
    unfolding Has_defs and_flag by (simp_all add: flag_bits op_flag_bits [unfolded One_nat_def] list_ex_iff)
qed

lemma content_flags_exact_witness:
  "HasPut (new_WriteBatch 0) = False \<and> HasPut (WriteBatch_of_rep (rep (added (PutOp 0 [1] [2]) empty_spec (new_WriteBatch 0))))"
proof -
  have r: "represents (added (PutOp 0 [1] [2]) empty_spec (new_WriteBatch 0)) (spec_add (PutOp 0 [1] [2]) empty_spec)"
    by (rule represents_added [OF represents_new]) (simp add: short_def)
  show ?thesis
    using content_flags_exact [OF represents_new [of 0] disjI1 [OF refl]] content_flags_exact [OF r disjI2 [OF disjI1 [OF refl]]]
    by (simp add: empty_spec_def spec_add_def)
qed

text \<open>C36: Appending one batch to another concatenates their updates; with \<open>wal_only\<close> only those up to the
  source's termination point are appended.  The result has the size \<open>AppendedByteSize\<close> predicts.\<close>

theorem Append_concatenates:
  assumes "represents dst spd" "represents src sps"
    "\<And>w. spec_wal sps = Some w \<Longrightarrow> prefix w (spec_ops sps)"
    and tail: "tail = (case spec_wal sps of Some w \<Rightarrow> if wal_only then w else spec_ops sps | None \<Rightarrow> spec_ops sps)"
  shows "fst (Append dst src wal_only) = OK
    \<and> represents (snd (Append dst src wal_only)) (spd\<lparr>spec_ops := spec_ops spd @ tail\<rparr>)
    \<and> (tail = spec_ops sps \<longrightarrow>
      length (rep (snd (Append dst src wal_only))) = AppendedByteSize (length (rep dst)) (length (rep src)))"
proof -
  have cleared: "is_cleared (wal_term_point src) \<longleftrightarrow> spec_wal sps = None"
    using assms(2) by (cases "spec_wal sps")
      (auto simp: represents_def is_cleared_def SavePoint_clear_def point_of_def)
  have pre: "prefix tail (spec_ops sps)"
    using assms(3) by (cases "spec_wal sps") (auto simp: tail)
  then have short: "list_all op_short tail"
    using assms(2) by (auto simp: represents_def list_all_iff dest: set_mono_prefix [THEN subsetD])
  have eq: "snd (Append dst src wal_only) =
      dst\<lparr>rep := batch_bytes (spec_seq spd) (spec_ops spd @ tail), content_flags := ops_flags (spec_ops spd @ tail)\<rparr>"
  proof (cases "wal_only \<and> spec_wal sps \<noteq> None")
    case True
    then obtain w where w: "spec_wal sps = Some w" "tail = w"
      by (auto simp: tail)
    obtain zs where zs: "spec_ops sps = w @ zs"
      using assms(3) [OF w(1)] by (auto simp: prefix_def)
    show ?thesis
      using True assms(1,2) cleared w zs
      by (simp add: Append_def represents_def point_of_def SetCount_def add_flags_def memcpy_header Let_def)
        (simp add: batch_bytes_def)
  next
    case False
    then have "tail = spec_ops sps"
      by (auto simp: tail split: option.splits)
    then show ?thesis
      using False assms(1,2) cleared
      by (auto simp: Append_def represents_def SetCount_def add_flags_def memcpy_header Let_def)
        (simp_all add: batch_bytes_def)
  qed
  have "fst (Append dst src wal_only) = OK"
    by (simp add: Append_def split_def Let_def)
  moreover have "represents (snd (Append dst src wal_only)) (spd\<lparr>spec_ops := spec_ops spd @ tail\<rparr>)"
    using assms(1) short unfolding eq by (auto simp: represents_def)
  moreover have "tail = spec_ops sps \<longrightarrow>
      length (rep (snd (Append dst src wal_only))) = AppendedByteSize (length (rep dst)) (length (rep src))"
    using assms(1,2) unfolding eq by (simp add: represents_def AppendedByteSize_def)
  ultimately show ?thesis
    by blast
qed

lemma Append_concatenates_witness:
  "spec_ops (empty_spec\<lparr>spec_ops := spec_ops empty_spec @ [PutOp 0 [1] [2]]\<rparr>) = [PutOp 0 [1] [2]]
   \<and> represents
      (snd (Append (new_WriteBatch 0)
        (snd (run_calls [CallPut 0 [1] [2], CallMarkWalTerminationPoint, CallDelete 0 [3]] (new_WriteBatch 0))) True))
      (empty_spec\<lparr>spec_ops := spec_ops empty_spec @ [PutOp 0 [1] [2]]\<rparr>)"
proof -
  let ?cs = "[CallPut 0 [1] [2], CallMarkWalTerminationPoint, CallDelete 0 [3]]"
  have "calls_ok (max_bytes (new_WriteBatch 0)) ?cs empty_spec"
    by (simp add: short_def)
  then have r: "represents (snd (run_calls ?cs (new_WriteBatch 0)))
      \<lparr>spec_seq = 0, spec_ops = [PutOp 0 [1] [2], DeleteOp 0 [3]], spec_saves = [], spec_wal = Some [PutOp 0 [1] [2]]\<rparr>"
    using run_calls_refine [OF represents_new, of 0 ?cs]
    by (simp add: new_WriteBatch_def spec_limited_def spec_add_def empty_spec_def)
  show ?thesis
    using Append_concatenates [OF represents_new r, where wal_only = True and tail = "[PutOp 0 [1] [2]]"]
    by (simp add: empty_spec_def)
qed

text \<open>The termination point is not moved by a rollback: here it lies past the end of the batch, and
  \<open>Append\<close> with \<open>wal_only\<close> would copy bytes from behind the string.\<close>

lemma wal_point_past_end:
  "let b = snd (run_calls [CallSetSavePoint, CallPut 0 [1] [2], CallMarkWalTerminationPoint, CallRollbackToSavePoint]
                  (new_WriteBatch 0))
   in length (rep b) < sp_size (wal_term_point b)"
  by code_simp

text \<open>A handler that halts the iteration, as the interface allows, makes \<open>Iterate\<close> report a corrupt
  batch.\<close>

lemma halted_iteration_is_corruption:
  assumes "rep b = batch_bytes seq ops" "list_all op_short ops" "\<not> Continue h s" "0 < ops_count ops"
    "ops_count ops < 2 ^ 32"
  shows "Iterate h b s = (Corruption ''WriteBatch has wrong count'', s)"
proof -
  have "replay h ops s = (OK, s, ops)"
    using assms(3) by (cases ops) simp_all
  then show ?thesis
    using assms(4,5) by (simp add: Iterate_replay [OF assms(1,2)] replay_result_def)
qed

end
