(* ===== verification/Key_Order.thy ===== *)
theory Key_Order
  imports Dbformat "HOL-Library.List_Lexorder" "HOL-Library.Product_Lexorder"
begin

text \<open>
  What the components that sort and search keys need of a comparator: a rank of keys in a linear order
  that the comparator decides.  The locale \<open>ranked\<close> states it; the bytewise and the reverse comparator
  have such ranks, and the internal-key comparator over a ranked comparator has one.  The proofs of the
  components are then proofs about linear orders.
\<close>

section \<open>The reversed order\<close>

datatype 'a descending = Desc (ascend: 'a)

instantiation descending :: (linorder) linorder
begin

definition less_eq_descending :: "'a descending \<Rightarrow> 'a descending \<Rightarrow> bool" where
  "less_eq_descending a b \<longleftrightarrow> ascend b \<le> ascend a"

definition less_descending :: "'a descending \<Rightarrow> 'a descending \<Rightarrow> bool" where
  "less_descending a b \<longleftrightarrow> ascend b < ascend a"

instance
  by standard (auto simp: less_eq_descending_def less_descending_def descending.expand)

end

lemma Desc_order [simp]:
  "Desc a \<le> Desc b \<longleftrightarrow> b \<le> a" "Desc a < Desc b \<longleftrightarrow> b < a" for a b :: "'a::linorder"
  by (simp_all add: less_eq_descending_def less_descending_def)

section \<open>Ranked comparators\<close>

locale ranked =
  fixes Compare :: "'k \<Rightarrow> 'k \<Rightarrow> int" and rank :: "'k \<Rightarrow> 'o::linorder"
  assumes Compare_less: "Compare a b < 0 \<longleftrightarrow> rank a < rank b"
    and Compare_greater: "0 < Compare a b \<longleftrightarrow> rank b < rank a"
begin

lemma Compare_le: "Compare a b \<le> 0 \<longleftrightarrow> rank a \<le> rank b"
  using Compare_greater [of a b] by (simp add: linorder_not_less [symmetric])

lemma Compare_ge: "0 \<le> Compare a b \<longleftrightarrow> rank b \<le> rank a"
  using Compare_less [of a b] by (simp add: linorder_not_less [symmetric])

lemma Compare_eq: "Compare a b = 0 \<longleftrightarrow> rank a = rank b"
  using Compare_le [of a b] Compare_ge [of a b] by auto

lemmas Compare_rank = Compare_less Compare_greater Compare_le Compare_ge Compare_eq

end

lemma lex_compare_less: "lex_compare a b < 0 \<longleftrightarrow> a < b"
  by (induction a b rule: lex_compare.induct) auto

interpretation bytewise_rank: ranked BytewiseComparator_Compare "\<lambda>k. k"
proof
  show "BytewiseComparator_Compare a b < 0 \<longleftrightarrow> a < b" for a b
    by (simp add: comparator_defs lex_compare_less)
  show "0 < BytewiseComparator_Compare a b \<longleftrightarrow> b < a" for a b
    using lex_compare_flip [of b a] lex_compare_less [of b a] by (simp add: comparator_defs)
qed

interpretation reverse_rank: ranked ReverseBytewiseComparator_Compare Desc
proof
  show "ReverseBytewiseComparator_Compare a b < 0 \<longleftrightarrow> Desc a < Desc b" for a b
    using lex_compare_flip [of b a] lex_compare_less [of b a] by (simp add: comparator_defs)
  show "0 < ReverseBytewiseComparator_Compare a b \<longleftrightarrow> Desc b < Desc a" for a b
    using lex_compare_flip [of a b] lex_compare_less [of a b] by (simp add: comparator_defs)
qed

text \<open>User keys ascend, and the versions of a user key descend by sequence number and type.\<close>

definition internal_rank :: "(bytes \<Rightarrow> 'o) \<Rightarrow> bytes \<Rightarrow> 'o \<times> u64 descending" where
  "internal_rank rank k = (rank (ExtractUserKey k), Desc (internal_key_num k))"

lemma internal_ranked:
  assumes "ranked ucmp rank"
  shows "ranked (InternalKeyComparator_Compare ucmp) (internal_rank rank)"
proof -
  note r = ranked.Compare_rank [OF assms]
  show ?thesis
    by unfold_locales (auto simp: InternalKeyComparator_Compare_def internal_rank_def r Let_def)
qed

text \<open>A ranked user comparator, with the internal keys over it.\<close>

locale user_order = ranked ucmp rank
  for ucmp :: "bytes \<Rightarrow> bytes \<Rightarrow> int" and rank :: "bytes \<Rightarrow> 'o::linorder"

sublocale user_order \<subseteq> internal: ranked "InternalKeyComparator_Compare ucmp" "internal_rank rank"
  by (rule internal_ranked) unfold_locales

interpretation bytewise_user: user_order BytewiseComparator_Compare "\<lambda>k. k"
  by unfold_locales

interpretation reverse_user: user_order ReverseBytewiseComparator_Compare Desc
  by unfold_locales

end
