(* ===== verification/Range_Del_Aggregator.thy ===== *)
theory Range_Del_Aggregator
  imports Key_Order Version_Edit
begin

text \<open>
  Range tombstones (db/range_del_aggregator.cc): the aggregator collects the tombstones that a read or a
  compaction meets, in one map for each stripe between snapshots, and decides whether a key is covered by
  one of its stripe.  Reads keep the tombstones as they are and scan them; compactions and iterators
  collapse them into intervals that can be searched.

  The lemmas show that both forms decide the same, for tombstones whose start is before their end.
\<close>

section \<open>Tombstone maps\<close>

text \<open>A \<open>std::multimap\<close> ordered by start key, and the position \<open>ShouldDelete\<close> keeps in it; the length of
  the map stands for its end iterator.\<close>

type_synonym TombstoneMap = "(bytes \<times> RangeTombstone) list"

record PositionalTombstoneMap =
  raw_map :: TombstoneMap
  iter :: nat

text \<open>\<open>rep_\<close> is \<open>None\<close> for the null pointer; a stripe is filed under its upper snapshot.\<close>

record RangeDelAggregator =
  upper_bound :: u64
  stripe_map :: "(u64 \<times> PositionalTombstoneMap) list option"
  collapse_deletions :: bool

datatype RangePositioningMode = kFullScan | kForwardTraversal | kBackwardTraversal | kBinarySearch

fun emplace :: "(bytes \<Rightarrow> bytes \<Rightarrow> int) \<Rightarrow> bytes \<times> RangeTombstone \<Rightarrow> TombstoneMap \<Rightarrow> TombstoneMap" where
  "emplace ucmp x [] = [x]"
| "emplace ucmp x (y # ys) = (if ucmp (fst x) (fst y) < 0 then x # y # ys else y # emplace ucmp x ys)"

definition map_upper_bound :: "(bytes \<Rightarrow> bytes \<Rightarrow> int) \<Rightarrow> bytes \<Rightarrow> TombstoneMap \<Rightarrow> nat" where
  "map_upper_bound ucmp k m = length (takeWhile (\<lambda>y. \<not> ucmp k (fst y) < 0) m)"

section \<open>Stripes\<close>

definition new_PositionalTombstoneMap :: PositionalTombstoneMap where
  "new_PositionalTombstoneMap = \<lparr>raw_map = [], iter = 0\<rparr>"

fun stripe_emplace :: "u64 \<Rightarrow> (u64 \<times> PositionalTombstoneMap) list \<Rightarrow> (u64 \<times> PositionalTombstoneMap) list" where
  "stripe_emplace snapshot [] = [(snapshot, new_PositionalTombstoneMap)]"
| "stripe_emplace snapshot ((s, p) # m) =
     (if snapshot < s then (snapshot, new_PositionalTombstoneMap) # (s, p) # m
      else if snapshot = s then (s, p) # m
      else (s, p) # stripe_emplace snapshot m)"

definition InitRep :: "u64 list \<Rightarrow> RangeDelAggregator \<Rightarrow> RangeDelAggregator" where
  "InitRep snapshots agg =
     agg\<lparr>stripe_map := Some (stripe_emplace kMaxSequenceNumber (fold stripe_emplace snapshots []))\<rparr>"

definition RangeDelAggregator_of_snapshots :: "u64 list \<Rightarrow> bool \<Rightarrow> RangeDelAggregator" where
  "RangeDelAggregator_of_snapshots snapshots collapse =
     InitRep snapshots \<lparr>upper_bound = kMaxSequenceNumber, stripe_map = None, collapse_deletions = collapse\<rparr>"

definition RangeDelAggregator_of_snapshot :: "u64 \<Rightarrow> bool \<Rightarrow> RangeDelAggregator" where
  "RangeDelAggregator_of_snapshot snapshot collapse =
     \<lparr>upper_bound = snapshot, stripe_map = None, collapse_deletions = collapse\<rparr>"

text \<open>The index of the stripe of a sequence number: \<open>upper_bound(seq - 1)\<close>, or the first stripe for 0.\<close>

definition GetPositionalTombstoneMap :: "u64 \<Rightarrow> (u64 \<times> PositionalTombstoneMap) list \<Rightarrow> nat" where
  "GetPositionalTombstoneMap seq stripes =
     (if seq > 0 then length (takeWhile (\<lambda>s. \<not> seq - 1 < fst s) stripes) else 0)"

section \<open>Is a key deleted?\<close>

text \<open>The loop of the full scan: the answer and the position it leaves.\<close>

fun full_scan :: "(bytes \<Rightarrow> bytes \<Rightarrow> int) \<Rightarrow> ParsedInternalKey \<Rightarrow> TombstoneMap \<Rightarrow> nat \<Rightarrow> bool \<times> nat" where
  "full_scan ucmp parsed [] i = (False, i)"
| "full_scan ucmp parsed ((k, tombstone) # m) i =
     (if ucmp (user_key parsed) (start_key tombstone) < 0 then (False, i)
      else if sequence parsed < tombstone_seq tombstone \<and> ucmp (user_key parsed) (end_key tombstone) < 0
        then (True, i)
      else full_scan ucmp parsed m (i + 1))"

function forward_loop :: "(bytes \<Rightarrow> bytes \<Rightarrow> int) \<Rightarrow> bytes \<Rightarrow> TombstoneMap \<Rightarrow> nat \<Rightarrow> nat" where
  "forward_loop ucmp k m i =
     (if i + 1 < length m \<and> ucmp (fst (m ! (i + 1))) k \<le> 0 then forward_loop ucmp k m (i + 1) else i)"
  by pat_completeness auto
termination
  by (relation "measure (\<lambda>(ucmp, k, m, i). length m - i)") auto

fun backward_loop :: "(bytes \<Rightarrow> bytes \<Rightarrow> int) \<Rightarrow> bytes \<Rightarrow> TombstoneMap \<Rightarrow> nat \<Rightarrow> nat" where
  "backward_loop ucmp k m 0 = 0"
| "backward_loop ucmp k m (Suc i) =
     (if ucmp k (fst (m ! Suc i)) < 0 then backward_loop ucmp k m i else Suc i)"

declare forward_loop.simps [simp del]

text \<open>The positioning of one stripe: \<open>None\<close> when the key is before every interval, and else the answer that
  the interval at the position gives; with the new position.\<close>

definition position :: "(bytes \<Rightarrow> bytes \<Rightarrow> int) \<Rightarrow> RangePositioningMode \<Rightarrow> ParsedInternalKey \<Rightarrow>
    PositionalTombstoneMap \<Rightarrow> bool \<times> PositionalTombstoneMap" where
  "position ucmp mode parsed p =
     (let m = raw_map p; k = user_key parsed;
          mode = (if iter p = length m \<and> (mode = kForwardTraversal \<or> mode = kBackwardTraversal)
                  then kBinarySearch else mode);
          answer = (\<lambda>i. (sequence parsed < tombstone_seq (snd (m ! i)), p\<lparr>iter := i\<rparr>))
      in case mode of
           kFullScan \<Rightarrow> (let (found, i) = full_scan ucmp parsed m 0 in (found, p\<lparr>iter := i\<rparr>))
         | kForwardTraversal \<Rightarrow>
             (if iter p = 0 \<and> ucmp k (fst (m ! iter p)) < 0 then (False, p)
              else answer (forward_loop ucmp k m (iter p)))
         | kBackwardTraversal \<Rightarrow>
             (let i = backward_loop ucmp k m (iter p)
              in if i = 0 \<and> ucmp k (fst (m ! i)) < 0 then (False, p\<lparr>iter := i\<rparr>) else answer i)
         | kBinarySearch \<Rightarrow>
             (let i = map_upper_bound ucmp k m
              in if i = 0 then (False, p\<lparr>iter := i\<rparr>) else answer (i - 1)))"

definition ShouldDelete :: "(bytes \<Rightarrow> bytes \<Rightarrow> int) \<Rightarrow> RangePositioningMode \<Rightarrow> ParsedInternalKey \<Rightarrow>
    RangeDelAggregator \<Rightarrow> bool \<times> RangeDelAggregator" where
  "ShouldDelete ucmp mode parsed agg =
     (case stripe_map agg of
        None \<Rightarrow> (False, agg)
      | Some stripes \<Rightarrow>
          (let n = GetPositionalTombstoneMap (sequence parsed) stripes; p = snd (stripes ! n)
           in if raw_map p = [] then (False, agg)
              else (let (found, p) = position ucmp mode parsed p
                    in (found, agg\<lparr>stripe_map := Some (stripes[n := (fst (stripes ! n), p)])\<rparr>))))"

definition ShouldAddTombstones :: "bool \<Rightarrow> RangeDelAggregator \<Rightarrow> bool" where
  "ShouldAddTombstones bottommost_level agg =
     (case stripe_map agg of
        None \<Rightarrow> False
      | Some stripes \<Rightarrow>
          list_ex (\<lambda>s. raw_map (snd s) \<noteq> []) (if bottommost_level then tl stripes else stripes))"

definition IsEmpty :: "RangeDelAggregator \<Rightarrow> bool" where
  "IsEmpty agg =
     (case stripe_map agg of None \<Rightarrow> True | Some stripes \<Rightarrow> list_all (\<lambda>s. raw_map (snd s) = []) stripes)"

section \<open>Adding tombstones\<close>

text \<open>In collapsed form an interval is its start with a sequence number and reaches to the next start.  A
  new tombstone is two such points.\<close>

definition collapsed_point :: "bytes \<Rightarrow> u64 \<Rightarrow> bytes \<times> RangeTombstone" where
  "collapsed_point k seq = (k, \<lparr>start_key = [], end_key = [], tombstone_seq = seq\<rparr>)"

text \<open>Inserts the new points that lie before the map; the results are the map, the points left and the
  points from the last one inserted on.\<close>

fun insert_before :: "(bytes \<Rightarrow> bytes \<Rightarrow> int) \<Rightarrow> bytes option \<Rightarrow> (bytes \<times> u64) list \<Rightarrow> (bytes \<times> u64) list \<Rightarrow>
    TombstoneMap \<Rightarrow> TombstoneMap \<times> (bytes \<times> u64) list \<times> (bytes \<times> u64) list" where
  "insert_before ucmp map_begin [] last_iter m = (m, [], last_iter)"
| "insert_before ucmp map_begin (n # ns) last_iter m =
     (if (case map_begin of None \<Rightarrow> True | Some b \<Rightarrow> ucmp (fst n) b < 0)
      then insert_before ucmp map_begin ns (n # ns) (emplace ucmp (collapsed_point (fst n) (snd n)) m)
      else (m, n # ns, last_iter))"

text \<open>One step of the loop at an existing point \<open>t\<close>, with the points before it in reverse and those after
  it, and the new point \<open>n\<close>; \<open>untermed_seq\<close> is the sequence number that \<open>t\<close> had before it was raised.\<close>

definition raise :: "u64 \<Rightarrow> bytes \<times> RangeTombstone \<Rightarrow> bytes \<times> RangeTombstone" where
  "raise seq t = (fst t, (snd t)\<lparr>tombstone_seq := seq\<rparr>)"

definition collapse_step :: "(bytes \<Rightarrow> bytes \<Rightarrow> int) \<Rightarrow> TombstoneMap \<Rightarrow> bytes \<times> RangeTombstone \<Rightarrow> TombstoneMap \<Rightarrow>
    bytes \<times> u64 \<Rightarrow> u64 \<Rightarrow> TombstoneMap \<times> (bytes \<times> RangeTombstone) \<times> TombstoneMap \<times> u64" where
  "collapse_step ucmp before t after n untermed_seq =
     (let new_to_old_start_cmp = ucmp (fst n) (fst t); old_seq = tombstone_seq (snd t)
      in if new_to_old_start_cmp < 0 then
           (if old_seq < snd n
            then (case before of
                    p # before' \<Rightarrow>
                      if tombstone_seq (snd p) = snd n then (before', p, after, old_seq)
                      else (before, raise (snd n) t, after, old_seq)
                  | [] \<Rightarrow> (before, raise (snd n) t, after, old_seq))
            else (before, t, after, untermed_seq))
         else if new_to_old_start_cmp > 0 then
           (if untermed_seq \<noteq> kMaxSequenceNumber \<or> old_seq < snd n
            then (let i = map_upper_bound ucmp (fst n) after;
                      x = collapsed_point (fst n)
                            (max (if untermed_seq = kMaxSequenceNumber then 0 else untermed_seq) (snd n))
                  in (rev (take i after) @ t # before, x, drop i after, old_seq))
            else (before, t, after, untermed_seq))
         else if old_seq < snd n then (before, raise (snd n) t, after, old_seq)
         else (before, t, after, untermed_seq))"

definition end_compare :: "(bytes \<Rightarrow> bytes \<Rightarrow> int) \<Rightarrow> (bytes \<times> u64) list \<Rightarrow> TombstoneMap \<Rightarrow> int" where
  "end_compare ucmp ns after =
     (case (ns, after) of
        ([], []) \<Rightarrow> 0
      | ([], _) \<Rightarrow> 1
      | (_, []) \<Rightarrow> -1
      | (n # _, t # _) \<Rightarrow> ucmp (fst n) (fst t))"

lemma collapse_step_length:
  "collapse_step ucmp before t after n u = (before', t', after', u') \<Longrightarrow> length after' \<le> length after"
  by (auto simp: collapse_step_def Let_def split: if_splits list.splits)

function collapse_loop :: "(bytes \<Rightarrow> bytes \<Rightarrow> int) \<Rightarrow> TombstoneMap \<Rightarrow> TombstoneMap \<Rightarrow> (bytes \<times> u64) list \<Rightarrow> u64 \<Rightarrow>
    TombstoneMap \<times> (bytes \<times> u64) list" where
  "collapse_loop ucmp before [] ns u = (rev before, ns)"
| "collapse_loop ucmp before (t # after) [] u = (rev before @ t # after, [])"
| "collapse_loop ucmp before (t # after) (n # ns) u =
     (case collapse_step ucmp before t after n u of
        (before', t', after', u') \<Rightarrow>
          (if end_compare ucmp ns after < 0 then collapse_loop ucmp before' (t' # after') ns u'
           else if end_compare ucmp ns after > 0
             then collapse_loop ucmp (t' # before') after' (n # ns) kMaxSequenceNumber
           else collapse_loop ucmp (t' # before') after' ns kMaxSequenceNumber))"
  by pat_completeness auto
termination
  by (relation "measure (\<lambda>(ucmp, before, after, ns, u). length after + length ns)")
    (auto dest!: collapse_step_length [OF sym])

declare collapse_loop.simps [simp del]

definition collapse_into :: "(bytes \<Rightarrow> bytes \<Rightarrow> int) \<Rightarrow> RangeTombstone \<Rightarrow> TombstoneMap \<Rightarrow> TombstoneMap" where
  "collapse_into ucmp tombstone m =
     (let new_range_dels = [(start_key tombstone, tombstone_seq tombstone), (end_key tombstone, 0)];
          map_begin = (case m of [] \<Rightarrow> None | t # _ \<Rightarrow> Some (fst t));
          (m, left, last_iter) = insert_before ucmp map_begin new_range_dels new_range_dels m
      in if left = [] then m
         else (let i = map_upper_bound ucmp (fst (hd last_iter)) m - 1;
                   (m, left) = collapse_loop ucmp (rev (take i m)) (drop i m) last_iter kMaxSequenceNumber
               in fold (\<lambda>n. emplace ucmp (collapsed_point (fst n) (snd n))) left m))"

definition AddTombstone :: "(bytes \<Rightarrow> bytes \<Rightarrow> int) \<Rightarrow> RangeTombstone \<Rightarrow> RangeDelAggregator \<Rightarrow> RangeDelAggregator" where
  "AddTombstone ucmp tombstone agg =
     (case stripe_map agg of
        None \<Rightarrow> agg
      | Some stripes \<Rightarrow>
          (let n = GetPositionalTombstoneMap (tombstone_seq tombstone) stripes; p = snd (stripes ! n);
               m = (if collapse_deletions agg then collapse_into ucmp tombstone (raw_map p)
                    else emplace ucmp (start_key tombstone, tombstone) (raw_map p));
               i = (if iter p = length (raw_map p) then length m else iter p)
           in agg\<lparr>stripe_map := Some (stripes[n := (fst (stripes ! n), \<lparr>raw_map = m, iter = i\<rparr>)])\<rparr>))"

definition InvalidateTombstoneMapPositions :: "RangeDelAggregator \<Rightarrow> RangeDelAggregator" where
  "InvalidateTombstoneMapPositions agg =
     agg\<lparr>stripe_map := map_option (map (\<lambda>(s, p). (s, p\<lparr>iter := length (raw_map p)\<rparr>))) (stripe_map agg)\<rparr>"

fun add_tombstones :: "(bytes \<Rightarrow> bytes \<Rightarrow> int) \<Rightarrow> (bytes \<times> bytes) list \<Rightarrow> RangeDelAggregator \<Rightarrow>
    Status \<times> RangeDelAggregator" where
  "add_tombstones ucmp [] agg = (OK, agg)"
| "add_tombstones ucmp ((key, value) # input) agg =
     (case ParseInternalKey key of
        None \<Rightarrow> (Corruption ''Unable to parse range tombstone InternalKey'', agg)
      | Some parsed_key \<Rightarrow> add_tombstones ucmp input (AddTombstone ucmp (RangeTombstone_of parsed_key value) agg))"

text \<open>\<open>AddTombstones\<close> on the entries its iterator yields; \<open>None\<close> is the null iterator.\<close>

definition AddTombstones :: "(bytes \<Rightarrow> bytes \<Rightarrow> int) \<Rightarrow> (bytes \<times> bytes) list option \<Rightarrow> RangeDelAggregator \<Rightarrow>
    Status \<times> RangeDelAggregator" where
  "AddTombstones ucmp input agg =
     (case input of
        None \<Rightarrow> (OK, agg)
      | Some entries \<Rightarrow>
          (if entries = [] then (OK, agg)
           else add_tombstones ucmp entries
                  (if stripe_map agg = None then InitRep [upper_bound agg] agg
                   else InvalidateTombstoneMapPositions agg)))"

section \<open>What is deleted\<close>

text \<open>The specification: a tombstone covers the keys from its start up to its end that are older than it,
  and deletes them when no snapshot lies between.\<close>

definition covers :: "(bytes \<Rightarrow> bytes \<Rightarrow> int) \<Rightarrow> RangeTombstone \<Rightarrow> bytes \<Rightarrow> u64 \<Rightarrow> bool" where
  "covers ucmp t k seq \<longleftrightarrow> ucmp (start_key t) k \<le> 0 \<and> ucmp k (end_key t) < 0 \<and> seq < tombstone_seq t"

definition same_stripe :: "u64 list \<Rightarrow> u64 \<Rightarrow> u64 \<Rightarrow> bool" where
  "same_stripe snapshots a b \<longleftrightarrow> list_all (\<lambda>s. a \<le> s \<longleftrightarrow> b \<le> s) snapshots"

definition range_deleted :: "(bytes \<Rightarrow> bytes \<Rightarrow> int) \<Rightarrow> u64 list \<Rightarrow> RangeTombstone list \<Rightarrow> ParsedInternalKey \<Rightarrow> bool" where
  "range_deleted ucmp snapshots ts parsed \<longleftrightarrow>
     list_ex (\<lambda>t. same_stripe snapshots (tombstone_seq t) (sequence parsed)
                \<and> covers ucmp t (user_key parsed) (sequence parsed)) ts"

text \<open>The tombstones whose deletion the collapsed form represents.\<close>

definition proper :: "(bytes \<Rightarrow> bytes \<Rightarrow> int) \<Rightarrow> RangeTombstone \<Rightarrow> bool" where
  "proper ucmp t \<longleftrightarrow> ucmp (start_key t) (end_key t) < 0 \<and> tombstone_seq t \<le> kMaxSequenceNumber"

text \<open>The positioning mode of a search that does not depend on the last position.\<close>

definition mode_of :: "bool \<Rightarrow> RangePositioningMode" where
  "mode_of c = (if c then kBinarySearch else kFullScan)"

section \<open>The stripe of a sequence number\<close>

lemma stripe_index: "GetPositionalTombstoneMap seq stripes = length (takeWhile (\<lambda>x. x < seq) (map fst stripes))"
proof (cases "seq = 0")
  case True
  then show ?thesis
    by (cases stripes) (simp_all add: GetPositionalTombstoneMap_def)
next
  case False
  then have "unat (seq - 1) = unat seq - 1" "0 < unat seq"
    by (simp_all add: unat_minus_one unat_gt_0)
  then have "\<not> seq - 1 < x \<longleftrightarrow> x < seq" for x
    by (auto simp: word_less_nat_alt)
  then show ?thesis
    using False by (simp add: GetPositionalTombstoneMap_def word_gt_0 takeWhile_map comp_def)
qed

lemma stripe_index_less:
  "seq \<le> x \<Longrightarrow> x \<in> set (map fst stripes) \<Longrightarrow> GetPositionalTombstoneMap seq stripes < length stripes"
  unfolding stripe_index
  using takeWhile_eq_all_conv [of "\<lambda>x. x < seq" "map fst stripes"] length_takeWhile_le [of "\<lambda>x. x < seq" "map fst stripes"]
  by (metis leD le_neq_implies_less length_map takeWhile_eq_take take_all_iff order_refl)

lemma same_stripe_index:
  assumes "sorted_wrt (<) (map fst stripes)"
  shows "GetPositionalTombstoneMap a stripes = GetPositionalTombstoneMap b stripes \<longleftrightarrow> same_stripe (map fst stripes) a b"
  using assms unfolding stripe_index
proof (induction stripes)
  case (Cons s stripes)
  have "x < a \<Longrightarrow> fst s < a" "x < b \<Longrightarrow> fst s < b" if "x \<in> set (map fst stripes)" for x
    using Cons.prems that by (auto intro: less_trans)
  with Cons show ?case
    by (auto simp: same_stripe_def list_all_iff not_less) 
qed (simp add: same_stripe_def)

lemma stripe_emplace_keys:
  assumes "sorted_wrt (<) (map fst m)"
  shows "sorted_wrt (<) (map fst (stripe_emplace s m))"
    "set (map fst (stripe_emplace s m)) = insert s (set (map fst m))"
    "set (map snd (stripe_emplace s m)) \<subseteq> insert new_PositionalTombstoneMap (set (map snd m))"
  using assms by (induction s m rule: stripe_emplace.induct) auto

lemma fold_stripe_emplace:
  assumes "sorted_wrt (<) (map fst m)" "set (map snd m) \<subseteq> {new_PositionalTombstoneMap}"
  shows "sorted_wrt (<) (map fst (fold stripe_emplace snapshots m)) \<and>
    set (map fst (fold stripe_emplace snapshots m)) = set snapshots \<union> set (map fst m) \<and>
    set (map snd (fold stripe_emplace snapshots m)) \<subseteq> {new_PositionalTombstoneMap}"
  using assms
proof (induction snapshots arbitrary: m)
  case (Cons s snapshots)
  have "set (map snd (stripe_emplace s m)) \<subseteq> {new_PositionalTombstoneMap}"
    using stripe_emplace_keys(3) [OF Cons.prems(1), of s] Cons.prems(2) by blast
  from Cons.IH [OF stripe_emplace_keys(1) [OF Cons.prems(1)] this] show ?case
    using stripe_emplace_keys(2) [OF Cons.prems(1), of s] by simp
qed auto

section \<open>Collapsed maps\<close>

context user_order
begin

text \<open>The sequence number of the interval a key falls into: 0 before the first one.\<close>

fun cover :: "TombstoneMap \<Rightarrow> bytes \<Rightarrow> u64 \<Rightarrow> u64" where
  "cover [] k d = d"
| "cover (t # m) k d = (if rank k < rank (fst t) then d else cover m k (tombstone_seq (snd t)))"

definition increasing :: "TombstoneMap \<Rightarrow> bool" where
  "increasing m \<longleftrightarrow> sorted_wrt (\<lambda>a b. rank (fst a) < rank (fst b)) m"

lemma cover_append:
  "increasing (xs @ y # ys) \<Longrightarrow> cover (xs @ y # ys) k d =
     (if rank k < rank (fst y) then cover xs k d else cover ys k (tombstone_seq (snd y)))"
  by (induction xs arbitrary: d) (auto simp: increasing_def)

lemma cover_snoc:
  "increasing (xs @ [y]) \<Longrightarrow> cover (xs @ [y]) k d =
     (if rank k < rank (fst y) then cover xs k d else tombstone_seq (snd y))"
  using cover_append [of xs y "[]"] by simp

lemma increasing_replace:
  "rank (fst y') = rank (fst y) \<Longrightarrow> increasing (xs @ y' # ys) = increasing (xs @ y # ys)"
  by (auto simp: increasing_def sorted_wrt_append)

lemma search_cover:
  assumes "increasing m"
  shows "(let i = map_upper_bound ucmp k m in i \<noteq> 0 \<and> seq < tombstone_seq (snd (m ! (i - 1)))) \<longleftrightarrow> seq < cover m k 0"
proof -
  have "(let i = map_upper_bound ucmp k m in if i = 0 then d else tombstone_seq (snd (m ! (i - 1)))) = cover m k d" for d
    using assms
  proof (induction m arbitrary: d)
    case (Cons t m)
    show ?case
      using Cons.IH [of "tombstone_seq (snd t)"] Cons.prems
      by (auto simp: map_upper_bound_def Compare_rank increasing_def Let_def nth_Cons')
  qed (simp add: map_upper_bound_def)
  from this [of 0] show ?thesis
    by (auto simp: Let_def split: if_splits)
qed

text \<open>The second new point, the end, changes nothing once the interval it ends was not raised, and else
  ends the raised part.\<close>

lemma collapse_end_same:
  "after \<noteq> [] \<Longrightarrow> collapse_loop ucmp before after [(e, 0)] kMaxSequenceNumber = (rev before @ after, [])"
proof (induction after arbitrary: before)
  case (Cons t after)
  have "collapse_step ucmp before t after (e, 0) kMaxSequenceNumber = (before, t, after, kMaxSequenceNumber)"
    by (simp add: collapse_step_def Let_def)
  then show ?case
    using Cons.IH [of "t # before"] by (cases after) (simp_all add: end_compare_def collapse_loop.simps)
qed simp

lemma collapse_end_raised:
  assumes "rank (fst t) < rank e" "after = [] \<or> rank e < rank (fst (hd after))" "u \<noteq> kMaxSequenceNumber"
  shows "collapse_loop ucmp before (t # after) [(e, 0)] u = (rev before @ t # collapsed_point e u # after, [])"
proof -
  have "map_upper_bound ucmp e after = 0"
    using assms(2) by (cases after) (simp_all add: map_upper_bound_def Compare_rank)
  then have "collapse_step ucmp before t after (e, 0) u =
      (t # before, collapsed_point e u, after, tombstone_seq (snd t))"
    using assms by (simp add: collapse_step_def Compare_rank Let_def)
  then show ?thesis
    using collapse_end_same [of after "collapsed_point e u # t # before"]
    by (cases after) (simp_all add: end_compare_def collapse_loop.simps)
qed

lemma collapse_start:
  assumes step: "collapse_step ucmp before t after (s, q) kMaxSequenceNumber = (before', t', after', u')"
    and sorted: "increasing (rev before @ t # after)" and s: "after = [] \<or> rank s < rank (fst (hd after))"
    and q: "q \<le> kMaxSequenceNumber"
  shows "after' = after" "increasing (rev before' @ t' # after)" "rank (fst t') \<le> max (rank (fst t)) (rank s)"
    "\<And>k. cover (rev before' @ [t']) k 0 =
       (if rank k < rank (fst t) then cover (rev before) k 0
        else if rank s \<le> rank k then max (tombstone_seq (snd t)) q else tombstone_seq (snd t))"
    "u' = kMaxSequenceNumber \<and> q \<le> tombstone_seq (snd t) \<or> u' = tombstone_seq (snd t) \<and> u' < q"
proof -
  have "map_upper_bound ucmp s after = 0"
    using s by (cases after) (simp_all add: map_upper_bound_def Compare_rank)
  then have step: "(before', t', after', u') =
      (if q \<le> tombstone_seq (snd t) then (before, t, after, kMaxSequenceNumber)
       else if rank (fst t) < rank s then (t # before, collapsed_point s q, after, tombstone_seq (snd t))
       else if rank s < rank (fst t) \<and> before \<noteq> [] \<and> tombstone_seq (snd (hd before)) = q
         then (tl before, hd before, after, tombstone_seq (snd t))
       else (before, raise q t, after, tombstone_seq (snd t)))"
    using step by (auto simp: collapse_step_def Let_def Compare_rank split: if_splits list.splits)
  show "after' = after"
    using step by (simp split: if_splits)
  show "u' = kMaxSequenceNumber \<and> q \<le> tombstone_seq (snd t) \<or> u' = tombstone_seq (snd t) \<and> u' < q"
    using step by (auto split: if_splits)
  have raised: "increasing (rev before @ raise q t # after)"
    using sorted by (subst increasing_replace [of _ t]) (simp_all add: raise_def)
  have added: "increasing (rev (t # before) @ collapsed_point s q # after)" if "rank (fst t) < rank s"
    using sorted s that
    by (cases after) (auto simp: increasing_def sorted_wrt_append collapsed_point_def intro: less_trans)
  have dropped: "increasing (rev (tl before) @ hd before # after)" if "before \<noteq> []"
    using sorted that by (cases before) (auto simp: increasing_def sorted_wrt_append)
  show "increasing (rev before' @ t' # after)"
    using step sorted raised added dropped by (auto split: if_splits)
  have hd: "rank (fst (hd before)) < rank (fst t)" if "before \<noteq> []"
    using sorted that by (cases before) (auto simp: increasing_def sorted_wrt_append)
  then show "rank (fst t') \<le> max (rank (fst t)) (rank s)"
    using step by (auto simp: raise_def collapsed_point_def less_imp_le le_max_iff_disj split: if_splits)
  show "cover (rev before' @ [t']) k 0 =
       (if rank k < rank (fst t) then cover (rev before) k 0
        else if rank s \<le> rank k then max (tombstone_seq (snd t)) q else tombstone_seq (snd t))" for k
  proof -
    have inc: "increasing (rev before @ [t])" "increasing (rev before @ [raise q t])"
      "rank (fst t) < rank s \<Longrightarrow> increasing (rev (t # before) @ [collapsed_point s q])"
      using sorted raised added by (auto simp: increasing_def sorted_wrt_append)
    have p: "cover (rev (tl before) @ [hd before]) k 0 =
        (if rank k < rank (fst t) then cover (rev before) k 0 else tombstone_seq (snd (hd before)))" if "before \<noteq> []"
    proof -
      have r: "rev before = rev (tl before) @ [hd before]"
        using that by (cases before) simp_all
      have "increasing (rev (tl before) @ [hd before])"
        using inc(1) by (simp add: r increasing_def sorted_wrt_append)
      then show ?thesis
        using hd [OF that] by (auto simp: r cover_snoc)
    qed
    consider "q \<le> tombstone_seq (snd t)" "(before', t') = (before, t)"
      | "\<not> q \<le> tombstone_seq (snd t)" "rank (fst t) < rank s" "(before', t') = (t # before, collapsed_point s q)"
      | "\<not> q \<le> tombstone_seq (snd t)" "rank s < rank (fst t)" "before \<noteq> []" "tombstone_seq (snd (hd before)) = q"
          "(before', t') = (tl before, hd before)"
      | "\<not> q \<le> tombstone_seq (snd t)" "rank s \<le> rank (fst t)" "(before', t') = (before, raise q t)"
      using step by (auto split: if_splits)
    then show ?thesis
    proof cases
      case 1
      then show ?thesis
        by (auto simp: cover_snoc [OF inc(1)] max_def)
    next
      case 2
      then show ?thesis
        using cover_snoc [OF inc(3), of k 0]
        by (auto simp: cover_snoc [OF inc(1)] max_def collapsed_point_def not_less)
    next
      case 3
      then show ?thesis
        using p by (auto simp: max_def)
    next
      case 4
      then show ?thesis
        using cover_snoc [OF inc(2), of k 0] by (auto simp: max_def raise_def)
    qed
  qed
qed

text \<open>What adding a tombstone does to the interval of a key.\<close>

definition raised :: "bytes \<Rightarrow> bytes \<Rightarrow> u64 \<Rightarrow> bytes \<Rightarrow> u64 \<Rightarrow> u64" where
  "raised s e q k old = (if rank s \<le> rank k \<and> rank k < rank e then max old q else old)"

lemma collapse_finish:
  assumes sorted: "increasing (rev before @ t # after)" and t: "rank (fst t) < rank e" and se: "rank s < rank e"
    and s: "after = [] \<or> rank s < rank (fst (hd after))" and q: "q \<le> kMaxSequenceNumber"
    and e: "after = [] \<or> rank e \<le> rank (fst (hd after))"
  shows "\<exists>m. collapse_loop ucmp before (t # after) [(s, q), (e, 0)] kMaxSequenceNumber = (m, []) \<and> increasing m
    \<and> (\<forall>k. cover m k 0 = (if rank k < rank (fst t) then cover (rev before) k 0 else raised s e q k (cover (t # after) k 0)))"
proof -
  obtain before' t' after' u' where st: "collapse_step ucmp before t after (s, q) kMaxSequenceNumber = (before', t', after', u')"
    by (cases "collapse_step ucmp before t after (s, q) kMaxSequenceNumber")
  note start = collapse_start [OF st sorted s q]
  have t': "rank (fst t') < rank e"
    using start(3) t se by (auto simp: max_def split: if_splits)
  have inc: "increasing (rev (t' # before') @ after)"
    using start(2) by simp
  have cov: "cover (rev (t' # before') @ after) k 0 =
      (if after = [] \<or> rank k < rank (fst (hd after)) then cover (rev before' @ [t']) k 0 else cover after k 0)" for k
    using cover_append [of "rev (t' # before')" "hd after" "tl after" k 0] inc by (cases after) simp_all
  have tt2: "after \<noteq> [] \<Longrightarrow> rank (fst t) < rank (fst (hd after))"
    using sorted by (cases after) (simp_all add: increasing_def sorted_wrt_append)
  show ?thesis
  proof (cases "(after \<noteq> [] \<and> rank e = rank (fst (hd after))) \<or> u' = kMaxSequenceNumber")
    case True
    then have loop: "collapse_loop ucmp before (t # after) [(s, q), (e, 0)] kMaxSequenceNumber = (rev (t' # before') @ after, [])"
      using e collapse_end_same [of after "t' # before'" e] collapse_end_same [of "t' # after" before' e]
      by (subst collapse_loop.simps)
        (auto simp: st start(1) end_compare_def Compare_rank split: list.splits)
    have "cover (rev (t' # before') @ after) k 0 =
        (if rank k < rank (fst t) then cover (rev before) k 0 else raised s e q k (cover (t # after) k 0))" for k
      using True e start(5) q tt2 unfolding cov start(4)
      by (cases after) (auto simp: raised_def max_def)
    then show ?thesis
      using inc loop by blast
  next
    case False
    then have u': "u' = tombstone_seq (snd t)" "u' < q" and e': "after = [] \<or> rank e < rank (fst (hd after))"
      using start(5) e by auto
    have loop: "collapse_loop ucmp before (t # after) [(s, q), (e, 0)] kMaxSequenceNumber =
        ((rev (t' # before') @ [collapsed_point e u']) @ after, [])"
      using False e' collapse_end_raised [OF t' e', of u' before']
      by (subst collapse_loop.simps)
        (auto simp: st start(1) end_compare_def Compare_rank split: list.splits)
    have inc': "increasing ((rev (t' # before') @ [collapsed_point e u']) @ after)"
      using inc t' e' by (cases after)
        (auto simp: increasing_def sorted_wrt_append collapsed_point_def intro: less_trans)
    have "cover ((rev (t' # before') @ [collapsed_point e u']) @ after) k 0 =
        (if rank k < rank (fst t) then cover (rev before) k 0 else raised s e q k (cover (t # after) k 0))" for k
    proof -
      have "cover (rev (t' # before') @ [collapsed_point e u']) k 0 =
          (if rank k < rank e then cover (rev before' @ [t']) k 0 else u')"
        using inc' by (subst cover_snoc) (auto simp: increasing_def sorted_wrt_append collapsed_point_def)
      moreover have "cover ((rev (t' # before') @ [collapsed_point e u']) @ after) k 0 =
          (if after = [] \<or> rank k < rank (fst (hd after)) then cover (rev (t' # before') @ [collapsed_point e u']) k 0
           else cover after k 0)"
        using cover_append [of "rev (t' # before') @ [collapsed_point e u']" "hd after" "tl after" k 0] inc'
        by (cases after) simp_all
      ultimately show ?thesis
        using e' u' t tt2 unfolding start(4) by (cases after) (auto simp: raised_def max_def)
    qed
    then show ?thesis
      using inc' loop by blast
  qed
qed

lemma collapse_loop_cover:
  assumes "increasing (rev before @ t # after)" "rank (fst t) < rank e" "rank s < rank e"
    "after = [] \<or> rank s < rank (fst (hd after))" "q \<le> kMaxSequenceNumber"
  shows "\<exists>m. collapse_loop ucmp before (t # after) [(s, q), (e, 0)] kMaxSequenceNumber = (m, []) \<and> increasing m
    \<and> (\<forall>k. cover m k 0 = (if rank k < rank (fst t) then cover (rev before) k 0 else raised s e q k (cover (t # after) k 0)))"
  using assms
proof (induction after arbitrary: before t)
  case Nil
  then show ?case
    by (intro collapse_finish) simp_all
next
  case (Cons t2 after2)
  show ?case
  proof (cases "rank e \<le> rank (fst t2)")
    case True
    with Cons.prems show ?thesis
      by (intro collapse_finish) simp_all
  next
    case False
    obtain before' t' after' u' where
      st: "collapse_step ucmp before t (t2 # after2) (s, q) kMaxSequenceNumber = (before', t', after', u')"
      by (cases "collapse_step ucmp before t (t2 # after2) (s, q) kMaxSequenceNumber")
    note start = collapse_start [OF st Cons.prems(1,4,5)]
    have inc: "increasing (rev (t' # before') @ t2 # after2)"
      using start(2) by simp
    have "after2 = [] \<or> rank s < rank (fst (hd after2))"
      using inc Cons.prems(4) by (cases after2) (auto simp: increasing_def sorted_wrt_append)
    then obtain m where m: "collapse_loop ucmp (t' # before') (t2 # after2) [(s, q), (e, 0)] kMaxSequenceNumber = (m, [])"
      "increasing m" "\<And>k. cover m k 0 =
         (if rank k < rank (fst t2) then cover (rev (t' # before')) k 0 else raised s e q k (cover (t2 # after2) k 0))"
      using Cons.IH [OF inc _ Cons.prems(3) _ Cons.prems(5)] False by (metis not_less)
    have "collapse_loop ucmp before (t # t2 # after2) [(s, q), (e, 0)] kMaxSequenceNumber = (m, [])"
      using False m(1) by (subst collapse_loop.simps) (auto simp: st start(1) end_compare_def Compare_rank)
    moreover have "cover m k 0 =
        (if rank k < rank (fst t) then cover (rev before) k 0 else raised s e q k (cover (t # t2 # after2) k 0))" for k
      using False Cons.prems(1) m(3) [of k] start(4) [of k]
      by (auto simp: raised_def increasing_def sorted_wrt_append)
    ultimately show ?thesis
      using m(2) by blast
  qed
qed

lemma collapse_into_cover:
  assumes m: "increasing m" and se: "rank (start_key t) < rank (end_key t)" and q: "tombstone_seq t \<le> kMaxSequenceNumber"
  shows "increasing (collapse_into ucmp t m)"
    "cover (collapse_into ucmp t m) k 0 = raised (start_key t) (end_key t) (tombstone_seq t) k (cover m k 0)"
proof -
  let ?s = "start_key t" and ?e = "end_key t" and ?q = "tombstone_seq t"
  have "increasing (collapse_into ucmp t m) \<and> cover (collapse_into ucmp t m) k 0 = raised ?s ?e ?q k (cover m k 0)"
  proof (cases "m = [] \<or> rank ?e < rank (fst (hd m))")
    case True
    have "collapse_into ucmp t m = collapsed_point ?s ?q # collapsed_point ?e 0 # m"
      using True se less_trans [OF se, of "rank (fst (hd m))"]
      by (cases m) (auto simp: collapse_into_def Compare_rank collapsed_point_def Let_def)
    then show ?thesis
      using True se m less_trans [OF se, of "rank (fst (hd m))"]
      by (cases m) (auto simp: collapsed_point_def increasing_def raised_def)
  next
    case False
    then obtain t0 m0 where m0: "m = t0 # m0" and e: "rank (fst t0) \<le> rank ?e"
      by (cases m) auto
    show ?thesis
    proof (cases "rank ?s < rank (fst t0)")
      case True
      have "increasing (rev [] @ collapsed_point ?s ?q # m)"
        using m True by (auto simp: m0 collapsed_point_def increasing_def)
      from collapse_loop_cover [OF this, of ?e ?s ?q]
      obtain m' where "collapse_loop ucmp [] (collapsed_point ?s ?q # m) [(?s, ?q), (?e, 0)] kMaxSequenceNumber = (m', [])"
        "increasing m'" "\<And>k. cover m' k 0 = (if rank k < rank ?s then 0 else raised ?s ?e ?q k (cover (collapsed_point ?s ?q # m) k 0))"
        using se q True by (auto simp: m0 collapsed_point_def)
      moreover have "collapse_into ucmp t m =
          fst (collapse_loop ucmp [] (collapsed_point ?s ?q # m) [(?s, ?q), (?e, 0)] kMaxSequenceNumber)"
        using True e [THEN leD] calculation(1)
        by (simp add: collapse_into_def m0 Let_def Compare_rank collapsed_point_def map_upper_bound_def)
      ultimately show ?thesis
        using True se e by (auto simp: m0 raised_def collapsed_point_def)
    next
      case False
      let ?n = "map_upper_bound ucmp ?s m"
      have n: "0 < ?n" "?n \<le> length m"
        using False by (auto simp: map_upper_bound_def m0 Compare_rank intro: length_takeWhile_le le_SucI)
      define before y after where "before = rev (take (?n - 1) m)" and "y = m ! (?n - 1)" and "after = drop ?n m"
      have drop: "drop (?n - 1) m = y # after"
        using n by (simp add: y_def after_def Cons_nth_drop_Suc [symmetric])
      have split: "m = rev before @ y # after"
        using drop by (metis append_take_drop_id before_def rev_rev_ident)
      have y: "rank (fst y) \<le> rank ?s"
        using n takeWhile_nth [of "?n - 1" "\<lambda>y. \<not> ucmp ?s (fst y) < 0" m] set_takeWhileD [OF nth_mem, of "?n - 1" "\<lambda>y. \<not> ucmp ?s (fst y) < 0" m]
        by (auto simp: map_upper_bound_def y_def Compare_rank)
      have after: "after = [] \<or> rank ?s < rank (fst (hd after))"
        using hd_dropWhile [of "\<lambda>y. \<not> ucmp ?s (fst y) < 0" m]
        by (auto simp: after_def map_upper_bound_def dropWhile_eq_drop [symmetric] Compare_rank)
      have inc: "increasing (rev before @ y # after)"
        using m split by simp
      from collapse_loop_cover [OF inc le_less_trans [OF y se] se after q]
      obtain m' where m': "collapse_loop ucmp before (y # after) [(?s, ?q), (?e, 0)] kMaxSequenceNumber = (m', [])"
        "increasing m'" "\<And>k. cover m' k 0 = (if rank k < rank (fst y) then cover (rev before) k 0 else raised ?s ?e ?q k (cover (y # after) k 0))"
        by blast
      have "collapse_into ucmp t m = m'"
        using False e [THEN leD] m'(1) drop by (simp add: collapse_into_def m0 Let_def Compare_rank before_def)
      then show ?thesis
        using m'(2,3) y cover_append [OF inc, of k 0] split by (auto simp: raised_def)
    qed
  qed
  then show "increasing (collapse_into ucmp t m)"
    "cover (collapse_into ucmp t m) k 0 = raised (start_key t) (end_key t) (tombstone_seq t) k (cover m k 0)"
    by auto
qed

section \<open>The maps of a stripe\<close>

definition stripe_ok :: "bool \<Rightarrow> RangeTombstone list \<Rightarrow> PositionalTombstoneMap \<Rightarrow> bool" where
  "stripe_ok c ts p \<longleftrightarrow>
     (if c then increasing (raw_map p) \<and> (\<forall>k seq. seq < cover (raw_map p) k 0 \<longleftrightarrow> list_ex (\<lambda>t. covers ucmp t k seq) ts)
      else sorted_wrt (\<lambda>a b. rank (fst a) \<le> rank (fst b)) (raw_map p) \<and> set (raw_map p) = (\<lambda>t. (start_key t, t)) ` set ts)"

lemma full_scan_covers:
  assumes "sorted_wrt (\<lambda>a b. rank (fst a) \<le> rank (fst b)) m" "\<forall>(k, t)\<in>set m. k = start_key t"
  shows "fst (full_scan ucmp parsed m i) \<longleftrightarrow> (\<exists>(k, t)\<in>set m. covers ucmp t (user_key parsed) (sequence parsed))"
  using assms
proof (induction m arbitrary: i)
  case (Cons x m)
  obtain t where x: "x = (start_key t, t)"
    using Cons.prems(2) by (cases x) auto
  show ?case
  proof (cases "rank (user_key parsed) < rank (start_key t)")
    case True
    have "\<not> covers ucmp u (user_key parsed) (sequence parsed)" if "(k, u) \<in> set (x # m)" for k u
      using True Cons.prems that by (fastforce simp: x covers_def Compare_rank)
    then show ?thesis
      using True by (auto simp: x Compare_rank)
  next
    case False
    then show ?thesis
      using Cons.IH [of "i + 1"] Cons.prems by (auto simp: x covers_def Compare_rank)
  qed
qed simp

lemma stripe_answer:
  assumes "stripe_ok c ts p"
  shows "(raw_map p \<noteq> [] \<and> fst (position ucmp (mode_of c) parsed p))
    \<longleftrightarrow> list_ex (\<lambda>t. covers ucmp t (user_key parsed) (sequence parsed)) ts"
proof (cases c)
  case True
  then have inc: "increasing (raw_map p)" and cov: "sequence parsed < cover (raw_map p) (user_key parsed) 0 \<longleftrightarrow>
      list_ex (\<lambda>t. covers ucmp t (user_key parsed) (sequence parsed)) ts"
    using assms by (auto simp: stripe_ok_def)
  have "fst (position ucmp kBinarySearch parsed p) \<longleftrightarrow> sequence parsed < cover (raw_map p) (user_key parsed) 0"
    using search_cover [OF inc, of "user_key parsed" "sequence parsed"] by (auto simp: position_def Let_def)
  then show ?thesis
    using cov True by (auto simp: mode_of_def)
next
  case False
  then show ?thesis
    using assms full_scan_covers [of "raw_map p" parsed 0]
    by (auto simp: stripe_ok_def mode_of_def position_def split_def list_ex_iff)
qed

lemma emplace_sorted:
  assumes "sorted_wrt (\<lambda>a b. rank (fst a) \<le> rank (fst b)) m"
  shows "sorted_wrt (\<lambda>a b. rank (fst a) \<le> rank (fst b)) (emplace ucmp x m)" "set (emplace ucmp x m) = insert x (set m)"
proof -
  show s: "set (emplace ucmp x m) = insert x (set m)" for m
    by (induction m) auto
  show "sorted_wrt (\<lambda>a b. rank (fst a) \<le> rank (fst b)) (emplace ucmp x m)"
    using assms by (induction m) (auto simp: s Compare_rank)
qed

lemma stripe_add:
  assumes "stripe_ok c ts p" "proper ucmp t \<or> \<not> c"
  shows "stripe_ok c (ts @ [t]) \<lparr>raw_map = (if c then collapse_into ucmp t (raw_map p)
      else emplace ucmp (start_key t, t) (raw_map p)), iter = i\<rparr>"
proof (cases c)
  case True
  then have m: "increasing (raw_map p)" "rank (start_key t) < rank (end_key t)" "tombstone_seq t \<le> kMaxSequenceNumber"
    using assms by (simp_all add: stripe_ok_def proper_def Compare_rank)
  show ?thesis
    using True assms(1) collapse_into_cover(1) [OF m]
    by (auto simp: stripe_ok_def collapse_into_cover(2) [OF m] raised_def covers_def Compare_rank less_max_iff_disj)
next
  case False
  then show ?thesis
    using assms(1) emplace_sorted [of "raw_map p" "(start_key t, t)"] by (auto simp: stripe_ok_def)
qed

lemma stripe_new: "stripe_ok c [] new_PositionalTombstoneMap" "stripe_ok c ts p \<Longrightarrow> stripe_ok c ts (p\<lparr>iter := i\<rparr>)"
  by (auto simp: stripe_ok_def new_PositionalTombstoneMap_def increasing_def)

section \<open>The aggregator\<close>

definition agg_inv :: "bool \<Rightarrow> u64 list \<Rightarrow> RangeTombstone list \<Rightarrow> RangeDelAggregator \<Rightarrow> bool" where
  "agg_inv c snapshots ts agg \<longleftrightarrow> collapse_deletions agg = c \<and>
     (\<exists>stripes. stripe_map agg = Some stripes \<and> sorted_wrt (<) (map fst stripes)
       \<and> set (map fst stripes) = insert kMaxSequenceNumber (set snapshots)
       \<and> (\<forall>i<length stripes. stripe_ok c (filter (\<lambda>t. GetPositionalTombstoneMap (tombstone_seq t) stripes = i) ts)
            (snd (stripes ! i))))"

lemma agg_inv_InitRep:
  assumes "collapse_deletions agg = c"
  shows "agg_inv c snapshots [] (InitRep snapshots agg)"
proof -
  let ?m = "fold stripe_emplace snapshots []"
  note f = fold_stripe_emplace [of "[]" snapshots, simplified]
  note k = stripe_emplace_keys [of ?m kMaxSequenceNumber]
  have "sorted_wrt (<) (map fst ?m)" "insert new_PositionalTombstoneMap (set (map snd ?m)) \<subseteq> {new_PositionalTombstoneMap}"
    using f by simp_all
  then have "set (map snd (stripe_emplace kMaxSequenceNumber ?m)) \<subseteq> {new_PositionalTombstoneMap}"
    by (intro order_trans [OF k(3)])
  then have "snd ` set (stripe_emplace kMaxSequenceNumber ?m) \<subseteq> {new_PositionalTombstoneMap}"
    by simp
  then have "\<forall>i<length (stripe_emplace kMaxSequenceNumber ?m). snd (stripe_emplace kMaxSequenceNumber ?m ! i) = new_PositionalTombstoneMap"
    by (meson image_subset_iff nth_mem singletonD)
  then show ?thesis
    using assms f k by (auto simp: agg_inv_def InitRep_def stripe_new)
qed

lemma agg_inv_Invalidate:
  assumes "agg_inv c snapshots ts agg"
  shows "agg_inv c snapshots ts (InvalidateTombstoneMapPositions agg)"
proof -
  obtain stripes where st: "stripe_map agg = Some stripes"
    using assms by (auto simp: agg_inv_def)
  let ?s = "map (\<lambda>(s, p). (s, p\<lparr>iter := length (raw_map p)\<rparr>)) stripes"
  have keys: "map fst ?s = map fst stripes"
    by (simp add: comp_def split_def)
  then have "GetPositionalTombstoneMap seq ?s = GetPositionalTombstoneMap seq stripes" for seq
    by (simp only: stripe_index)
  moreover have "snd (?s ! i) = (snd (stripes ! i))\<lparr>iter := length (raw_map (snd (stripes ! i)))\<rparr>" if "i < length stripes" for i
    using that by (simp add: split_def)
  ultimately show ?thesis
    using assms st keys unfolding agg_inv_def InvalidateTombstoneMapPositions_def
    by (auto simp del: map_map set_map intro: stripe_new(2))
qed

lemma agg_inv_AddTombstone:
  assumes "agg_inv c snapshots ts agg" "proper ucmp t \<or> \<not> c" "tombstone_seq t \<le> kMaxSequenceNumber"
  shows "agg_inv c snapshots (ts @ [t]) (AddTombstone ucmp t agg)"
proof -
  obtain stripes where st: "stripe_map agg = Some stripes" "sorted_wrt (<) (map fst stripes)"
    "set (map fst stripes) = insert kMaxSequenceNumber (set snapshots)"
    "\<And>i. i < length stripes \<Longrightarrow>
       stripe_ok c (filter (\<lambda>t. GetPositionalTombstoneMap (tombstone_seq t) stripes = i) ts) (snd (stripes ! i))"
    and c: "collapse_deletions agg = c"
    using assms(1) by (auto simp: agg_inv_def)
  define n where "n = GetPositionalTombstoneMap (tombstone_seq t) stripes"
  have n: "n < length stripes"
    unfolding n_def using assms(3) st(3) by (intro stripe_index_less [of _ kMaxSequenceNumber]) auto
  define p where "p = \<lparr>raw_map = (if c then collapse_into ucmp t (raw_map (snd (stripes ! n)))
        else emplace ucmp (start_key t, t) (raw_map (snd (stripes ! n)))),
      iter = (if iter (snd (stripes ! n)) = length (raw_map (snd (stripes ! n)))
              then length (if c then collapse_into ucmp t (raw_map (snd (stripes ! n)))
                else emplace ucmp (start_key t, t) (raw_map (snd (stripes ! n))))
              else iter (snd (stripes ! n)))\<rparr>"
  define S where "S = stripes[n := (fst (stripes ! n), p)]"
  have agg: "AddTombstone ucmp t agg = agg\<lparr>stripe_map := Some S\<rparr>"
    by (simp add: AddTombstone_def st(1) c n_def S_def p_def Let_def)
  have keys: "map fst S = map fst stripes"
    using n list_update_id [of "map fst stripes" n] by (simp add: map_update S_def)
  then have index: "GetPositionalTombstoneMap seq S = GetPositionalTombstoneMap seq stripes" for seq
    by (simp only: stripe_index)
  have nth: "S ! n = (fst (stripes ! n), p)" "\<And>i. i \<noteq> n \<Longrightarrow> S ! i = stripes ! i" "length S = length stripes"
    using n by (simp_all add: S_def)
  have p: "stripe_ok c (filter (\<lambda>t. GetPositionalTombstoneMap (tombstone_seq t) stripes = n) ts @ [t]) p"
    unfolding p_def by (rule stripe_add [OF st(4) [OF n] assms(2)])
  have "stripe_ok c (filter (\<lambda>t. GetPositionalTombstoneMap (tombstone_seq t) S = i) (ts @ [t])) (snd (S ! i))"
    if "i < length S" for i
    using p st(4) [of i] that unfolding index by (cases "i = n") (simp_all add: nth n_def [symmetric])
  then show ?thesis
    unfolding agg_inv_def agg using st(2,3) c keys by (intro conjI exI [of _ S]) (simp_all del: set_map)
qed

lemma Parse_Serialize:
  "tombstone_seq t \<le> kMaxSequenceNumber \<Longrightarrow>
    ParseInternalKey (fst (RangeTombstone_Serialize t)) =
      Some \<lparr>user_key = start_key t, sequence = tombstone_seq t, value_type = kTypeRangeDeletion\<rparr>"
  by (simp add: RangeTombstone_Serialize_def InternalKey_def AppendInternalKey_def ParseInternalKey_def Let_def
      PutFixed64_append internal_key_num_def [symmetric] drop_bit_Pack IsExtendedValueType_def ucast_and_255)

lemma add_tombstones_inv:
  assumes "agg_inv c snapshots ts agg" "\<forall>t\<in>set us. proper ucmp t \<or> \<not> c" "\<forall>t\<in>set us. tombstone_seq t \<le> kMaxSequenceNumber"
  shows "\<exists>agg'. add_tombstones ucmp (map RangeTombstone_Serialize us) agg = (OK, agg') \<and> agg_inv c snapshots (ts @ us) agg'"
  using assms
proof (induction us arbitrary: ts agg)
  case (Cons t us)
  have "RangeTombstone_of \<lparr>user_key = start_key t, sequence = tombstone_seq t, value_type = kTypeRangeDeletion\<rparr>
      (snd (RangeTombstone_Serialize t)) = t"
    by (simp add: RangeTombstone_of_def RangeTombstone_Serialize_def)
  then show ?case
    using Cons.IH [OF agg_inv_AddTombstone [OF Cons.prems(1), of t]] Cons.prems(2,3) Parse_Serialize [of t]
    by (cases "RangeTombstone_Serialize t") auto
qed simp

lemma ShouldDelete_inv:
  assumes "agg_inv c snapshots ts agg" "sequence parsed \<le> kMaxSequenceNumber" "\<forall>t\<in>set ts. tombstone_seq t \<le> kMaxSequenceNumber"
  shows "fst (ShouldDelete ucmp (mode_of c) parsed agg) \<longleftrightarrow> range_deleted ucmp snapshots ts parsed"
proof -
  obtain stripes where st: "stripe_map agg = Some stripes" "sorted_wrt (<) (map fst stripes)"
    "set (map fst stripes) = insert kMaxSequenceNumber (set snapshots)"
    "\<And>i. i < length stripes \<Longrightarrow>
       stripe_ok c (filter (\<lambda>t. GetPositionalTombstoneMap (tombstone_seq t) stripes = i) ts) (snd (stripes ! i))"
    using assms(1) by (auto simp: agg_inv_def)
  define n where "n = GetPositionalTombstoneMap (sequence parsed) stripes"
  have n: "n < length stripes"
    unfolding n_def using assms(2) st(3) by (intro stripe_index_less [of _ kMaxSequenceNumber]) auto
  have same: "GetPositionalTombstoneMap (tombstone_seq t) stripes = n \<longleftrightarrow> same_stripe snapshots (tombstone_seq t) (sequence parsed)"
    if "t \<in> set ts" for t
    using assms(2,3) that
    unfolding n_def same_stripe_index [OF st(2)] same_stripe_def list_all_iff st(3) by auto
  have "fst (ShouldDelete ucmp (mode_of c) parsed agg) \<longleftrightarrow>
      raw_map (snd (stripes ! n)) \<noteq> [] \<and> fst (position ucmp (mode_of c) parsed (snd (stripes ! n)))"
    by (simp add: ShouldDelete_def st(1) n_def Let_def split_def)
  also have "\<dots> \<longleftrightarrow> list_ex (\<lambda>t. covers ucmp t (user_key parsed) (sequence parsed))
      (filter (\<lambda>t. GetPositionalTombstoneMap (tombstone_seq t) stripes = n) ts)"
    by (rule stripe_answer [OF st(4) [OF n]])
  also have "\<dots> \<longleftrightarrow> range_deleted ucmp snapshots ts parsed"
    using same by (auto simp: range_deleted_def list_ex_iff)
  finally show ?thesis .
qed

lemma position_map: "raw_map (snd (position ucmp mode parsed p)) = raw_map p"
  by (auto simp: position_def Let_def split_def split: RangePositioningMode.splits)

lemma ShouldDelete_keeps:
  assumes "agg_inv c snapshots ts agg"
  shows "agg_inv c snapshots ts (snd (ShouldDelete ucmp mode parsed agg))"
proof -
  obtain stripes where st: "stripe_map agg = Some stripes"
    using assms by (auto simp: agg_inv_def)
  let ?n = "GetPositionalTombstoneMap (sequence parsed) stripes"
  let ?p = "snd (position ucmp mode parsed (snd (stripes ! ?n)))"
  define S where "S = stripes[?n := (fst (stripes ! ?n), ?p)]"
  have keys: "map fst S = map fst stripes"
    using list_update_id [of "map fst stripes" ?n] by (cases "?n < length stripes") (simp_all add: S_def map_update list_update_beyond)
  then have index: "GetPositionalTombstoneMap seq S = GetPositionalTombstoneMap seq stripes" for seq
    by (simp only: stripe_index)
  have "raw_map (snd (S ! i)) = raw_map (snd (stripes ! i))" if "i < length stripes" for i
    using that by (cases "i = ?n") (simp_all add: S_def position_map)
  then have "stripe_ok c us (snd (S ! i)) = stripe_ok c us (snd (stripes ! i))" if "i < length stripes" for i us
    using that by (simp add: stripe_ok_def)
  moreover have "snd (ShouldDelete ucmp mode parsed agg) = agg \<or> snd (ShouldDelete ucmp mode parsed agg) = agg\<lparr>stripe_map := Some S\<rparr>"
    by (simp add: ShouldDelete_def st Let_def split_def S_def)
  moreover have "length S = length stripes"
    by (simp add: S_def)
  ultimately show ?thesis
    using assms st keys by (auto simp: agg_inv_def index simp del: set_map)
qed

lemma aggregated_answer:
  assumes "\<forall>t\<in>set ts. proper ucmp t \<or> \<not> c" "\<forall>t\<in>set ts. tombstone_seq t \<le> kMaxSequenceNumber"
    "sequence parsed \<le> kMaxSequenceNumber"
  shows "fst (ShouldDelete ucmp (mode_of c) parsed
      (snd (AddTombstones ucmp (Some (map RangeTombstone_Serialize ts)) (RangeDelAggregator_of_snapshots snapshots c))))
    \<longleftrightarrow> range_deleted ucmp snapshots ts parsed"
    "fst (ShouldDelete ucmp (mode_of c) parsed
      (snd (AddTombstones ucmp (Some (map RangeTombstone_Serialize ts)) (RangeDelAggregator_of_snapshot snapshot c))))
    \<longleftrightarrow> range_deleted ucmp [snapshot] ts parsed"
proof -
  have inv: "agg_inv c snapshots [] (InvalidateTombstoneMapPositions (RangeDelAggregator_of_snapshots snapshots c))"
    "agg_inv c snapshots [] (RangeDelAggregator_of_snapshots snapshots c)"
    "agg_inv c [snapshot] [] (InitRep [snapshot] (RangeDelAggregator_of_snapshot snapshot c))"
    unfolding RangeDelAggregator_of_snapshots_def RangeDelAggregator_of_snapshot_def
    by (intro agg_inv_Invalidate agg_inv_InitRep; simp)+
  have some: "stripe_map (RangeDelAggregator_of_snapshots snapshots c) \<noteq> None" "stripe_map (RangeDelAggregator_of_snapshot snapshot c) = None"
    "upper_bound (RangeDelAggregator_of_snapshot snapshot c) = snapshot"
    by (simp_all add: RangeDelAggregator_of_snapshots_def RangeDelAggregator_of_snapshot_def InitRep_def)
  show "fst (ShouldDelete ucmp (mode_of c) parsed
      (snd (AddTombstones ucmp (Some (map RangeTombstone_Serialize ts)) (RangeDelAggregator_of_snapshots snapshots c))))
    \<longleftrightarrow> range_deleted ucmp snapshots ts parsed"
    using add_tombstones_inv [OF inv(1) assms(1,2)] ShouldDelete_inv [OF _ assms(3,2)] ShouldDelete_inv [OF inv(2) assms(3)] some
    by (auto simp: AddTombstones_def)
  show "fst (ShouldDelete ucmp (mode_of c) parsed
      (snd (AddTombstones ucmp (Some (map RangeTombstone_Serialize ts)) (RangeDelAggregator_of_snapshot snapshot c))))
    \<longleftrightarrow> range_deleted ucmp [snapshot] ts parsed"
  proof (cases "ts = []")
    case True
    then show ?thesis
      using some by (simp add: AddTombstones_def ShouldDelete_def range_deleted_def)
  next
    case False
    then show ?thesis
      using add_tombstones_inv [OF inv(3) assms(1,2)] ShouldDelete_inv [OF _ assms(3,2)] some
      by (auto simp: AddTombstones_def)
  qed
qed

text \<open>Walking to the interval of a key from a position that is not past it, or not before it, ends where
  the search does.\<close>

lemma upper_bound_at:
  assumes "increasing m" "i < length m" "rank (fst (m ! i)) \<le> rank k" "Suc i < length m \<Longrightarrow> rank k < rank (fst (m ! Suc i))"
  shows "map_upper_bound ucmp k m = Suc i"
proof -
  have "rank (fst (m ! j)) \<le> rank k" if "j < Suc i" for j
  proof (cases "j = i")
    case False
    with that assms(1,2) have "rank (fst (m ! j)) < rank (fst (m ! i))"
      using sorted_wrt_nth_less [of "\<lambda>a b. rank (fst a) < rank (fst b)" m j i] by (simp add: increasing_def)
    then show ?thesis
      using assms(3) by simp
  qed (use assms(3) in simp)
  then have "takeWhile (\<lambda>y. \<not> ucmp k (fst y) < 0) m = take (Suc i) m"
    using assms(4) by (intro takeWhile_eq_take_P_nth) (auto simp: Compare_rank not_less)
  then show ?thesis
    using assms(2) by (simp add: map_upper_bound_def)
qed

lemma forward_loop_bound:
  assumes "increasing m" "i < length m" "rank (fst (m ! i)) \<le> rank k"
  shows "map_upper_bound ucmp k m = Suc (forward_loop ucmp k m i)"
  using assms(2,3)
proof (induction "length m - i" arbitrary: i rule: less_induct)
  case less
  show ?case
  proof (cases "Suc i < length m \<and> rank (fst (m ! Suc i)) \<le> rank k")
    case True
    then show ?thesis
      using less.hyps [of "Suc i"] diff_less_mono2 [of i "Suc i" "length m"] less.prems(1)
      by (simp add: forward_loop.simps [of ucmp k m i] Compare_rank)
  next
    case False
    then show ?thesis
      using upper_bound_at [OF assms(1) less.prems] by (auto simp: forward_loop.simps [of ucmp k m i] Compare_rank)
  qed
qed

lemma backward_loop_bound:
  assumes "increasing m" "i < length m" "Suc i < length m \<Longrightarrow> rank k < rank (fst (m ! Suc i))"
  shows "map_upper_bound ucmp k m = (if backward_loop ucmp k m i = 0 \<and> rank k < rank (fst (m ! 0)) then 0
      else Suc (backward_loop ucmp k m i))"
  using assms(2,3)
proof (induction i)
  case 0
  show ?case
  proof (cases "rank k < rank (fst (m ! 0))")
    case True
    then show ?thesis
      using 0 by (cases m) (simp_all add: map_upper_bound_def Compare_rank)
  next
    case False
    then show ?thesis
      using upper_bound_at [OF assms(1), of 0 k] 0 by simp
  qed
next
  case (Suc i)
  show ?case
  proof (cases "rank k < rank (fst (m ! Suc i))")
    case True
    then show ?thesis
      using Suc by (simp add: Compare_rank)
  next
    case False
    then show ?thesis
      using upper_bound_at [OF assms(1), of "Suc i" k] Suc.prems by (simp add: Compare_rank)
  qed
qed

lemma traversals_agree:
  assumes "increasing (raw_map p)" "iter p < length (raw_map p)"
  shows "iter p = 0 \<or> rank (fst (raw_map p ! iter p)) \<le> rank (user_key parsed) \<Longrightarrow>
      position ucmp kForwardTraversal parsed p = position ucmp kBinarySearch parsed p"
    "(Suc (iter p) < length (raw_map p) \<Longrightarrow> rank (user_key parsed) < rank (fst (raw_map p ! Suc (iter p)))) \<Longrightarrow>
      position ucmp kBackwardTraversal parsed p = position ucmp kBinarySearch parsed p"
proof -
  let ?m = "raw_map p" and ?k = "user_key parsed"
  show "position ucmp kForwardTraversal parsed p = position ucmp kBinarySearch parsed p"
    if "iter p = 0 \<or> rank (fst (?m ! iter p)) \<le> rank ?k"
  proof (cases "rank (fst (?m ! iter p)) \<le> rank ?k")
    case True
    then show ?thesis
      using forward_loop_bound [OF assms True] assms(2) leD [OF True] by (simp add: position_def Let_def Compare_rank)
  next
    case False
    then have "map_upper_bound ucmp ?k ?m = 0"
      using that assms(2) by (cases ?m) (simp_all add: map_upper_bound_def Compare_rank)
    then show ?thesis
      using False that assms(2) by (auto simp: position_def Let_def Compare_rank not_le)
  qed
  show "position ucmp kBackwardTraversal parsed p = position ucmp kBinarySearch parsed p"
    if "Suc (iter p) < length ?m \<Longrightarrow> rank ?k < rank (fst (?m ! Suc (iter p)))"
    using backward_loop_bound [OF assms that] assms(2) by (auto simp: position_def Let_def Compare_rank)
qed

lemma inverted_collapse:
  assumes "rank (end_key t) < rank (start_key t)"
  shows "collapse_into ucmp t [] = [collapsed_point (end_key t) 0, collapsed_point (start_key t) (tombstone_seq t)]"
  using assms by (simp add: collapse_into_def Compare_rank collapsed_point_def)

lemma inverted_answer:
  assumes "rank (end_key t) < rank (start_key t)" "rank (start_key t) \<le> rank (user_key parsed)"
    "sequence parsed < tombstone_seq t" "tombstone_seq t \<le> kMaxSequenceNumber"
  shows "fst (ShouldDelete ucmp kBinarySearch parsed
      (snd (AddTombstones ucmp (Some [RangeTombstone_Serialize t]) (RangeDelAggregator_of_snapshots [] True))))"
proof -
  have seq: "sequence parsed \<le> kMaxSequenceNumber"
    using assms(3,4) by simp
  have e: "rank (end_key t) \<le> rank (user_key parsed)"
    using assms(1,2) by simp
  have t: "RangeTombstone_of \<lparr>user_key = start_key t, sequence = tombstone_seq t, value_type = kTypeRangeDeletion\<rparr>
      (snd (RangeTombstone_Serialize t)) = t"
    by (simp add: RangeTombstone_of_def RangeTombstone_Serialize_def)
  have zero: "GetPositionalTombstoneMap s [(kMaxSequenceNumber, q)] = 0" if "s \<le> kMaxSequenceNumber" for s q
    using that by (simp add: stripe_index)
  have "snd (AddTombstones ucmp (Some [RangeTombstone_Serialize t]) (RangeDelAggregator_of_snapshots [] True)) =
      \<lparr>upper_bound = kMaxSequenceNumber, stripe_map = Some [(kMaxSequenceNumber,
        \<lparr>raw_map = [collapsed_point (end_key t) 0, collapsed_point (start_key t) (tombstone_seq t)], iter = 2\<rparr>)],
       collapse_deletions = True\<rparr>"
    using assms(4) inverted_collapse [OF assms(1)] Parse_Serialize [OF assms(4)] t
    by (cases "RangeTombstone_Serialize t")
      (simp add: AddTombstones_def RangeDelAggregator_of_snapshots_def InitRep_def InvalidateTombstoneMapPositions_def
        AddTombstone_def zero new_PositionalTombstoneMap_def Let_def)
  then show ?thesis
    using assms(2,3) e by (simp add: ShouldDelete_def zero [OF seq] position_def map_upper_bound_def collapsed_point_def Compare_rank Let_def)
qed

end

section \<open>Properties\<close>

text \<open>C17: Searching the collapsed tombstones, as compactions do, and scanning the original ones, as reads
  do, give the same answer: a key is deleted iff a tombstone of its snapshot stripe covers it.  This holds
  for every user comparator that orders keys linearly and for tombstones that start before they end.\<close>

theorem collapsed_equals_scan:
  assumes "user_order ucmp rank" "list_all (proper ucmp) ts" "sequence parsed \<le> kMaxSequenceNumber"
  shows "fst (ShouldDelete ucmp kBinarySearch parsed
      (snd (AddTombstones ucmp (Some (map RangeTombstone_Serialize ts)) (RangeDelAggregator_of_snapshots snapshots True))))
    = range_deleted ucmp snapshots ts parsed
    \<and> fst (ShouldDelete ucmp kFullScan parsed
      (snd (AddTombstones ucmp (Some (map RangeTombstone_Serialize ts)) (RangeDelAggregator_of_snapshots snapshots False))))
    = range_deleted ucmp snapshots ts parsed
    \<and> fst (ShouldDelete ucmp kFullScan parsed
      (snd (AddTombstones ucmp (Some (map RangeTombstone_Serialize ts)) (RangeDelAggregator_of_snapshot snapshot False))))
    = range_deleted ucmp [snapshot] ts parsed"
proof -
  have seqs: "\<forall>t\<in>set ts. tombstone_seq t \<le> kMaxSequenceNumber" and p: "\<forall>t\<in>set ts. proper ucmp t \<or> \<not> c" for c
    using assms(2) by (auto simp: list_all_iff proper_def)
  show ?thesis
    using user_order.aggregated_answer [OF assms(1) p seqs assms(3), of True]
      user_order.aggregated_answer [OF assms(1) p seqs assms(3), of False]
    by (simp add: mode_of_def)
qed

theorem collapsed_equals_scan_witness:
  "let ts = [\<lparr>start_key = [1], end_key = [5], tombstone_seq = 7\<rparr>, \<lparr>start_key = [3], end_key = [4], tombstone_seq = 9\<rparr>];
       agg = snd (AddTombstones BytewiseComparator_Compare (Some (map RangeTombstone_Serialize ts))
               (RangeDelAggregator_of_snapshots [] True))
   in fst (ShouldDelete BytewiseComparator_Compare kBinarySearch \<lparr>user_key = [3], sequence = 8, value_type = kTypeValue\<rparr> agg)
      \<and> \<not> fst (ShouldDelete BytewiseComparator_Compare kBinarySearch \<lparr>user_key = [4], sequence = 8, value_type = kTypeValue\<rparr> agg)"
  using collapsed_equals_scan [OF bytewise_user.user_order_axioms,
      of "[\<lparr>start_key = [1], end_key = [5], tombstone_seq = 7\<rparr>, \<lparr>start_key = [3], end_key = [4], tombstone_seq = 9\<rparr>]"
        "\<lparr>user_key = [3], sequence = 8, value_type = kTypeValue\<rparr>" "[]" 0]
    collapsed_equals_scan [OF bytewise_user.user_order_axioms,
      of "[\<lparr>start_key = [1], end_key = [5], tombstone_seq = 7\<rparr>, \<lparr>start_key = [3], end_key = [4], tombstone_seq = 9\<rparr>]"
        "\<lparr>user_key = [4], sequence = 8, value_type = kTypeValue\<rparr>" "[]" 0]
  by (simp add: proper_def kMaxSequenceNumber_def comparator_defs range_deleted_def covers_def same_stripe_def Let_def)

text \<open>C22: A range deletion whose end is before its start deletes nothing when it is read, but once it is
  collapsed, as every compaction does, it deletes every older key from its start on.\<close>

theorem inverted_range_deletes:
  assumes "user_order ucmp rank" "ucmp (end_key t) (start_key t) < 0" "ucmp (start_key t) (user_key parsed) \<le> 0"
    "sequence parsed < tombstone_seq t" "tombstone_seq t \<le> kMaxSequenceNumber"
  shows "fst (ShouldDelete ucmp kBinarySearch parsed
      (snd (AddTombstones ucmp (Some [RangeTombstone_Serialize t]) (RangeDelAggregator_of_snapshots [] True))))
    \<and> \<not> fst (ShouldDelete ucmp kFullScan parsed
      (snd (AddTombstones ucmp (Some [RangeTombstone_Serialize t]) (RangeDelAggregator_of_snapshots [] False))))"
proof -
  note r = user_order.axioms [OF assms(1), THEN ranked.Compare_rank(1)] user_order.axioms [OF assms(1), THEN ranked.Compare_rank(3)]
  have seq: "sequence parsed \<le> kMaxSequenceNumber"
    using assms(4,5) by simp
  have "fst (ShouldDelete ucmp kFullScan parsed
      (snd (AddTombstones ucmp (Some [RangeTombstone_Serialize t]) (RangeDelAggregator_of_snapshots [] False))))
    = range_deleted ucmp [] [t] parsed"
    using user_order.aggregated_answer(1) [OF assms(1), of "[t]" False parsed "[]"] assms(5) seq by (simp add: mode_of_def)
  moreover have "\<not> range_deleted ucmp [] [t] parsed"
    using assms(2,3) by (auto simp: range_deleted_def covers_def r)
  moreover have "fst (ShouldDelete ucmp kBinarySearch parsed
      (snd (AddTombstones ucmp (Some [RangeTombstone_Serialize t]) (RangeDelAggregator_of_snapshots [] True))))"
    using assms(2,3) by (intro user_order.inverted_answer [OF assms(1) _ _ assms(4,5)]) (simp_all add: r)
  ultimately show ?thesis
    by blast
qed

theorem inverted_range_deletes_witness:
  "let t = \<lparr>start_key = [2], end_key = [1], tombstone_seq = 5\<rparr>
   in fst (ShouldDelete BytewiseComparator_Compare kBinarySearch \<lparr>user_key = [200], sequence = 4, value_type = kTypeValue\<rparr>
        (snd (AddTombstones BytewiseComparator_Compare (Some [RangeTombstone_Serialize t]) (RangeDelAggregator_of_snapshots [] True))))"
  using inverted_range_deletes [OF bytewise_user.user_order_axioms, of "\<lparr>start_key = [2], end_key = [1], tombstone_seq = 5\<rparr>"
      "\<lparr>user_key = [200], sequence = 4, value_type = kTypeValue\<rparr>"]
  by (simp add: comparator_defs kMaxSequenceNumber_def Let_def)

end
