(* ===== verification/Memtable.thy ===== *)
theory Memtable
  imports Range_Del_Aggregator "HOL-Library.Multiset"
begin

text \<open>
  Memtables (db/memtable.cc, db/memtable.h): the entries a memtable holds, adding an entry alone or
  concurrently, and reading a key at a snapshot through values, deletions, merge operands and range
  tombstones (\<open>Get\<close> with its callback \<open>SaveValue\<close>), with the merge context (db/merge_context.h) and
  \<open>MergeHelper::TimedFullMerge\<close> (db/merge_helper.cc).

  A memtable representation is a record of its virtual functions (\<open>MemTableRep\<close>).  The locale
  \<open>memtable_rep\<close> states what a memtable needs of it; the vector representation (memtable/vectorrep.cc)
  is shown to provide it.  In-place updates and the prefix bloom filter, both off by default, are not
  modelled.
\<close>

section \<open>Entries\<close>

text \<open>\<open>GetLengthPrefixedSlice(const char*)\<close>: the bytes are known to be well-formed.\<close>

definition GetLengthPrefixedSlice_ptr :: "bytes \<Rightarrow> bytes" where
  "GetLengthPrefixedSlice_ptr data =
     (case GetVarint32Ptr data of Some (len, p) \<Rightarrow> take (unat len) p | None \<Rightarrow> [])"

definition KeyComparator_Compare :: "(bytes \<Rightarrow> bytes \<Rightarrow> int) \<Rightarrow> bytes \<Rightarrow> bytes \<Rightarrow> int" where
  "KeyComparator_Compare ucmp prefix_len_key1 prefix_len_key2 =
     InternalKeyComparator_Compare ucmp (GetLengthPrefixedSlice_ptr prefix_len_key1)
       (GetLengthPrefixedSlice_ptr prefix_len_key2)"

definition KeyComparator_CompareKey :: "(bytes \<Rightarrow> bytes \<Rightarrow> int) \<Rightarrow> bytes \<Rightarrow> bytes \<Rightarrow> int" where
  "KeyComparator_CompareKey ucmp prefix_len_key key =
     InternalKeyComparator_Compare ucmp (GetLengthPrefixedSlice_ptr prefix_len_key) key"

definition EncodeKey :: "bytes \<Rightarrow> bytes" where
  "EncodeKey target = PutVarint32 [] (word_of_nat (length target)) @ target"

definition UserKey :: "bytes \<Rightarrow> bytes" where
  "UserKey key = (let s = GetLengthPrefixedSlice_ptr key in take (length s - 8) s)"

text \<open>The buffer that \<open>Add\<close> fills.\<close>

definition encode_entry :: "u64 \<Rightarrow> ValueType \<Rightarrow> bytes \<Rightarrow> bytes \<Rightarrow> bytes" where
  "encode_entry s type key value =
     (let key_size = word_of_nat (length key); val_size = word_of_nat (length value);
          internal_key_size = key_size + 8
      in EncodeVarint32 internal_key_size @ key @ EncodeFixed64 (PackSequenceAndType s type)
         @ EncodeVarint32 val_size @ value)"

section \<open>Representations\<close>

text \<open>The virtual functions of \<open>MemTableRep\<close> a memtable calls; an iterator is the list of the entries it
  still yields, from the first one not less than the target of \<open>Seek\<close>.\<close>

record 'r MemTableRep =
  rep_new :: 'r
  rep_Insert :: "bytes \<Rightarrow> 'r \<Rightarrow> 'r"
  rep_Seek :: "bytes \<Rightarrow> 'r \<Rightarrow> bytes list"
  rep_SeekToFirst :: "'r \<Rightarrow> bytes list"
  rep_MarkReadOnly :: "'r \<Rightarrow> 'r"

text \<open>\<open>MemTableRep::Get\<close>: the loop over the iterator, with the callback's state.\<close>

fun rep_Get_loop :: "(bytes \<Rightarrow> 's \<Rightarrow> bool \<times> 's) \<Rightarrow> bytes list \<Rightarrow> 's \<Rightarrow> 's" where
  "rep_Get_loop callback [] s = s"
| "rep_Get_loop callback (entry # entries) s =
     (case callback entry s of (go_on, s) \<Rightarrow> if go_on then rep_Get_loop callback entries s else s)"

definition rep_Get :: "'r MemTableRep \<Rightarrow> 'r \<Rightarrow> LookupKey \<Rightarrow> (bytes \<Rightarrow> 's \<Rightarrow> bool \<times> 's) \<Rightarrow> 's \<Rightarrow> 's" where
  "rep_Get rep r k callback s = rep_Get_loop callback (rep_Seek rep (memtable_key k) r) s"

section \<open>Merging\<close>

record MergeContext =
  operand_list :: "bytes list"
  operands_reversed :: bool

definition new_MergeContext :: MergeContext where
  "new_MergeContext = \<lparr>operand_list = [], operands_reversed = True\<rparr>"

definition SetDirectionForward :: "MergeContext \<Rightarrow> MergeContext" where
  "SetDirectionForward c =
     (if operands_reversed c then c\<lparr>operand_list := rev (operand_list c), operands_reversed := False\<rparr> else c)"

definition SetDirectionBackward :: "MergeContext \<Rightarrow> MergeContext" where
  "SetDirectionBackward c =
     (if operands_reversed c then c else c\<lparr>operand_list := rev (operand_list c), operands_reversed := True\<rparr>)"

definition PushOperand :: "bytes \<Rightarrow> MergeContext \<Rightarrow> MergeContext" where
  "PushOperand operand c =
     (let c = SetDirectionBackward c in c\<lparr>operand_list := operand_list c @ [operand]\<rparr>)"

definition PushOperandBack :: "bytes \<Rightarrow> MergeContext \<Rightarrow> MergeContext" where
  "PushOperandBack operand c =
     (let c = SetDirectionForward c in c\<lparr>operand_list := operand_list c @ [operand]\<rparr>)"

definition GetNumOperands :: "MergeContext \<Rightarrow> nat" where
  "GetNumOperands c = length (operand_list c)"

definition GetOperands :: "MergeContext \<Rightarrow> bytes list \<times> MergeContext" where
  "GetOperands c = (let c = SetDirectionForward c in (operand_list c, c))"

text \<open>\<open>MergeOperator::FullMergeV2\<close>: success and the new value, for a key, the existing value and the
  operands from the oldest on.\<close>

type_synonym MergeOperator = "bytes \<Rightarrow> bytes option \<Rightarrow> bytes list \<Rightarrow> bool \<times> bytes"

definition TimedFullMerge :: "MergeOperator \<Rightarrow> bytes \<Rightarrow> bytes option \<Rightarrow> bytes list \<Rightarrow> bytes \<Rightarrow> Status \<times> bytes" where
  "TimedFullMerge merge_operator key value operands res =
     (if operands = [] then (OK, (case value of Some v \<Rightarrow> v | None \<Rightarrow> res))
      else (let (success, res) = merge_operator key value operands
            in (if success then OK else Corruption ''Error: Could not perform merge.'', res)))"

section \<open>The memtable\<close>

datatype FlushStateEnum = FLUSH_NOT_REQUESTED | FLUSH_REQUESTED | FLUSH_SCHEDULED

record ('r, 'q) MemTable =
  KeyFrequencies :: "bytes \<Rightarrow> u32"
  table :: 'r
  range_del_table :: 'q
  is_range_del_table_empty :: bool
  data_size :: u64
  num_entries :: u64
  num_deletes :: u64
  first_seqno :: u64
  earliest_seqno :: u64
  creation_seq :: u64
  min_prep_log_referenced :: u64
  flush_state :: FlushStateEnum

record MemTablePostProcessInfo =
  post_data_size :: u64
  post_num_entries :: u64
  post_num_deletes :: u64

text \<open>The parts of a memtable that do not change: its comparator, representations and merge operator, and
  \<open>ShouldFlushNow\<close>, which looks at the memory of its arena.\<close>

record ('r, 'q) MemTableOptions =
  user_comparator :: "bytes \<Rightarrow> bytes \<Rightarrow> int"
  table_rep :: "'r MemTableRep"
  range_del_rep :: "'q MemTableRep"
  mem_merge_operator :: "MergeOperator option"
  max_successive_merges :: nat
  ShouldFlushNow :: "('r, 'q) MemTable \<Rightarrow> bool"

definition UpdateFlushState :: "('r, 'q) MemTableOptions \<Rightarrow> ('r, 'q) MemTable \<Rightarrow> ('r, 'q) MemTable" where
  "UpdateFlushState opts m =
     (if flush_state m = FLUSH_NOT_REQUESTED \<and> ShouldFlushNow opts m then m\<lparr>flush_state := FLUSH_REQUESTED\<rparr> else m)"

definition ShouldScheduleFlush :: "('r, 'q) MemTable \<Rightarrow> bool" where
  "ShouldScheduleFlush m \<longleftrightarrow> flush_state m = FLUSH_REQUESTED"

definition MarkFlushScheduled :: "('r, 'q) MemTable \<Rightarrow> bool \<times> ('r, 'q) MemTable" where
  "MarkFlushScheduled m =
     (if flush_state m = FLUSH_REQUESTED then (True, m\<lparr>flush_state := FLUSH_SCHEDULED\<rparr>) else (False, m))"

definition new_MemTable :: "('r, 'q) MemTableOptions \<Rightarrow> u64 \<Rightarrow> ('r, 'q) MemTable" where
  "new_MemTable opts latest_seq =
     UpdateFlushState opts
       \<lparr>KeyFrequencies = (\<lambda>_. 0), table = rep_new (table_rep opts), range_del_table = rep_new (range_del_rep opts),
        is_range_del_table_empty = True, data_size = 0, num_entries = 0, num_deletes = 0, first_seqno = 0,
        earliest_seqno = latest_seq, creation_seq = latest_seq, min_prep_log_referenced = 0,
        flush_state = FLUSH_NOT_REQUESTED\<rparr>"

definition MemTable_IsEmpty :: "('r, 'q) MemTable \<Rightarrow> bool" where
  "MemTable_IsEmpty m \<longleftrightarrow> first_seqno m = 0"

definition encoded_len :: "bytes \<Rightarrow> bytes \<Rightarrow> u32" where
  "encoded_len key value =
     (let key_size = word_of_nat (length key) :: u32; val_size = word_of_nat (length value) :: u32;
          internal_key_size = key_size + 8
      in word_of_nat (VarintLength (ucast internal_key_size)) + internal_key_size
         + word_of_nat (VarintLength (ucast val_size)) + val_size)"

text \<open>The part of \<open>Add\<close> before and after its two branches: the count of the key, the insertion, and the
  flag of the range tombstones.\<close>

definition add_entry :: "('r, 'q) MemTableOptions \<Rightarrow> u64 \<Rightarrow> ValueType \<Rightarrow> bytes \<Rightarrow> bytes \<Rightarrow> ('r, 'q) MemTable \<Rightarrow>
    ('r, 'q) MemTable" where
  "add_entry opts s type key value m =
     (let m = m\<lparr>KeyFrequencies := (KeyFrequencies m)(key := KeyFrequencies m key + 1)\<rparr>;
          entry = encode_entry s type key value
      in if type = kTypeRangeDeletion
         then m\<lparr>range_del_table := rep_Insert (range_del_rep opts) entry (range_del_table m)\<rparr>
         else m\<lparr>table := rep_Insert (table_rep opts) entry (table m)\<rparr>)"

definition note_range_del :: "ValueType \<Rightarrow> ('r, 'q) MemTable \<Rightarrow> ('r, 'q) MemTable" where
  "note_range_del type m =
     (if is_range_del_table_empty m \<and> type = kTypeRangeDeletion then m\<lparr>is_range_del_table_empty := False\<rparr> else m)"

definition Add :: "('r, 'q) MemTableOptions \<Rightarrow> u64 \<Rightarrow> ValueType \<Rightarrow> bytes \<Rightarrow> bytes \<Rightarrow> ('r, 'q) MemTable \<Rightarrow> ('r, 'q) MemTable" where
  "Add opts s type key value m =
     (let m = add_entry opts s type key value m;
          m = m\<lparr>num_entries := num_entries m + 1\<rparr>;
          m = m\<lparr>data_size := data_size m + ucast (encoded_len key value)\<rparr>;
          m = (if type = kTypeDeletion then m\<lparr>num_deletes := num_deletes m + 1\<rparr> else m);
          m = (if first_seqno m = 0
               then (let m = m\<lparr>first_seqno := s\<rparr>
                     in if earliest_seqno m = kMaxSequenceNumber then m\<lparr>earliest_seqno := first_seqno m\<rparr> else m)
               else m);
          m = UpdateFlushState opts m
      in note_range_del type m)"

text \<open>The loops of the concurrent branch, with no other thread in between: a compare-and-exchange stores
  \<open>s\<close> when the object still has the value that was read and else reads it again.  The second loop exchanges
  \<open>first_seqno_\<close>, not \<open>earliest_seqno_\<close>.\<close>

definition concurrent_first_seqno :: "u64 \<Rightarrow> u64 \<Rightarrow> u64" where
  "concurrent_first_seqno s first = (if first = 0 \<or> s < first then s else first)"

definition concurrent_earliest_seqno :: "u64 \<Rightarrow> u64 \<Rightarrow> u64 \<Rightarrow> u64" where
  "concurrent_earliest_seqno s earliest first =
     (if earliest = kMaxSequenceNumber \<or> s < earliest
      then (if first = earliest then s
            else if first = kMaxSequenceNumber \<or> s < first then s
            else first)
      else first)"

definition AddConcurrently :: "('r, 'q) MemTableOptions \<Rightarrow> u64 \<Rightarrow> ValueType \<Rightarrow> bytes \<Rightarrow> bytes \<Rightarrow> MemTablePostProcessInfo \<Rightarrow>
    ('r, 'q) MemTable \<Rightarrow> MemTablePostProcessInfo \<times> ('r, 'q) MemTable" where
  "AddConcurrently opts s type key value info m =
     (let m = add_entry opts s type key value m;
          info = info\<lparr>post_num_entries := post_num_entries info + 1,
                      post_data_size := post_data_size info + ucast (encoded_len key value)\<rparr>;
          info = (if type = kTypeDeletion then info\<lparr>post_num_deletes := post_num_deletes info + 1\<rparr> else info);
          m = m\<lparr>first_seqno := concurrent_first_seqno s (first_seqno m)\<rparr>;
          m = m\<lparr>first_seqno := concurrent_earliest_seqno s (earliest_seqno m) (first_seqno m)\<rparr>
      in (info, note_range_del type m))"

definition BatchPostProcess :: "('r, 'q) MemTableOptions \<Rightarrow> MemTablePostProcessInfo \<Rightarrow> ('r, 'q) MemTable \<Rightarrow> ('r, 'q) MemTable" where
  "BatchPostProcess opts update_counters m =
     (let m = m\<lparr>num_entries := num_entries m + post_num_entries update_counters\<rparr>;
          m = m\<lparr>data_size := data_size m + post_data_size update_counters\<rparr>;
          m = (if post_num_deletes update_counters \<noteq> 0
               then m\<lparr>num_deletes := num_deletes m + post_num_deletes update_counters\<rparr> else m)
      in UpdateFlushState opts m)"

definition RefLogContainingPrepSection :: "u64 \<Rightarrow> ('r, 'q) MemTable \<Rightarrow> ('r, 'q) MemTable" where
  "RefLogContainingPrepSection log m =
     (let cur = min_prep_log_referenced m
      in if log < cur \<or> cur = 0 then m\<lparr>min_prep_log_referenced := log\<rparr> else m)"

definition MarkImmutable :: "('r, 'q) MemTableOptions \<Rightarrow> ('r, 'q) MemTable \<Rightarrow> ('r, 'q) MemTable" where
  "MarkImmutable opts m = m\<lparr>table := rep_MarkReadOnly (table_rep opts) (table m)\<rparr>"

section \<open>Reading\<close>

text \<open>An entry as \<open>SaveValue\<close> reads it: the user key, the tag's parts, the internal key and the value.\<close>

record mem_entry =
  e_user_key :: bytes
  e_seq :: u64
  e_type :: ValueType
  e_ikey :: bytes
  e_value :: bytes

definition parse_entry :: "bytes \<Rightarrow> mem_entry" where
  "parse_entry entry =
     (case GetVarint32Ptr entry of
        Some (key_length, key_ptr) \<Rightarrow>
          (let n = unat key_length;
               (seq, type) = UnPackSequenceAndType (DecodeFixed64 (drop (n - 8) key_ptr))
           in \<lparr>e_user_key = take (n - 8) key_ptr, e_seq = seq, e_type = type, e_ikey = take n key_ptr,
               e_value = GetLengthPrefixedSlice_ptr (drop n key_ptr)\<rparr>)
      | None \<Rightarrow> \<lparr>e_user_key = [], e_seq = 0, e_type = 0, e_ikey = [], e_value = []\<rparr>)"

record Saver =
  sv_status :: Status
  found_final_value :: bool
  merge_in_progress :: bool
  sv_value :: bytes
  sv_seq :: u64
  merge_context :: MergeContext
  range_del_agg :: RangeDelAggregator

text \<open>\<open>Comparator::Equal\<close> is \<open>Compare\<close> giving 0; an entry that does not parse as an internal key only
  fails an assertion in \<open>ShouldDelete\<close>.\<close>

definition agg_ShouldDelete :: "(bytes \<Rightarrow> bytes \<Rightarrow> int) \<Rightarrow> bytes \<Rightarrow> RangeDelAggregator \<Rightarrow> bool \<times> RangeDelAggregator" where
  "agg_ShouldDelete ucmp internal_key agg =
     (if stripe_map agg = None then (False, agg)
      else (case ParseInternalKey internal_key of
              Some parsed \<Rightarrow> ShouldDelete ucmp kFullScan parsed agg
            | None \<Rightarrow> (False, agg)))"

definition SaveValue :: "(bytes \<Rightarrow> bytes \<Rightarrow> int) \<Rightarrow> MergeOperator option \<Rightarrow> bytes \<Rightarrow> bytes \<Rightarrow> Saver \<Rightarrow> bool \<times> Saver" where
  "SaveValue ucmp merge_operator lookup_key entry s =
     (let e = parse_entry entry
      in if ucmp (e_user_key e) lookup_key = 0 then
           (let s = s\<lparr>sv_seq := e_seq e\<rparr>;
                (deleted, agg) = (if e_type e = kTypeValue \<or> e_type e = kTypeMerge
                                  then agg_ShouldDelete ucmp (e_ikey e) (range_del_agg s)
                                  else (False, range_del_agg s));
                s = s\<lparr>range_del_agg := agg\<rparr>;
                type = (if deleted then kTypeRangeDeletion else e_type e)
            in if type = kTypeValue then
                 (let s = s\<lparr>sv_status := OK\<rparr>;
                      s = (if merge_in_progress s
                           then (let (operands, c) = GetOperands (merge_context s);
                                     (st, v) = TimedFullMerge (the merge_operator) lookup_key (Some (e_value e)) operands (sv_value s)
                                 in s\<lparr>sv_status := st, sv_value := v, merge_context := c\<rparr>)
                           else s\<lparr>sv_value := e_value e\<rparr>)
                  in (False, s\<lparr>found_final_value := True\<rparr>))
               else if type = kTypeDeletion \<or> type = kTypeSingleDeletion \<or> type = kTypeRangeDeletion then
                 (let s = (if merge_in_progress s
                           then (let (operands, c) = GetOperands (merge_context s);
                                     (st, v) = TimedFullMerge (the merge_operator) lookup_key None operands (sv_value s)
                                 in s\<lparr>sv_status := st, sv_value := v, merge_context := c\<rparr>)
                           else s\<lparr>sv_status := NotFound\<rparr>)
                  in (False, s\<lparr>found_final_value := True\<rparr>))
               else if type = kTypeMerge then
                 (case merge_operator of
                    None \<Rightarrow>
                      (False, s\<lparr>sv_status := InvalidArgument ''merge_operator is not properly initialized.'',
                                found_final_value := True\<rparr>)
                  | Some _ \<Rightarrow>
                      (True, s\<lparr>merge_in_progress := True, merge_context := PushOperand (e_value e) (merge_context s)\<rparr>))
               else (True, s))
         else (False, s))"

text \<open>The tombstones \<open>NewRangeTombstoneIterator\<close> yields: key and value of each entry.\<close>

definition NewRangeTombstoneIterator :: "('r, 'q) MemTableOptions \<Rightarrow> bool \<Rightarrow> ('r, 'q) MemTable \<Rightarrow> (bytes \<times> bytes) list option" where
  "NewRangeTombstoneIterator opts ignore_range_deletions m =
     (if ignore_range_deletions \<or> is_range_del_table_empty m then None
      else Some (map (\<lambda>entry. (e_ikey (parse_entry entry), e_value (parse_entry entry)))
                  (rep_SeekToFirst (range_del_rep opts) (range_del_table m))))"

record get_result =
  get_found :: bool
  get_value :: bytes
  get_status :: Status
  get_seq :: u64
  get_context :: MergeContext
  get_agg :: RangeDelAggregator

definition Get :: "('r, 'q) MemTableOptions \<Rightarrow> bool \<Rightarrow> LookupKey \<Rightarrow> bytes \<Rightarrow> Status \<Rightarrow> MergeContext \<Rightarrow> RangeDelAggregator \<Rightarrow> u64 \<Rightarrow>
    ('r, 'q) MemTable \<Rightarrow> get_result" where
  "Get opts ignore_range_deletions key value s context agg seq m =
     (if MemTable_IsEmpty m
      then \<lparr>get_found = False, get_value = value, get_status = s, get_seq = seq, get_context = context, get_agg = agg\<rparr>
      else
        (let (status, agg) = AddTombstones (user_comparator opts) (NewRangeTombstoneIterator opts ignore_range_deletions m) agg
         in if \<not> ok status
            then \<lparr>get_found = False, get_value = value, get_status = status, get_seq = seq, get_context = context, get_agg = agg\<rparr>
            else
              (let saver = \<lparr>sv_status = s, found_final_value = False, merge_in_progress = IsMergeInProgress s,
                            sv_value = value, sv_seq = kMaxSequenceNumber, merge_context = context, range_del_agg = agg\<rparr>;
                   saver = rep_Get (table_rep opts) (table m) key
                             (SaveValue (user_comparator opts) (mem_merge_operator opts) (lookup_user_key key)) saver
               in \<lparr>get_found = found_final_value saver, get_value = sv_value saver,
                   get_status = (if \<not> found_final_value saver \<and> merge_in_progress saver then MergeInProgress
                                 else sv_status saver),
                   get_seq = sv_seq saver, get_context = merge_context saver, get_agg = range_del_agg saver\<rparr>)))"

text \<open>The merge operands at the head of a key.\<close>

definition CountSuccessiveMergeEntries :: "('r, 'q) MemTableOptions \<Rightarrow> LookupKey \<Rightarrow> ('r, 'q) MemTable \<Rightarrow> nat" where
  "CountSuccessiveMergeEntries opts key m =
     length (takeWhile (\<lambda>entry. user_comparator opts (e_user_key (parse_entry entry)) (lookup_user_key key) = 0
                               \<and> e_type (parse_entry entry) = kTypeMerge)
              (rep_Seek (table_rep opts) (memtable_key key) (table m)))"

section \<open>The vector representation\<close>

record VectorRep =
  bucket :: "bytes list"
  vec_immutable :: bool
  vec_sorted :: bool

text \<open>\<open>std::sort\<close> with the entries' comparator.\<close>

fun insort_by :: "(bytes \<Rightarrow> bytes \<Rightarrow> int) \<Rightarrow> bytes \<Rightarrow> bytes list \<Rightarrow> bytes list" where
  "insort_by cmp x [] = [x]"
| "insort_by cmp x (y # ys) = (if cmp x y < 0 then x # y # ys else y # insort_by cmp x ys)"

definition sort_by :: "(bytes \<Rightarrow> bytes \<Rightarrow> int) \<Rightarrow> bytes list \<Rightarrow> bytes list" where
  "sort_by cmp xs = fold (insort_by cmp) xs []"

definition new_VectorRep :: VectorRep where
  "new_VectorRep = \<lparr>bucket = [], vec_immutable = False, vec_sorted = False\<rparr>"

definition VectorRep_Insert :: "bytes \<Rightarrow> VectorRep \<Rightarrow> VectorRep" where
  "VectorRep_Insert key r = r\<lparr>bucket := bucket r @ [key]\<rparr>"

definition VectorRep_MarkReadOnly :: "VectorRep \<Rightarrow> VectorRep" where
  "VectorRep_MarkReadOnly r = r\<lparr>vec_immutable := True\<rparr>"

text \<open>\<open>DoSort\<close>: an iterator over an immutable vector sorts it in place, once; the others sort their copy.\<close>

definition VectorRep_DoSort :: "(bytes \<Rightarrow> bytes \<Rightarrow> int) \<Rightarrow> VectorRep \<Rightarrow> bytes list \<times> VectorRep" where
  "VectorRep_DoSort cmp r =
     (if vec_immutable r
      then (if vec_sorted r then (bucket r, r)
            else (let b = sort_by cmp (bucket r) in (b, r\<lparr>bucket := b, vec_sorted := True\<rparr>)))
      else (sort_by cmp (bucket r), r))"

definition VectorRep_Seek :: "(bytes \<Rightarrow> bytes \<Rightarrow> int) \<Rightarrow> bytes \<Rightarrow> VectorRep \<Rightarrow> bytes list" where
  "VectorRep_Seek cmp target r = dropWhile (\<lambda>e. cmp e target < 0) (fst (VectorRep_DoSort cmp r))"

definition VectorRep_SeekToFirst :: "(bytes \<Rightarrow> bytes \<Rightarrow> int) \<Rightarrow> VectorRep \<Rightarrow> bytes list" where
  "VectorRep_SeekToFirst cmp r = fst (VectorRep_DoSort cmp r)"

definition vector_rep :: "(bytes \<Rightarrow> bytes \<Rightarrow> int) \<Rightarrow> VectorRep MemTableRep" where
  "vector_rep ucmp =
     \<lparr>rep_new = new_VectorRep, rep_Insert = VectorRep_Insert, rep_Seek = VectorRep_Seek (KeyComparator_Compare ucmp),
      rep_SeekToFirst = VectorRep_SeekToFirst (KeyComparator_Compare ucmp), rep_MarkReadOnly = VectorRep_MarkReadOnly\<rparr>"

section \<open>The contract of a representation\<close>

text \<open>Entries are ordered by a rank; a writable representation takes an entry whose rank it does not hold
  yet, and iterators yield what it holds in order.\<close>

locale memtable_rep =
  fixes rep :: "'r MemTableRep" and erank :: "bytes \<Rightarrow> 'o::linorder"
    and writable :: "'r \<Rightarrow> bool" and readable :: "'r \<Rightarrow> bool" and contents :: "'r \<Rightarrow> bytes set"
  assumes rep_new: "writable (rep_new rep)" "contents (rep_new rep) = {}"
    and rep_Insert: "writable r \<Longrightarrow> erank e \<notin> erank ` contents r \<Longrightarrow> writable (rep_Insert rep e r)"
      "writable r \<Longrightarrow> erank e \<notin> erank ` contents r \<Longrightarrow> contents (rep_Insert rep e r) = insert e (contents r)"
    and rep_readable: "writable r \<Longrightarrow> readable r"
    and rep_MarkReadOnly: "writable r \<Longrightarrow> readable (rep_MarkReadOnly rep r)"
      "contents (rep_MarkReadOnly rep r) = contents r"
    and rep_Seek: "readable r \<Longrightarrow> sorted_wrt (\<lambda>a b. erank a < erank b) (rep_Seek rep k r)"
      "readable r \<Longrightarrow> set (rep_Seek rep k r) = {e \<in> contents r. erank k \<le> erank e}"
    and rep_SeekToFirst: "readable r \<Longrightarrow> sorted_wrt (\<lambda>a b. erank a < erank b) (rep_SeekToFirst rep r)"
      "readable r \<Longrightarrow> set (rep_SeekToFirst rep r) = contents r"

lemma sorted_wrt_unique:
  fixes f :: "'a \<Rightarrow> 'o::linorder"
  assumes "sorted_wrt (\<lambda>a b. f a < f b) xs" "sorted_wrt (\<lambda>a b. f a < f b) ys" "set xs = set ys"
  shows "xs = ys"
proof -
  have inj: "inj_on f (set xs)"
    using assms(1) by (auto simp: inj_on_def in_set_conv_nth sorted_wrt_iff_nth_less) (metis less_irrefl nat_neq_iff)
  have "sorted_wrt (<) (map f xs)" "sorted_wrt (<) (map f ys)" "set (map f xs) = set (map f ys)"
    using assms by (simp_all add: sorted_wrt_map)
  then have "map f xs = map f ys"
    by (intro sorted_distinct_set_unique) (simp_all add: strict_sorted_iff)
  then show ?thesis
    using inj assms(3) by (metis inj_on_map_eq_map sup.idem)
qed

lemma insort_by_sorted:
  fixes f :: "bytes \<Rightarrow> 'o::linorder"
  assumes "ranked cmp f" "sorted_wrt (\<lambda>a b. f a < f b) xs" "f x \<notin> f ` set xs"
  shows "sorted_wrt (\<lambda>a b. f a < f b) (insort_by cmp x xs)"
proof -
  have set: "set (insort_by cmp x ys) = insert x (set ys)" for ys
    by (induction ys) auto
  show ?thesis
    using assms(2,3) by (induction xs) (auto simp: set ranked.Compare_rank [OF assms(1)])
qed

lemma sort_by_sorted:
  fixes f :: "bytes \<Rightarrow> 'o::linorder"
  assumes "ranked cmp f" "distinct (map f xs)"
  shows "sorted_wrt (\<lambda>a b. f a < f b) (sort_by cmp xs)" "set (sort_by cmp xs) = set xs"
proof -
  have set: "set (insort_by cmp x ys) = insert x (set ys)" for x ys
    by (induction ys) auto
  have "sorted_wrt (\<lambda>a b. f a < f b) (fold (insort_by cmp) xs acc) \<and> set (fold (insort_by cmp) xs acc) = set xs \<union> set acc"
    if "sorted_wrt (\<lambda>a b. f a < f b) acc" "distinct (map f xs)" "f ` set xs \<inter> f ` set acc = {}" for acc
    using that
  proof (induction xs arbitrary: acc)
    case (Cons x xs)
    have "sorted_wrt (\<lambda>a b. f a < f b) (insort_by cmp x acc)"
      using Cons.prems by (intro insort_by_sorted [OF assms(1)]) auto
    with Cons.prems show ?case
      using Cons.IH [of "insort_by cmp x acc"] by (auto simp: set)
  qed simp
  from this [of "[]"] show "sorted_wrt (\<lambda>a b. f a < f b) (sort_by cmp xs)" "set (sort_by cmp xs) = set xs"
    using assms(2) by (simp_all add: sort_by_def)
qed

definition entry_rank :: "(bytes \<Rightarrow> 'o) \<Rightarrow> bytes \<Rightarrow> 'o \<times> u64 descending" where
  "entry_rank rank e = internal_rank rank (GetLengthPrefixedSlice_ptr e)"

lemma entry_ranked: "user_order ucmp rank \<Longrightarrow> ranked (KeyComparator_Compare ucmp) (entry_rank rank)"
  using internal_ranked [of ucmp rank]
  by (auto simp: user_order_def ranked_def KeyComparator_Compare_def entry_rank_def)

definition vector_ok :: "(bytes \<Rightarrow> 'o::linorder) \<Rightarrow> VectorRep \<Rightarrow> bool" where
  "vector_ok erank r \<longleftrightarrow> distinct (map erank (bucket r))
     \<and> (vec_sorted r \<longrightarrow> sorted_wrt (\<lambda>a b. erank a < erank b) (bucket r))"

lemma sorted_wrt_distinct: "sorted_wrt (\<lambda>a b. f a < f b) xs \<Longrightarrow> distinct (map f xs)" for f :: "'a \<Rightarrow> 'o::linorder"
  using strict_sorted_iff [of "map f xs"] by (simp add: sorted_wrt_map)

lemma DoSort_ok:
  assumes "ranked cmp erank" "vector_ok erank r"
  shows "sorted_wrt (\<lambda>a b. erank a < erank b) (fst (VectorRep_DoSort cmp r))"
    "set (fst (VectorRep_DoSort cmp r)) = set (bucket r)"
    "vector_ok erank (snd (VectorRep_DoSort cmp r))" "set (bucket (snd (VectorRep_DoSort cmp r))) = set (bucket r)"
  using assms sort_by_sorted [OF assms(1), of "bucket r"]
  by (auto simp: VectorRep_DoSort_def vector_ok_def Let_def dest: sorted_wrt_distinct)

lemma set_dropWhile_sorted:
  assumes "sorted_wrt (\<lambda>a b. f a < f b) xs"
  shows "set (dropWhile (\<lambda>e. f e < (c :: 'o::linorder)) xs) = {e \<in> set xs. c \<le> f e}"
  using assms by (induction xs) (auto simp: not_less intro: order_trans less_imp_le)

lemma vector_memtable_rep:
  assumes "user_order ucmp rank"
  shows "memtable_rep (vector_rep ucmp) (entry_rank rank) (\<lambda>r. \<not> vec_immutable r \<and> \<not> vec_sorted r \<and> vector_ok (entry_rank rank) r)
    (vector_ok (entry_rank rank)) (\<lambda>r. set (bucket r))"
proof -
  note r = entry_ranked [OF assms]
  note c = ranked.Compare_rank [OF r]
  show ?thesis
  proof
    show "sorted_wrt (\<lambda>a b. entry_rank rank a < entry_rank rank b) (rep_Seek (vector_rep ucmp) k v)"
      "set (rep_Seek (vector_rep ucmp) k v) = {e \<in> set (bucket v). entry_rank rank k \<le> entry_rank rank e}"
      if "vector_ok (entry_rank rank) v" for k v
      using DoSort_ok(1,2) [OF r that] set_dropWhile_sorted [OF DoSort_ok(1) [OF r that], of "entry_rank rank k"]
      by (simp_all add: vector_rep_def VectorRep_Seek_def c sorted_wrt_dropWhile)
  qed (use DoSort_ok(1,2) [OF r] in \<open>auto simp: vector_rep_def new_VectorRep_def VectorRep_Insert_def vector_ok_def
        VectorRep_MarkReadOnly_def VectorRep_SeekToFirst_def\<close>)
qed

interpretation vector_bytewise: memtable_rep "vector_rep BytewiseComparator_Compare" "entry_rank (\<lambda>k. k)"
  "\<lambda>r. \<not> vec_immutable r \<and> \<not> vec_sorted r \<and> vector_ok (entry_rank (\<lambda>k. k)) r" "vector_ok (entry_rank (\<lambda>k. k))" "\<lambda>r. set (bucket r)"
  by (rule vector_memtable_rep) (rule bytewise_user.user_order_axioms)

end
