(* ===== verification/Memtable_Props.thy ===== *)
theory Memtable_Props
  imports Memtable
begin

text \<open>
  What a memtable holds and returns: a memtable to which updates were added, in any order of their
  sequence numbers, answers a read at a snapshot as the list of those updates prescribes.
\<close>

section \<open>Updates\<close>

text \<open>An update is its sequence number, its type, its user key and its value (the end key of a range
  deletion).\<close>

type_synonym update = "u64 \<times> ValueType \<times> bytes \<times> bytes"

definition update_ok :: "update \<Rightarrow> bool" where
  "update_ok u \<longleftrightarrow> (case u of (s, t, k, v) \<Rightarrow>
     0 < s \<and> s \<le> kMaxSequenceNumber \<and> IsExtendedValueType t \<and> length k + 8 < 2 ^ 32 \<and> short v)"

definition updates_ok :: "update list \<Rightarrow> bool" where
  "updates_ok ups \<longleftrightarrow> list_all update_ok ups \<and> distinct (map fst ups)"

definition add_all :: "('r, 'q) MemTableOptions \<Rightarrow> update list \<Rightarrow> ('r, 'q) MemTable \<Rightarrow> ('r, 'q) MemTable" where
  "add_all opts ups m = fold (\<lambda>(s, t, k, v). Add opts s t k v) ups m"

text \<open>The versions of a key that a snapshot sees, the newest first, and the range deletions it sees.\<close>

definition visible :: "(bytes \<Rightarrow> bytes \<Rightarrow> int) \<Rightarrow> update list \<Rightarrow> bytes \<Rightarrow> u64 \<Rightarrow> update list" where
  "visible ucmp ups key snapshot =
     rev (sort_key fst (filter (\<lambda>(s, t, k, v). ucmp k key = 0 \<and> s \<le> snapshot \<and> t \<noteq> kTypeRangeDeletion) ups))"

definition range_covered :: "(bytes \<Rightarrow> bytes \<Rightarrow> int) \<Rightarrow> update list \<Rightarrow> u64 \<Rightarrow> update \<Rightarrow> bool" where
  "range_covered ucmp ups snapshot u =
     (case u of (s, t, k, v) \<Rightarrow>
        list_ex (\<lambda>(s', t', start, stop). t' = kTypeRangeDeletion \<and> s' \<le> snapshot \<and> s < s'
                   \<and> ucmp start k \<le> 0 \<and> ucmp k stop < 0) ups)"

datatype read_base = NoBase | BaseValue bytes | BaseDeleted

text \<open>The merge operands above the newest version that is not one, the newest first, and that version.\<close>

fun read_versions :: "(update \<Rightarrow> bool) \<Rightarrow> update list \<Rightarrow> bytes list \<times> read_base" where
  "read_versions covered [] = ([], NoBase)"
| "read_versions covered ((s, t, k, v) # vs) =
     (if (t = kTypeValue \<or> t = kTypeMerge) \<and> covered (s, t, k, v) then ([], BaseDeleted)
      else if t = kTypeValue then ([], BaseValue v)
      else if t = kTypeMerge then (let (ops, b) = read_versions covered vs in (v # ops, b))
      else ([], BaseDeleted))"

text \<open>The outcome of a read: whether it is final, the value and the status; \<open>prior\<close> are the operands
  collected before, the newest first, when a merge is in progress.\<close>

definition finish_read :: "MergeOperator option \<Rightarrow> bytes \<Rightarrow> bytes \<Rightarrow> Status \<Rightarrow> bool \<Rightarrow> bytes list \<Rightarrow> bytes list \<times> read_base \<Rightarrow>
    bool \<times> bytes \<times> Status" where
  "finish_read merge_op key value status in_progress prior r =
     (case r of (ops, base) \<Rightarrow>
        (let merging = in_progress \<or> ops \<noteq> [];
             merge = (\<lambda>existing. let (st, v) = TimedFullMerge (the merge_op) key existing (rev (prior @ ops)) value in (True, v, st))
         in if ops \<noteq> [] \<and> merge_op = None
            then (True, value, InvalidArgument ''merge_operator is not properly initialized.'')
            else (case base of
                    NoBase \<Rightarrow> (False, value, if merging then MergeInProgress else status)
                  | BaseValue v \<Rightarrow> if merging then merge (Some v) else (True, v, OK)
                  | BaseDeleted \<Rightarrow> if merging then merge None else (True, value, NotFound))))"

section \<open>Entries\<close>

definition enc :: "update \<Rightarrow> bytes" where
  "enc u = (case u of (s, t, k, v) \<Rightarrow> encode_entry s t k v)"

lemma get_varint_ptr [simp]: "GetVarint32Ptr (EncodeVarint32 w @ rest) = Some (w, rest)"
  using get_varint(1) [of w rest] by (simp add: GetVarint32_def)

lemma entry_parts:
  assumes "length k + 8 < 2 ^ 32" "short v" "s \<le> kMaxSequenceNumber"
  shows "parse_entry (encode_entry s t k v) =
      \<lparr>e_user_key = k, e_seq = s, e_type = t, e_ikey = k @ EncodeFixed64 (PackSequenceAndType s t), e_value = v\<rparr>"
    "GetLengthPrefixedSlice_ptr (encode_entry s t k v) = k @ EncodeFixed64 (PackSequenceAndType s t)"
    "entry_rank rank (encode_entry s t k v) = (rank k, Desc (PackSequenceAndType s t))"
proof -
  have n: "unat (word_of_nat (length k) + 8 :: u32) = length k + 8"
    using assms(1) by (simp add: unat_word_ariths unat_of_nat take_bit_nat_eq_self)
  have v: "GetLengthPrefixedSlice_ptr (EncodeVarint32 (word_of_nat (length v)) @ v) = v"
    using assms(2) by (simp add: GetLengthPrefixedSlice_ptr_def short_def unat_of_nat take_bit_nat_eq_self)
  show "parse_entry (encode_entry s t k v) =
      \<lparr>e_user_key = k, e_seq = s, e_type = t, e_ikey = k @ EncodeFixed64 (PackSequenceAndType s t), e_value = v\<rparr>"
    using assms(3) v
    by (simp add: parse_entry_def encode_entry_def n UnPackSequenceAndType_def drop_bit_Pack ucast_and_255 Let_def)
  show g: "GetLengthPrefixedSlice_ptr (encode_entry s t k v) = k @ EncodeFixed64 (PackSequenceAndType s t)"
    by (simp add: GetLengthPrefixedSlice_ptr_def encode_entry_def n Let_def)
  show "entry_rank rank (encode_entry s t k v) = (rank k, Desc (PackSequenceAndType s t))"
    by (simp add: entry_rank_def g internal_rank_def)
qed

lemma lookup_parts:
  assumes "length k + 8 < 2 ^ 32"
  shows "lookup_user_key (new_LookupKey k s) = k"
    "entry_rank rank (memtable_key (new_LookupKey k s)) = (rank k, Desc (PackSequenceAndType s kValueTypeForSeek))"
proof -
  have n: "unat (word_of_nat (length k + 8) :: u32) = length k + 8"
    using assms by (simp add: unat_of_nat take_bit_nat_eq_self del: of_nat_add)
  show "lookup_user_key (new_LookupKey k s) = k"
    by (simp add: lookup_user_key_def new_LookupKey_def Let_def)
  show "entry_rank rank (memtable_key (new_LookupKey k s)) = (rank k, Desc (PackSequenceAndType s kValueTypeForSeek))"
    by (simp add: entry_rank_def memtable_key_def new_LookupKey_def GetLengthPrefixedSlice_ptr_def n internal_rank_def Let_def
        del: of_nat_add)
qed

lemma list_of_image: "set ys \<subseteq> f ` A \<Longrightarrow> \<exists>xs. ys = map f xs \<and> set xs \<subseteq> A"
proof (induction ys)
  case (Cons y ys)
  then obtain x xs where "y = f x" "x \<in> A" "ys = map f xs" "set xs \<subseteq> A"
    by auto
  then show ?case
    by (intro exI [of _ "x # xs"]) simp
qed simp

lemma takeWhile_prefix:
  "sorted_wrt (\<lambda>a b. P b \<longrightarrow> P a) xs \<Longrightarrow> takeWhile P xs = filter P xs"
  "sorted_wrt (\<lambda>a b. P b \<longrightarrow> P a) xs \<Longrightarrow> x \<in> set (dropWhile P xs) \<Longrightarrow> \<not> P x"
  by (induction xs) (auto simp: filter_empty_conv split: if_splits)

lemma first_prefix:
  fixes f :: "'a \<Rightarrow> 'o::linorder \<times> 'p::linorder"
  assumes "sorted_wrt (\<lambda>a b. f a < f b) xs" "\<And>x. x \<in> set xs \<Longrightarrow> c \<le> fst (f x)"
  shows "sorted_wrt (\<lambda>a b. fst (f b) = c \<longrightarrow> fst (f a) = c) xs"
proof (rule sorted_wrt_mono_rel [OF _ assms(1)])
  fix a b
  assume a: "a \<in> set xs" "f a < f b"
  then have "c \<le> fst (f a)" "fst (f a) \<le> fst (f b)"
    using assms(2) by (auto simp: less_prod_def)
  then show "fst (f b) = c \<longrightarrow> fst (f a) = c"
    by auto
qed

section \<open>What a memtable holds\<close>

text \<open>A memtable whose representations keep their contract, for a user comparator with a rank.\<close>

locale memtable_order =
  user_order "user_comparator opts" rank
  + t: memtable_rep "table_rep opts" "entry_rank rank" twritable treadable tcontents
  + q: memtable_rep "range_del_rep opts" "entry_rank rank" qwritable qreadable qcontents
  for opts :: "('r, 'q) MemTableOptions" and rank :: "bytes \<Rightarrow> 'o::linorder"
    and twritable treadable tcontents qwritable qreadable qcontents
begin

definition holds :: "update list \<Rightarrow> ('r, 'q) MemTable \<Rightarrow> bool" where
  "holds ups m \<longleftrightarrow> updates_ok ups \<and> twritable (table m) \<and> qwritable (range_del_table m)
     \<and> tcontents (table m) = enc ` {u \<in> set ups. fst (snd u) \<noteq> kTypeRangeDeletion}
     \<and> qcontents (range_del_table m) = enc ` {u \<in> set ups. fst (snd u) = kTypeRangeDeletion}
     \<and> (is_range_del_table_empty m \<longleftrightarrow> \<not> (\<exists>u\<in>set ups. fst (snd u) = kTypeRangeDeletion))
     \<and> (first_seqno m = 0 \<longleftrightarrow> ups = [])"

lemma enc_rank: "update_ok u \<Longrightarrow> entry_rank rank (enc u) = (rank (fst (snd (snd u))), Desc (PackSequenceAndType (fst u) (fst (snd u))))"
  by (cases u) (simp add: update_ok_def enc_def entry_parts)

lemma enc_fresh:
  assumes "update_ok u" "\<forall>w\<in>A. update_ok w" "fst u \<notin> fst ` A"
  shows "entry_rank rank (enc u) \<notin> entry_rank rank ` enc ` A"
proof
  assume "entry_rank rank (enc u) \<in> entry_rank rank ` enc ` A"
  then obtain w where w: "w \<in> A" "entry_rank rank (enc u) = entry_rank rank (enc w)"
    by auto
  then have "PackSequenceAndType (fst u) (fst (snd u)) = PackSequenceAndType (fst w) (fst (snd w))"
    using assms(1,2) by (simp add: enc_rank)
  then have "drop_bit 8 (PackSequenceAndType (fst u) (fst (snd u))) = drop_bit 8 (PackSequenceAndType (fst w) (fst (snd w)))"
    by simp
  then have "fst u = fst w"
    using assms(1,2) w(1) by (cases u, cases w) (force simp: update_ok_def drop_bit_Pack)
  then show False
    using assms(3) w(1) by auto
qed

lemma holds_new: "holds [] (new_MemTable opts q0)"
  by (simp add: holds_def updates_ok_def new_MemTable_def UpdateFlushState_def t.rep_new q.rep_new)

lemma UpdateFlushState_same [simp]:
  "table (UpdateFlushState opts m) = table m" "range_del_table (UpdateFlushState opts m) = range_del_table m"
  "is_range_del_table_empty (UpdateFlushState opts m) = is_range_del_table_empty m"
  "first_seqno (UpdateFlushState opts m) = first_seqno m"
  by (simp_all add: UpdateFlushState_def)

lemma holds_entry:
  assumes "holds ups m" "update_ok (s, t, k, v)" "s \<notin> fst ` set ups"
    "table m' = table (add_entry opts s t k v m)" "range_del_table m' = range_del_table (add_entry opts s t k v m)"
    "is_range_del_table_empty m' = (is_range_del_table_empty m \<and> t \<noteq> kTypeRangeDeletion)" "first_seqno m' \<noteq> 0"
  shows "holds (ups @ [(s, t, k, v)]) m'"
proof -
  let ?u = "(s, t, k, v)"
  have ok: "updates_ok (ups @ [?u])"
    using assms(1-3) by (auto simp: holds_def updates_ok_def)
  have e: "encode_entry s t k v = enc (s, t, k, v)" for s t k v
    by (simp add: enc_def)
  have fresh: "entry_rank rank (enc ?u) \<notin> entry_rank rank ` enc ` A" if "A \<subseteq> set ups" for A
  proof (rule enc_fresh [OF assms(2)])
    show "\<forall>w\<in>A. update_ok w"
      using assms(1) that by (auto simp: holds_def updates_ok_def list_all_iff)
    show "fst ?u \<notin> fst ` A"
      using assms(3) that by auto
  qed
  show ?thesis
  proof (cases "t = kTypeRangeDeletion")
    case True
    have "{u \<in> set (ups @ [?u]). fst (snd u) = kTypeRangeDeletion} = insert ?u {u \<in> set ups. fst (snd u) = kTypeRangeDeletion}"
      "{u \<in> set (ups @ [?u]). fst (snd u) \<noteq> kTypeRangeDeletion} = {u \<in> set ups. fst (snd u) \<noteq> kTypeRangeDeletion}"
      using True by auto
    then show ?thesis
      using assms(1,4-) ok True fresh [of "{u \<in> set ups. fst (snd u) = kTypeRangeDeletion}"] q.rep_Insert
      by (simp add: holds_def add_entry_def Let_def e)
  next
    case False
    have "{u \<in> set (ups @ [?u]). fst (snd u) \<noteq> kTypeRangeDeletion} = insert ?u {u \<in> set ups. fst (snd u) \<noteq> kTypeRangeDeletion}"
      "{u \<in> set (ups @ [?u]). fst (snd u) = kTypeRangeDeletion} = {u \<in> set ups. fst (snd u) = kTypeRangeDeletion}"
      using False by auto
    then show ?thesis
      using assms(1,4-) ok False fresh [of "{u \<in> set ups. fst (snd u) \<noteq> kTypeRangeDeletion}"] t.rep_Insert
      by (simp add: holds_def add_entry_def Let_def e)
  qed
qed

lemma holds_Add:
  assumes "holds ups m" "update_ok (s, t, k, v)" "s \<notin> fst ` set ups"
  shows "holds (ups @ [(s, t, k, v)]) (Add opts s t k v m)"
  using assms
  by (rule holds_entry)
    (use assms in \<open>auto simp: Add_def Let_def note_range_del_def add_entry_def update_ok_def holds_def\<close>)

lemma holds_add_all:
  assumes "holds ups m" "updates_ok (ups @ us)"
  shows "holds (ups @ us) (add_all opts us m)"
  using assms
proof (induction us arbitrary: ups m)
  case (Cons u us)
  obtain s t k v where u: "u = (s, t, k, v)"
    by (cases u)
  have "holds (ups @ [(s, t, k, v)]) (Add opts s t k v m)"
    using Cons.prems by (intro holds_Add) (auto simp: updates_ok_def u)
  with Cons.IH [of "ups @ [u]" "Add opts s t k v m"] Cons.prems show ?case
    by (simp add: u add_all_def)
qed (simp add: add_all_def)

section \<open>Seeking\<close>

lemma sort_key_visible:
  assumes "updates_ok ups"
  shows "sorted_wrt (\<lambda>a b. entry_rank rank a < entry_rank rank b) (map enc (visible (user_comparator opts) ups k s))"
    "set (visible (user_comparator opts) ups k s) =
       {u \<in> set ups. rank (fst (snd (snd u))) = rank k \<and> fst u \<le> s \<and> fst (snd u) \<noteq> kTypeRangeDeletion}"
proof -
  let ?P = "\<lambda>(s', t, k', v). user_comparator opts k' k = 0 \<and> s' \<le> s \<and> t \<noteq> kTypeRangeDeletion"
  show set: "set (visible (user_comparator opts) ups k s) =
       {u \<in> set ups. rank (fst (snd (snd u))) = rank k \<and> fst u \<le> s \<and> fst (snd u) \<noteq> kTypeRangeDeletion}"
    by (auto simp: visible_def Compare_rank)
  have "distinct (map fst (sort_key fst (filter ?P ups)))"
    using assms by (simp add: updates_ok_def distinct_map inj_on_def)
  then have "sorted_wrt (<) (map fst (sort_key fst (filter ?P ups)))"
    by (simp add: strict_sorted_iff)
  then have "sorted_wrt (\<lambda>a b. fst b < fst a) (visible (user_comparator opts) ups k s)"
    by (simp add: visible_def sorted_wrt_rev sorted_wrt_map)
  then have "sorted_wrt (\<lambda>a b. entry_rank rank (enc a) < entry_rank rank (enc b)) (visible (user_comparator opts) ups k s)"
  proof (rule sorted_wrt_mono_rel [rotated])
    fix a b
    assume ab: "a \<in> set (visible (user_comparator opts) ups k s)" "b \<in> set (visible (user_comparator opts) ups k s)" "fst b < fst a"
    then have ok: "update_ok a" "update_ok b"
      using assms by (auto simp: updates_ok_def list_all_iff set)
    then have "PackSequenceAndType (fst b) (fst (snd b)) < PackSequenceAndType (fst a) (fst (snd a))"
      using ab(3) by (subst Pack_less) (auto simp: update_ok_def split: prod.splits)
    then show "entry_rank rank (enc a) < entry_rank rank (enc b)"
      using ab(1,2) ok by (simp add: enc_rank set)
  qed
  then show "sorted_wrt (\<lambda>a b. entry_rank rank a < entry_rank rank b) (map enc (visible (user_comparator opts) ups k s))"
    by (simp add: sorted_wrt_map)
qed

lemma Pack_visible:
  assumes "update_ok u" "fst (snd u) \<noteq> kTypeRangeDeletion" "s \<le> kMaxSequenceNumber"
  shows "PackSequenceAndType (fst u) (fst (snd u)) \<le> PackSequenceAndType s kValueTypeForSeek \<longleftrightarrow> fst u \<le> s"
proof -
  have "fst (snd u) \<le> kValueTypeForSeek"
    using assms(1,2) by (auto simp: update_ok_def IsExtendedValueType_def IsValueType_def word_le_nat_alt split: prod.splits)
  then show ?thesis
    using assms(1,3) Pack_less [of s "fst u" kValueTypeForSeek "fst (snd u)"]
    by (auto simp: update_ok_def linorder_not_less [symmetric] split: prod.splits)
qed

lemma Seek_visible:
  assumes "holds ups m" "length k + 8 < 2 ^ 32" "s \<le> kMaxSequenceNumber"
  shows "\<exists>rest. rep_Seek (table_rep opts) (memtable_key (new_LookupKey k s)) (table m)
      = map enc (visible (user_comparator opts) ups k s) @ map enc rest
    \<and> set rest \<subseteq> set ups \<and> (\<forall>u\<in>set rest. user_comparator opts (fst (snd (snd u))) k \<noteq> 0)"
proof -
  let ?f = "entry_rank rank" and ?v = "visible (user_comparator opts) ups k s"
  let ?target = "memtable_key (new_LookupKey k s)"
  define xs where "xs = rep_Seek (table_rep opts) ?target (table m)"
  have ok: "updates_ok ups" "\<forall>u\<in>set ups. update_ok u"
    using assms(1) by (auto simp: holds_def updates_ok_def list_all_iff)
  have sorted: "sorted_wrt (\<lambda>a b. ?f a < ?f b) xs"
    unfolding xs_def using assms(1) by (intro t.rep_Seek t.rep_readable) (simp add: holds_def)
  have xs: "set xs = {e \<in> enc ` {u \<in> set ups. fst (snd u) \<noteq> kTypeRangeDeletion}. (rank k, Desc (PackSequenceAndType s kValueTypeForSeek)) \<le> ?f e}"
    unfolding xs_def using assms(1) t.rep_Seek(2) [OF t.rep_readable, of "table m" ?target]
    by (simp add: holds_def lookup_parts(2) [OF assms(2)])
  then have ge: "rank k \<le> fst (?f e)" if "e \<in> set xs" for e
    using that by (auto simp: less_eq_prod_def)
  have prefix: "sorted_wrt (\<lambda>a b. fst (?f b) = rank k \<longrightarrow> fst (?f a) = rank k) xs"
    using sorted ge by (rule first_prefix)
  have "takeWhile (\<lambda>e. fst (?f e) = rank k) xs = map enc ?v"
  proof (rule sorted_wrt_unique [of ?f])
    show "sorted_wrt (\<lambda>a b. ?f a < ?f b) (takeWhile (\<lambda>e. fst (?f e) = rank k) xs)"
      using sorted by (rule sorted_wrt_takeWhile)
    show "sorted_wrt (\<lambda>a b. ?f a < ?f b) (map enc ?v)"
      using sort_key_visible(1) [OF ok(1)] .
    show "set (takeWhile (\<lambda>e. fst (?f e) = rank k) xs) = set (map enc ?v)"
      unfolding takeWhile_prefix(1) [OF prefix] set_filter xs set_map sort_key_visible(2) [OF ok(1)]
      using ok(2) Pack_visible [OF _ _ assms(3)] by (auto simp: enc_rank)
  qed
  moreover obtain rest where rest: "dropWhile (\<lambda>e. fst (?f e) = rank k) xs = map enc rest" "set rest \<subseteq> set ups"
    using list_of_image [of "dropWhile (\<lambda>e. fst (?f e) = rank k) xs" enc "set ups"] xs set_dropWhileD by fastforce
  moreover have "user_comparator opts (fst (snd (snd u))) k \<noteq> 0" if "u \<in> set rest" for u
    using takeWhile_prefix(2) [OF prefix, of "enc u"] rest ok(2) that by (auto simp: Compare_rank enc_rank)
  ultimately show ?thesis
    unfolding xs_def [symmetric] by (metis takeWhile_dropWhile_id)
qed

section \<open>Reading\<close>

definition tombstone :: "update \<Rightarrow> RangeTombstone" where
  "tombstone u = (case u of (s, t, k, v) \<Rightarrow> \<lparr>start_key = k, end_key = v, tombstone_seq = s\<rparr>)"

definition reads_agg :: "u64 \<Rightarrow> RangeTombstone list \<Rightarrow> RangeDelAggregator \<Rightarrow> bool" where
  "reads_agg s ts agg \<longleftrightarrow> (ts = [] \<and> stripe_map agg = None \<or> agg_inv False [s] ts agg)
     \<and> (\<forall>t\<in>set ts. tombstone_seq t \<le> kMaxSequenceNumber)"

lemma parse_internal:
  "s \<le> kMaxSequenceNumber \<Longrightarrow> IsExtendedValueType t \<Longrightarrow>
    ParseInternalKey (k @ EncodeFixed64 (PackSequenceAndType s t)) = Some \<lparr>user_key = k, sequence = s, value_type = t\<rparr>"
  by (simp add: ParseInternalKey_def Let_def internal_key_num_def [symmetric] drop_bit_Pack ucast_and_255)

lemma agg_answer:
  assumes "reads_agg s ts agg" "update_ok (q, t, k, v)"
  shows "fst (agg_ShouldDelete (user_comparator opts) (e_ikey (parse_entry (enc (q, t, k, v)))) agg) \<longleftrightarrow>
      range_deleted (user_comparator opts) [s] ts \<lparr>user_key = k, sequence = q, value_type = t\<rparr>"
    "reads_agg s ts (snd (agg_ShouldDelete (user_comparator opts) (e_ikey (parse_entry (enc (q, t, k, v)))) agg))"
proof -
  have ok: "q \<le> kMaxSequenceNumber" "IsExtendedValueType t"
    and ikey: "e_ikey (parse_entry (enc (q, t, k, v))) = k @ EncodeFixed64 (PackSequenceAndType q t)"
    using assms(2) by (simp_all add: update_ok_def enc_def entry_parts)
  note * = ShouldDelete_inv [of False "[s]" ts agg "\<lparr>user_key = k, sequence = q, value_type = t\<rparr>"]
    ShouldDelete_keeps [of False "[s]" ts agg kFullScan "\<lparr>user_key = k, sequence = q, value_type = t\<rparr>"]
  show "fst (agg_ShouldDelete (user_comparator opts) (e_ikey (parse_entry (enc (q, t, k, v)))) agg) \<longleftrightarrow>
      range_deleted (user_comparator opts) [s] ts \<lparr>user_key = k, sequence = q, value_type = t\<rparr>"
    "reads_agg s ts (snd (agg_ShouldDelete (user_comparator opts) (e_ikey (parse_entry (enc (q, t, k, v)))) agg))"
    using assms(1) ok * unfolding ikey
    by (auto simp: reads_agg_def agg_ShouldDelete_def parse_internal range_deleted_def mode_of_def agg_inv_def
        split: option.splits)
qed

abbreviation deleted_by :: "u64 \<Rightarrow> RangeTombstone list \<Rightarrow> update \<Rightarrow> bool" where
  "deleted_by s ts u \<equiv> range_deleted (user_comparator opts) [s] ts
     \<lparr>user_key = fst (snd (snd u)), sequence = fst u, value_type = fst (snd u)\<rparr>"

definition outcome :: "Saver \<Rightarrow> bool \<times> bytes \<times> Status" where
  "outcome sv = (found_final_value sv, sv_value sv,
     if \<not> found_final_value sv \<and> merge_in_progress sv then MergeInProgress else sv_status sv)"

lemma entry_value: "update_ok (q, t, k, v) \<Longrightarrow> parse_entry (enc (q, t, k, v)) =
    \<lparr>e_user_key = k, e_seq = q, e_type = t, e_ikey = k @ EncodeFixed64 (PackSequenceAndType q t), e_value = v\<rparr>"
  by (simp add: update_ok_def enc_def entry_parts)

lemma small_type: "(t :: ValueType) \<le> kTypeMerge \<Longrightarrow> t = kTypeDeletion \<or> t = kTypeValue \<or> t = kTypeMerge"
proof -
  assume "t \<le> kTypeMerge"
  then have "unat t \<le> 2"
    by (simp add: word_le_nat_alt)
  then have "unat t = unat kTypeDeletion \<or> unat t = unat kTypeValue \<or> unat t = unat kTypeMerge"
    by (simp, linarith)
  then show ?thesis
    by (simp only: word_unat_eq_iff)
qed

lemma SaveValue_other:
  "update_ok u \<Longrightarrow> user_comparator opts (fst (snd (snd u))) k \<noteq> 0 \<Longrightarrow>
    SaveValue (user_comparator opts) mop k (enc u) sv = (False, sv)"
  by (cases u) (simp add: SaveValue_def entry_value)

lemma read_step:
  assumes "reads_agg s ts (range_del_agg sv)" "update_ok (q, t, k', v)" "user_comparator opts k' k = 0" "t \<noteq> kTypeRangeDeletion"
    "merge_context sv = \<lparr>operand_list = prior, operands_reversed = True\<rparr>" "\<not> found_final_value sv"
    "SaveValue (user_comparator opts) mop k (enc (q, t, k', v)) sv = (go_on, sv')"
  shows "if t = kTypeMerge \<and> \<not> deleted_by s ts (q, t, k', v) \<and> mop \<noteq> None
      then go_on \<and> reads_agg s ts (range_del_agg sv') \<and> merge_in_progress sv' \<and> sv_value sv' = sv_value sv
        \<and> sv_status sv' = sv_status sv \<and> \<not> found_final_value sv'
        \<and> merge_context sv' = \<lparr>operand_list = prior @ [v], operands_reversed = True\<rparr>
      else \<not> go_on \<and> outcome sv' = finish_read mop k (sv_value sv) (sv_status sv) (merge_in_progress sv) prior
        (read_versions (deleted_by s ts) [(q, t, k', v)])"
proof -
  obtain d agg where d: "agg_ShouldDelete (user_comparator opts) (k' @ EncodeFixed64 (PackSequenceAndType q t)) (range_del_agg sv) = (d, agg)"
    by (cases "agg_ShouldDelete (user_comparator opts) (k' @ EncodeFixed64 (PackSequenceAndType q t)) (range_del_agg sv)")
  have agg: "d \<longleftrightarrow> deleted_by s ts (q, t, k', v)" "reads_agg s ts agg"
    using agg_answer [OF assms(1,2)] d by (simp_all add: entry_value [OF assms(2)])
  have t: "t = kTypeValue \<or> t = kTypeMerge \<or> t = kTypeDeletion \<or> t = kTypeSingleDeletion"
    using assms(2,4) by (auto simp: update_ok_def IsExtendedValueType_def IsValueType_def dest: small_type)
  show ?thesis
    using assms(3-) t d agg
    by (auto simp: SaveValue_def entry_value [OF assms(2)] outcome_def finish_read_def PushOperand_def GetOperands_def
        SetDirectionForward_def SetDirectionBackward_def Let_def split: if_splits option.splits prod.splits)
qed

lemma read_loop:
  assumes "reads_agg s ts (range_del_agg sv)" "\<forall>u\<in>set vs. update_ok u \<and> user_comparator opts (fst (snd (snd u))) k = 0 \<and> fst (snd u) \<noteq> kTypeRangeDeletion"
    "merge_context sv = \<lparr>operand_list = prior, operands_reversed = True\<rparr>" "\<not> found_final_value sv"
    "\<forall>u\<in>set rest. update_ok u \<and> user_comparator opts (fst (snd (snd u))) k \<noteq> 0"
  shows "outcome (rep_Get_loop (SaveValue (user_comparator opts) mop k) (map enc vs @ map enc rest) sv) =
    finish_read mop k (sv_value sv) (sv_status sv) (merge_in_progress sv) prior (read_versions (deleted_by s ts) vs)"
  using assms
proof (induction vs arbitrary: sv prior)
  case Nil
  then have "rep_Get_loop (SaveValue (user_comparator opts) mop k) (map enc rest) sv = sv"
    by (cases rest) (simp_all add: SaveValue_other)
  with Nil show ?case
    by (simp add: outcome_def finish_read_def)
next
  case (Cons u vs)
  obtain q t k' v where u: "u = (q, t, k', v)"
    by (cases u)
  obtain go_on sv' where sv': "SaveValue (user_comparator opts) mop k (enc (q, t, k', v)) sv = (go_on, sv')"
    by (cases "SaveValue (user_comparator opts) mop k (enc (q, t, k', v)) sv")
  have "update_ok (q, t, k', v)" "user_comparator opts k' k = 0" "t \<noteq> kTypeRangeDeletion"
    using Cons.prems(2) by (simp_all add: u)
  note step = read_step [OF Cons.prems(1) this Cons.prems(3,4) sv']
  show ?case
  proof (cases "t = kTypeMerge \<and> \<not> deleted_by s ts u \<and> mop \<noteq> None")
    case True
    obtain ops b where rv: "read_versions (deleted_by s ts) vs = (ops, b)"
      by (cases "read_versions (deleted_by s ts) vs")
    have sv: "go_on \<and> reads_agg s ts (range_del_agg sv') \<and> merge_in_progress sv' \<and> sv_value sv' = sv_value sv
        \<and> sv_status sv' = sv_status sv \<and> \<not> found_final_value sv'
        \<and> merge_context sv' = \<lparr>operand_list = prior @ [v], operands_reversed = True\<rparr>"
      using step unfolding if_P [OF True [unfolded u]] .
    have "finish_read mop k (sv_value sv) (sv_status sv) True (prior @ [v]) (ops, b)
      = finish_read mop k (sv_value sv) (sv_status sv) (merge_in_progress sv) prior (v # ops, b)"
      using True by (cases mop) (auto simp: finish_read_def split: read_base.splits)
    moreover have "t = kTypeMerge" "\<not> deleted_by s ts (q, kTypeMerge, k', v)"
      using True by (auto simp: u)
    ultimately show ?thesis
      using sv sv' Cons.prems(2,5) Cons.IH [of sv' "prior @ [v]"] by (simp add: u rv)
  next
    case False
    have *: "\<not> go_on \<and> outcome sv' = finish_read mop k (sv_value sv) (sv_status sv) (merge_in_progress sv) prior
        (read_versions (deleted_by s ts) [(q, t, k', v)])"
      using step unfolding if_not_P [OF False [unfolded u]] .
    have "finish_read mop k (sv_value sv) (sv_status sv) (merge_in_progress sv) prior (read_versions (deleted_by s ts) (u # vs))
      = finish_read mop k (sv_value sv) (sv_status sv) (merge_in_progress sv) prior (read_versions (deleted_by s ts) [u])"
      using False by (auto simp: u finish_read_def split_def Let_def)
    with * sv' show ?thesis
      by (simp add: u)
  qed
qed

lemma inj_enc: "inj_on enc {u. update_ok u}"
proof (rule inj_onI)
  fix u w
  assume "u \<in> {u. update_ok u}" "w \<in> {u. update_ok u}" "enc u = enc w"
  then have "parse_entry (enc u) = parse_entry (enc w)" "update_ok u" "update_ok w"
    by auto
  then show "u = w"
    by (cases u, cases w) (simp add: entry_value)
qed

lemma tombstones_read:
  assumes "holds ups m" "s \<le> kMaxSequenceNumber"
  obtains ts agg where "AddTombstones (user_comparator opts) (NewRangeTombstoneIterator opts False m) (RangeDelAggregator_of_snapshot s False) = (OK, agg)"
    "reads_agg s ts agg" "set ts = tombstone ` {u \<in> set ups. fst (snd u) = kTypeRangeDeletion}"
proof -
  let ?R = "{u \<in> set ups. fst (snd u) = kTypeRangeDeletion}" and ?agg = "RangeDelAggregator_of_snapshot s False"
  have none: "stripe_map ?agg = None" "upper_bound ?agg = s" "collapse_deletions ?agg = False"
    by (simp_all add: RangeDelAggregator_of_snapshot_def)
  have ok: "\<forall>u\<in>set ups. update_ok u"
    using assms(1) by (auto simp: holds_def updates_ok_def list_all_iff)
  show thesis
  proof (cases "is_range_del_table_empty m")
    case True
    then have "?R = {}"
      using assms(1) by (auto simp: holds_def)
    with True none show thesis
      using that [of ?agg "[]"] by (simp add: NewRangeTombstoneIterator_def AddTombstones_def reads_agg_def)
  next
    case False
    define xs where "xs = rep_SeekToFirst (range_del_rep opts) (range_del_table m)"
    have xs: "set xs = enc ` ?R"
      unfolding xs_def using assms(1) q.rep_SeekToFirst(2) [OF q.rep_readable] by (simp add: holds_def)
    then obtain dels where dels: "xs = map enc dels" "set dels \<subseteq> ?R"
      using list_of_image [of xs enc ?R] by auto
    have "set dels = ?R"
      using xs dels inj_on_image_eq_iff [OF inj_enc, of "set dels" ?R] ok by auto
    moreover have "map (\<lambda>e. (e_ikey (parse_entry e), e_value (parse_entry e))) xs = map RangeTombstone_Serialize (map tombstone dels)"
      using dels ok by (auto simp: entry_value tombstone_def RangeTombstone_Serialize_def InternalKey_def AppendInternalKey_def PutFixed64_append)
    moreover have "\<forall>t\<in>set (map tombstone dels). tombstone_seq t \<le> kMaxSequenceNumber"
      using dels(2) ok by (fastforce simp: tombstone_def update_ok_def split: prod.splits)
    moreover have "dels \<noteq> []"
      using False assms(1) \<open>set dels = ?R\<close> by (auto simp: holds_def)
    ultimately show thesis
      using add_tombstones_inv [OF agg_inv_InitRep [OF none(3), of "[s]"], of "map tombstone dels"] none False that [of _ "map tombstone dels"]
      by (auto simp: NewRangeTombstoneIterator_def AddTombstones_def reads_agg_def xs_def [symmetric])
  qed
qed

lemma deleted_covered:
  assumes "set ts = tombstone ` {u \<in> set ups. fst (snd u) = kTypeRangeDeletion}" "fst u \<le> s"
  shows "deleted_by s ts u = range_covered (user_comparator opts) ups s u"
proof (cases u)
  case (fields q t k v)
  have "list_ex P ts \<longleftrightarrow> (\<exists>w\<in>set ups. fst (snd w) = kTypeRangeDeletion \<and> P (tombstone w))" for P
    unfolding list_ex_iff assms(1) by blast
  then show ?thesis
    using assms(2) by (auto simp: fields range_deleted_def range_covered_def same_stripe_def covers_def tombstone_def split_def
        Bex_def [symmetric] list_ex_iff [of _ ups] intro!: bex_cong)
qed

lemma read_versions_cong: "(\<And>u. u \<in> set vs \<Longrightarrow> P u = Q u) \<Longrightarrow> read_versions P vs = read_versions Q vs"
proof (induction vs)
  case (Cons u vs)
  then show ?case
    by (cases u) auto
qed simp

theorem Get_holds:
  assumes "holds ups m" "length k + 8 < 2 ^ 32" "s \<le> kMaxSequenceNumber" "IsMergeInProgress status \<longrightarrow> status = MergeInProgress"
    and r: "r = Get opts False (new_LookupKey k s) value status \<lparr>operand_list = prior, operands_reversed = True\<rparr>
      (RangeDelAggregator_of_snapshot s False) seq0 m"
  shows "(get_found r, get_value r, get_status r) =
    finish_read (mem_merge_operator opts) k value status (IsMergeInProgress status) prior
      (read_versions (range_covered (user_comparator opts) ups s) (visible (user_comparator opts) ups k s))"
proof (cases "MemTable_IsEmpty m")
  case True
  then have "ups = []"
    using assms(1) by (simp add: MemTable_IsEmpty_def holds_def)
  with True show ?thesis
    using assms(4) by (auto simp: r Get_def visible_def finish_read_def)
next
  case False
  have ok: "updates_ok ups" "\<forall>u\<in>set ups. update_ok u"
    using assms(1) by (auto simp: holds_def updates_ok_def list_all_iff)
  obtain ts agg where agg: "AddTombstones (user_comparator opts) (NewRangeTombstoneIterator opts False m) (RangeDelAggregator_of_snapshot s False) = (OK, agg)"
    "reads_agg s ts agg" "set ts = tombstone ` {u \<in> set ups. fst (snd u) = kTypeRangeDeletion}"
    by (rule tombstones_read [OF assms(1,3)])
  obtain rest where rest: "rep_Seek (table_rep opts) (memtable_key (new_LookupKey k s)) (table m)
      = map enc (visible (user_comparator opts) ups k s) @ map enc rest"
    "set rest \<subseteq> set ups" "\<forall>u\<in>set rest. user_comparator opts (fst (snd (snd u))) k \<noteq> 0"
    using Seek_visible [OF assms(1-3)] by blast
  let ?v = "visible (user_comparator opts) ups k s"
  define sv where "sv = \<lparr>sv_status = status, found_final_value = False, merge_in_progress = IsMergeInProgress status,
      sv_value = value, sv_seq = kMaxSequenceNumber, merge_context = \<lparr>operand_list = prior, operands_reversed = True\<rparr>, range_del_agg = agg\<rparr>"
  have "outcome (rep_Get_loop (SaveValue (user_comparator opts) (mem_merge_operator opts) k) (map enc ?v @ map enc rest) sv) =
      finish_read (mem_merge_operator opts) k value status (IsMergeInProgress status) prior (read_versions (deleted_by s ts) ?v)"
    using read_loop [of s ts sv ?v k prior rest "mem_merge_operator opts"] agg(2) rest(2,3) ok
    by (auto simp: sv_def sort_key_visible(2) Compare_rank)
  moreover have "read_versions (deleted_by s ts) ?v = read_versions (range_covered (user_comparator opts) ups s) ?v"
    using deleted_covered [OF agg(3)] ok(1) by (intro read_versions_cong) (simp add: sort_key_visible(2))
  moreover have "(get_found r, get_value r, get_status r) =
      outcome (rep_Get_loop (SaveValue (user_comparator opts) (mem_merge_operator opts) k) (map enc ?v @ map enc rest) sv)"
    using False agg(1) rest(1) by (simp add: r Get_def rep_Get_def lookup_parts(1) [OF assms(2)] outcome_def sv_def [symmetric] Let_def)
  ultimately show ?thesis
    by (simp only:)
qed

end

section \<open>Memtables over vectors\<close>

text \<open>The options of a column family with the vector representation and the bytewise comparator; the range
  deletions are in a representation of the same kind here.\<close>

definition vector_options :: "MergeOperator option \<Rightarrow> nat \<Rightarrow> ((VectorRep, VectorRep) MemTable \<Rightarrow> bool) \<Rightarrow> (VectorRep, VectorRep) MemTableOptions" where
  "vector_options mop n flush = \<lparr>user_comparator = BytewiseComparator_Compare, table_rep = vector_rep BytewiseComparator_Compare,
     range_del_rep = vector_rep BytewiseComparator_Compare, mem_merge_operator = mop, max_successive_merges = n, ShouldFlushNow = flush\<rparr>"

abbreviation vector_writable :: "VectorRep \<Rightarrow> bool" where
  "vector_writable r \<equiv> \<not> vec_immutable r \<and> \<not> vec_sorted r \<and> vector_ok (entry_rank (\<lambda>k. k)) r"

interpretation vector_memtable: memtable_order "vector_options mop n flush" "\<lambda>k. k"
  vector_writable "vector_ok (entry_rank (\<lambda>k. k))" "\<lambda>r. set (bucket r)"
  vector_writable "vector_ok (entry_rank (\<lambda>k. k))" "\<lambda>r. set (bucket r)"
  unfolding memtable_order_def vector_options_def MemTableOptions.simps
  by (intro conjI bytewise_user.user_order_axioms vector_bytewise.memtable_rep_axioms)

section \<open>Reading a memtable\<close>

text \<open>C9: A read of a memtable returns what the updates prescribe. Take a memtable whose two representations
  keep the contract of \<open>MemTableRep\<close> and whose comparator orders user keys, and add updates with distinct
  sequence numbers to it, in any order. Then \<open>Get\<close> at a snapshot finds the newest version of the key that the
  snapshot sees: its value, \<open>NotFound\<close> under a deletion or a range deletion that the snapshot sees, or the
  merge of the operands above it, those collected from newer memtables included, the oldest first. With no
  version it reports that nothing was found and whether a merge is still in progress.\<close>

theorem MemTable_Get_correct:
  assumes "memtable_order opts rank twritable treadable tcontents qwritable qreadable qcontents"
    and "updates_ok ups" "length k + 8 < 2 ^ 32" "s \<le> kMaxSequenceNumber"
    and "IsMergeInProgress status \<longrightarrow> status = MergeInProgress"
  shows "(let r = Get opts False (new_LookupKey k s) value status \<lparr>operand_list = prior, operands_reversed = True\<rparr>
             (RangeDelAggregator_of_snapshot s False) seq0 (add_all opts ups (new_MemTable opts q0))
          in (get_found r, get_value r, get_status r)) =
    finish_read (mem_merge_operator opts) k value status (IsMergeInProgress status) prior
      (read_versions (range_covered (user_comparator opts) ups s) (visible (user_comparator opts) ups k s))"
proof -
  note holds = memtable_order.holds_add_all [OF assms(1) memtable_order.holds_new [OF assms(1)], of ups q0]
  then show ?thesis
    using memtable_order.Get_holds [OF assms(1) _ assms(3-5) refl] assms(2) by (simp add: Let_def)
qed

text \<open>Two operands above a value that a range deletion at 3 leaves alone and that a snapshot at 6 sees.\<close>

definition example_updates :: "update list" where
  "example_updates = [(1, kTypeValue, [7], [1]), (3, kTypeRangeDeletion, [8], [9]), (5, kTypeMerge, [7], [2]),
     (4, kTypeMerge, [7], [3]), (7, kTypeDeletion, [7], []), (2, kTypeValue, [8], [4])]"

definition append_operands :: MergeOperator where
  "append_operands key existing ops = (True, (case existing of Some v \<Rightarrow> v | None \<Rightarrow> []) @ concat ops)"

theorem MemTable_Get_correct_witness:
  "(let r = Get (vector_options (Some append_operands) 0 (\<lambda>_. False)) False (new_LookupKey [7] 6) [] OK
             \<lparr>operand_list = [], operands_reversed = True\<rparr> (RangeDelAggregator_of_snapshot 6 False) 0
             (add_all (vector_options (Some append_operands) 0 (\<lambda>_. False)) example_updates
               (new_MemTable (vector_options (Some append_operands) 0 (\<lambda>_. False)) 0))
    in (get_found r, get_value r, get_status r)) = (True, [1, 3, 2], OK)"
proof -
  let ?opts = "vector_options (Some append_operands) 0 (\<lambda>_. False)"
  have "updates_ok example_updates"
    by (simp add: updates_ok_def example_updates_def update_ok_def IsExtendedValueType_def IsValueType_def kMaxSequenceNumber_def short_def)
  moreover have "(6 :: u64) \<le> kMaxSequenceNumber"
    by (simp add: kMaxSequenceNumber_def)
  ultimately have "(let r = Get ?opts False (new_LookupKey [7] 6) [] OK
             \<lparr>operand_list = [], operands_reversed = True\<rparr> (RangeDelAggregator_of_snapshot 6 False) 0
             (add_all ?opts example_updates (new_MemTable ?opts 0))
    in (get_found r, get_value r, get_status r)) =
    finish_read (mem_merge_operator ?opts) [7] [] OK (IsMergeInProgress OK) []
      (read_versions (range_covered (user_comparator ?opts) example_updates 6) (visible (user_comparator ?opts) example_updates [7] 6))"
    by (intro MemTable_Get_correct [OF vector_memtable.memtable_order_axioms]) simp_all
  moreover have "visible BytewiseComparator_Compare example_updates [7] 6 =
      [(5, kTypeMerge, [7], [2]), (4, kTypeMerge, [7], [3]), (1, kTypeValue, [7], [1])]"
    by code_simp
  moreover have "range_covered BytewiseComparator_Compare example_updates 6 u = False" if "fst (snd (snd u)) = [7]" for u
  proof -
    have "\<not> BytewiseComparator_Compare [8] [7] \<le> 0"
      by code_simp
    then show ?thesis
      using that by (cases u) (simp add: range_covered_def example_updates_def)
  qed
  ultimately show ?thesis
    by (simp add: vector_options_def finish_read_def append_operands_def TimedFullMerge_def)
qed

end
