(* ===== verification/Memtable_Inserter.thy ===== *)
theory Memtable_Inserter
  imports Write_Batch Memtable_Props
begin

text \<open>
  Inserting write batches into memtables (db/write_batch.cc, \<open>MemTableInserter\<close> and \<open>InsertInto\<close>): the
  handler that numbers the updates of a batch and adds them to the memtables of their families, with the
  flush scheduler (db/flush_scheduler.cc), the transactions that recovery rebuilds and the logs that hold
  prepared sections (db/db_impl.h, db/db_impl_files.cc).

  A family is its identifier.  In-place updates are not modelled.  The database that \<open>MergeCF\<close> reads when
  a key has many operands is a parameter.
\<close>

section \<open>The flush scheduler\<close>

text \<open>The families of the linked list, from its head; \<open>IsDropped\<close> is an argument.\<close>

type_synonym FlushScheduler = "u32 list"

definition ScheduleFlush :: "u32 \<Rightarrow> FlushScheduler \<Rightarrow> FlushScheduler" where
  "ScheduleFlush cfd head = cfd # head"

fun TakeNextColumnFamily :: "(u32 \<Rightarrow> bool) \<Rightarrow> FlushScheduler \<Rightarrow> u32 option \<times> FlushScheduler" where
  "TakeNextColumnFamily IsDropped [] = (None, [])"
| "TakeNextColumnFamily IsDropped (cfd # nodes) =
     (if \<not> IsDropped cfd then (Some cfd, nodes) else TakeNextColumnFamily IsDropped nodes)"

definition FlushScheduler_Empty :: "FlushScheduler \<Rightarrow> bool" where
  "FlushScheduler_Empty head \<longleftrightarrow> head = []"

lemma TakeNext_shorter: "TakeNextColumnFamily IsDropped head = (Some cfd, rest) \<Longrightarrow> length rest < length head"
  by (induction head) (auto split: if_splits)

function FlushScheduler_Clear :: "(u32 \<Rightarrow> bool) \<Rightarrow> FlushScheduler \<Rightarrow> FlushScheduler" where
  "FlushScheduler_Clear IsDropped head =
     (case TakeNextColumnFamily IsDropped head of
        (None, head) \<Rightarrow> head
      | (Some cfd, head) \<Rightarrow> FlushScheduler_Clear IsDropped head)"
  by pat_completeness auto
termination
  by (relation "measure (length \<circ> snd)") (auto dest: TakeNext_shorter [OF sym])

declare FlushScheduler_Clear.simps [simp del]

section \<open>Logs with prepared sections\<close>

text \<open>The priority queue of logs is the sorted list of its elements.\<close>

record PrepLogs =
  min_log_with_prep :: "u64 list"
  prepared_section_completed :: "u64 \<rightharpoonup> u64"

definition MarkLogAsContainingPrepSection :: "u64 \<Rightarrow> PrepLogs \<Rightarrow> PrepLogs" where
  "MarkLogAsContainingPrepSection log p =
     p\<lparr>min_log_with_prep := insort log (min_log_with_prep p),
       prepared_section_completed :=
         (if prepared_section_completed p log = None then (prepared_section_completed p)(log \<mapsto> 0)
          else prepared_section_completed p)\<rparr>"

text \<open>That the log is known is asserted.\<close>

definition MarkLogAsHavingPrepSectionFlushed :: "u64 \<Rightarrow> PrepLogs \<Rightarrow> PrepLogs" where
  "MarkLogAsHavingPrepSectionFlushed log p =
     p\<lparr>prepared_section_completed :=
         (prepared_section_completed p)(log := map_option (\<lambda>n. n + 1) (prepared_section_completed p log))\<rparr>"

fun outstanding_loop :: "u64 list \<Rightarrow> (u64 \<rightharpoonup> u64) \<Rightarrow> u64 \<times> u64 list \<times> (u64 \<rightharpoonup> u64)" where
  "outstanding_loop [] completed = (0, [], completed)"
| "outstanding_loop (min_log # heap) completed =
     (case completed min_log of
        Some n \<Rightarrow> if 0 < n then outstanding_loop heap (completed(min_log \<mapsto> n - 1)) else (min_log, min_log # heap, completed)
      | None \<Rightarrow> (min_log, min_log # heap, completed))"

definition FindMinLogContainingOutstandingPrep :: "bool \<Rightarrow> PrepLogs \<Rightarrow> u64 \<times> PrepLogs" where
  "FindMinLogContainingOutstandingPrep allow_2pc p =
     (if \<not> allow_2pc then (0, p)
      else (let (min_log, heap, completed) = outstanding_loop (min_log_with_prep p) (prepared_section_completed p)
            in (min_log, p\<lparr>min_log_with_prep := heap, prepared_section_completed := completed\<rparr>)))"

section \<open>The inserter\<close>

text \<open>A family as \<open>ColumnFamilyMemTables\<close> shows it.\<close>

record ('r, 'q) CFMem =
  cfm_mem :: "('r, 'q) MemTable"
  cfm_options :: "('r, 'q) MemTableOptions"
  cfm_log_number :: u64
  is_delete_range_supported :: bool

record RecoveredTransaction =
  trx_log_number :: u64
  trx_batch :: "WriteBatch option"

record ('r, 'q) InserterOptions =
  ignore_missing_column_families :: bool
  recovering_log_number :: u64
  has_db :: bool
  allow_2pc :: bool
  concurrent_memtable_writes :: bool
  db_Get :: "u32 \<Rightarrow> bytes \<Rightarrow> u64 \<Rightarrow> ('r, 'q) MemTable \<Rightarrow> bytes"

text \<open>\<open>null_dereference\<close> is set where the code would follow a null pointer.\<close>

record ('r, 'q) MemTableInserter =
  ins_sequence :: u64
  cf_mems :: "u32 \<rightharpoonup> ('r, 'q) CFMem"
  flush_scheduler :: "FlushScheduler option"
  log_number_ref :: u64
  has_valid_writes :: "bool option"
  mem_post_info_map :: "u32 \<rightharpoonup> MemTablePostProcessInfo"
  rebuilding_trx :: "WriteBatch option"
  recovered_transactions :: "bytes \<rightharpoonup> RecoveredTransaction"
  prep_logs :: PrepLogs
  null_dereference :: bool

definition InsertRecoveredTransaction :: "u64 \<Rightarrow> bytes \<Rightarrow> WriteBatch option \<Rightarrow> ('r, 'q) MemTableInserter \<Rightarrow> ('r, 'q) MemTableInserter" where
  "InsertRecoveredTransaction log name batch s =
     s\<lparr>recovered_transactions := (recovered_transactions s)(name \<mapsto> \<lparr>trx_log_number = log, trx_batch = batch\<rparr>),
       prep_logs := MarkLogAsContainingPrepSection log (prep_logs s)\<rparr>"

definition DeleteRecoveredTransaction :: "bytes \<Rightarrow> ('r, 'q) MemTableInserter \<Rightarrow> ('r, 'q) MemTableInserter" where
  "DeleteRecoveredTransaction name s =
     (case recovered_transactions s name of
        None \<Rightarrow> s
      | Some trx \<Rightarrow>
          s\<lparr>recovered_transactions := (recovered_transactions s)(name := None),
            prep_logs := MarkLogAsHavingPrepSectionFlushed (trx_log_number trx) (prep_logs s)\<rparr>)"

definition new_MemTableInserter :: "u64 \<Rightarrow> (u32 \<rightharpoonup> ('r, 'q) CFMem) \<Rightarrow> FlushScheduler option \<Rightarrow> bool option \<Rightarrow>
    (bytes \<rightharpoonup> RecoveredTransaction) \<Rightarrow> PrepLogs \<Rightarrow> ('r, 'q) MemTableInserter" where
  "new_MemTableInserter seq mems fs valid trxs prep =
     \<lparr>ins_sequence = seq, cf_mems = mems, flush_scheduler = fs, log_number_ref = 0, has_valid_writes = valid,
      mem_post_info_map = Map.empty, rebuilding_trx = None, recovered_transactions = trxs, prep_logs = prep,
      null_dereference = False\<rparr>"

definition set_log_number_ref :: "u64 \<Rightarrow> ('r, 'q) MemTableInserter \<Rightarrow> ('r, 'q) MemTableInserter" where
  "set_log_number_ref log s = s\<lparr>log_number_ref := log\<rparr>"

definition PostProcess :: "('r, 'q) MemTableInserter \<Rightarrow> ('r, 'q) MemTableInserter" where
  "PostProcess s =
     s\<lparr>cf_mems := (\<lambda>cf. case (cf_mems s cf, mem_post_info_map s cf) of
          (Some c, Some info) \<Rightarrow> Some (c\<lparr>cfm_mem := BatchPostProcess (cfm_options c) info (cfm_mem c)\<rparr>)
        | (c, _) \<Rightarrow> c)\<rparr>"

text \<open>The family when it was found and takes the update.\<close>

definition SeekToColumnFamily :: "('r, 'q) InserterOptions \<Rightarrow> u32 \<Rightarrow> ('r, 'q) MemTableInserter \<Rightarrow>
    ('r, 'q) CFMem option \<times> Status \<times> ('r, 'q) MemTableInserter" where
  "SeekToColumnFamily opts cf s =
     (case cf_mems s cf of
        None \<Rightarrow>
          (None,
           if ignore_missing_column_families opts then OK
           else InvalidArgument ''Invalid column family specified in write batch'', s)
      | Some c \<Rightarrow>
          if recovering_log_number opts \<noteq> 0 \<and> recovering_log_number opts < cfm_log_number c then (None, OK, s)
          else (let s = s\<lparr>has_valid_writes := map_option (\<lambda>_. True) (has_valid_writes s)\<rparr>;
                    c = (if 0 < log_number_ref s
                         then c\<lparr>cfm_mem := RefLogContainingPrepSection (log_number_ref s) (cfm_mem c)\<rparr> else c)
                in (Some c, OK, s\<lparr>cf_mems := (cf_mems s)(cf \<mapsto> c)\<rparr>)))"

definition get_post_process_info :: "u32 \<Rightarrow> ('r, 'q) MemTableInserter \<Rightarrow> MemTablePostProcessInfo" where
  "get_post_process_info cf s =
     (case mem_post_info_map s cf of
        Some info \<Rightarrow> info
      | None \<Rightarrow> \<lparr>post_data_size = 0, post_num_entries = 0, post_num_deletes = 0\<rparr>)"

text \<open>The call of \<open>MemTable::Add\<close> with the mode of the inserter.\<close>

definition mem_Add :: "bool \<Rightarrow> u32 \<Rightarrow> ('r, 'q) CFMem \<Rightarrow> ValueType \<Rightarrow> bytes \<Rightarrow> bytes \<Rightarrow> ('r, 'q) MemTableInserter \<Rightarrow> ('r, 'q) MemTableInserter" where
  "mem_Add allow_concurrent cf c type key value s =
     (if allow_concurrent
      then (let (info, m) = AddConcurrently (cfm_options c) (ins_sequence s) type key value (get_post_process_info cf s) (cfm_mem c)
            in s\<lparr>cf_mems := (cf_mems s)(cf \<mapsto> c\<lparr>cfm_mem := m\<rparr>), mem_post_info_map := (mem_post_info_map s)(cf \<mapsto> info)\<rparr>)
      else s\<lparr>cf_mems := (cf_mems s)(cf \<mapsto> c\<lparr>cfm_mem := Add (cfm_options c) (ins_sequence s) type key value (cfm_mem c)\<rparr>)\<rparr>)"

definition CheckMemtableFull :: "u32 \<Rightarrow> ('r, 'q) MemTableInserter \<Rightarrow> ('r, 'q) MemTableInserter" where
  "CheckMemtableFull cf s =
     (case (flush_scheduler s, cf_mems s cf) of
        (Some fs, Some c) \<Rightarrow>
          if ShouldScheduleFlush (cfm_mem c)
          then (let (marked, m) = MarkFlushScheduled (cfm_mem c);
                    s = s\<lparr>cf_mems := (cf_mems s)(cf \<mapsto> c\<lparr>cfm_mem := m\<rparr>)\<rparr>
                in if marked then s\<lparr>flush_scheduler := Some (ScheduleFlush cf fs)\<rparr> else s)
          else s
      | _ \<Rightarrow> s)"

definition next_sequence :: "('r, 'q) MemTableInserter \<Rightarrow> ('r, 'q) MemTableInserter" where
  "next_sequence s = s\<lparr>ins_sequence := ins_sequence s + 1\<rparr>"

text \<open>What the five kinds of updates share: during the rebuilding of a transaction the update goes into its
  batch, otherwise the family is sought, and a missing or newer family only uses up a sequence number.\<close>

definition with_family :: "('r, 'q) InserterOptions \<Rightarrow> (WriteBatch \<Rightarrow> Status \<times> WriteBatch) \<Rightarrow> u32 \<Rightarrow>
    (('r, 'q) CFMem \<Rightarrow> ('r, 'q) MemTableInserter \<Rightarrow> Status \<times> ('r, 'q) MemTableInserter) \<Rightarrow>
    ('r, 'q) MemTableInserter \<Rightarrow> Status \<times> ('r, 'q) MemTableInserter" where
  "with_family opts rebuild cf act s =
     (case rebuilding_trx s of
        Some trx \<Rightarrow> (OK, s\<lparr>rebuilding_trx := Some (snd (rebuild trx))\<rparr>)
      | None \<Rightarrow>
          (case SeekToColumnFamily opts cf s of
             (None, seek_status, s) \<Rightarrow> (seek_status, next_sequence s)
           | (Some c, _, s) \<Rightarrow> act c s))"

definition inserter_PutCF :: "('r, 'q) InserterOptions \<Rightarrow> u32 \<Rightarrow> bytes \<Rightarrow> bytes \<Rightarrow> ('r, 'q) MemTableInserter \<Rightarrow> Status \<times> ('r, 'q) MemTableInserter" where
  "inserter_PutCF opts cf key value =
     with_family opts (Put cf key value) cf (\<lambda>c s.
       (OK, CheckMemtableFull cf (next_sequence (mem_Add (concurrent_memtable_writes opts) cf c kTypeValue key value s))))"

definition DeleteImpl :: "('r, 'q) InserterOptions \<Rightarrow> u32 \<Rightarrow> bytes \<Rightarrow> bytes \<Rightarrow> ValueType \<Rightarrow> ('r, 'q) CFMem \<Rightarrow> ('r, 'q) MemTableInserter \<Rightarrow>
    Status \<times> ('r, 'q) MemTableInserter" where
  "DeleteImpl opts cf key value delete_type c s =
     (OK, CheckMemtableFull cf (next_sequence (mem_Add (concurrent_memtable_writes opts) cf c delete_type key value s)))"

definition inserter_DeleteCF :: "('r, 'q) InserterOptions \<Rightarrow> u32 \<Rightarrow> bytes \<Rightarrow> ('r, 'q) MemTableInserter \<Rightarrow> Status \<times> ('r, 'q) MemTableInserter" where
  "inserter_DeleteCF opts cf key = with_family opts (Delete cf key) cf (DeleteImpl opts cf key [] kTypeDeletion)"

definition inserter_SingleDeleteCF :: "('r, 'q) InserterOptions \<Rightarrow> u32 \<Rightarrow> bytes \<Rightarrow> ('r, 'q) MemTableInserter \<Rightarrow> Status \<times> ('r, 'q) MemTableInserter" where
  "inserter_SingleDeleteCF opts cf key = with_family opts (SingleDelete cf key) cf (DeleteImpl opts cf key [] kTypeSingleDeletion)"

definition inserter_DeleteRangeCF :: "('r, 'q) InserterOptions \<Rightarrow> u32 \<Rightarrow> bytes \<Rightarrow> bytes \<Rightarrow> ('r, 'q) MemTableInserter \<Rightarrow> Status \<times> ('r, 'q) MemTableInserter" where
  "inserter_DeleteRangeCF opts cf first_key last_key =
     with_family opts (DeleteRange cf first_key last_key) cf (\<lambda>c s.
       if has_db opts \<and> \<not> is_delete_range_supported c
       then (NotSupported ''DeleteRange not supported for table type '', s)
       else DeleteImpl opts cf first_key last_key kTypeRangeDeletion c s)"

text \<open>The value that \<open>MergeCF\<close> adds instead of an operand when the key has too many of them already.\<close>

definition perform_merge :: "('r, 'q) InserterOptions \<Rightarrow> u32 \<Rightarrow> bytes \<Rightarrow> bytes \<Rightarrow> ('r, 'q) CFMem \<Rightarrow> u64 \<Rightarrow> bytes option" where
  "perform_merge opts cf key value c seq =
     (let moptions = cfm_options c
      in if 0 < max_successive_merges moptions \<and> has_db opts \<and> recovering_log_number opts = 0
            \<and> max_successive_merges moptions \<le> CountSuccessiveMergeEntries moptions (new_LookupKey key seq) (cfm_mem c)
         then (let (merge_status, new_value) =
                     TimedFullMerge (the (mem_merge_operator moptions)) key (Some (db_Get opts cf key seq (cfm_mem c))) [value] []
               in if ok merge_status then Some new_value else None)
         else None)"

definition inserter_MergeCF :: "('r, 'q) InserterOptions \<Rightarrow> u32 \<Rightarrow> bytes \<Rightarrow> bytes \<Rightarrow> ('r, 'q) MemTableInserter \<Rightarrow> Status \<times> ('r, 'q) MemTableInserter" where
  "inserter_MergeCF opts cf key value =
     with_family opts (Merge cf key value) cf (\<lambda>c s.
       (OK, CheckMemtableFull cf (next_sequence
          (case perform_merge opts cf key value c (ins_sequence s) of
             Some new_value \<Rightarrow> mem_Add False cf c kTypeValue key new_value s
           | None \<Rightarrow> mem_Add False cf c kTypeMerge key value s))))"

section \<open>Transaction markers\<close>

definition inserter_MarkBeginPrepare :: "('r, 'q) InserterOptions \<Rightarrow> ('r, 'q) MemTableInserter \<Rightarrow> Status \<times> ('r, 'q) MemTableInserter" where
  "inserter_MarkBeginPrepare opts s =
     (if recovering_log_number opts \<noteq> 0 then
        (if \<not> allow_2pc opts
         then (NotSupported ''WAL contains prepared transactions. Open with TransactionDB::Open().'', s)
         else (OK, s\<lparr>rebuilding_trx := Some (new_WriteBatch 0), has_valid_writes := map_option (\<lambda>_. True) (has_valid_writes s)\<rparr>))
      else (OK, s))"

definition inserter_MarkEndPrepare :: "('r, 'q) InserterOptions \<Rightarrow> bytes \<Rightarrow> ('r, 'q) MemTableInserter \<Rightarrow> Status \<times> ('r, 'q) MemTableInserter" where
  "inserter_MarkEndPrepare opts name s =
     (if recovering_log_number opts \<noteq> 0
      then (OK, (InsertRecoveredTransaction (recovering_log_number opts) name (rebuilding_trx s) s)\<lparr>rebuilding_trx := None\<rparr>)
      else (OK, s))"

text \<open>A commit replays the rebuilt batch into the inserter itself; \<open>iterate\<close> is that call of \<open>Iterate\<close>.\<close>

definition inserter_MarkCommit :: "('r, 'q) InserterOptions \<Rightarrow>
    (WriteBatch \<Rightarrow> ('r, 'q) MemTableInserter \<Rightarrow> Status \<times> ('r, 'q) MemTableInserter) \<Rightarrow> bytes \<Rightarrow>
    ('r, 'q) MemTableInserter \<Rightarrow> Status \<times> ('r, 'q) MemTableInserter" where
  "inserter_MarkCommit opts iterate name s =
     (if recovering_log_number opts \<noteq> 0 then
        (case recovered_transactions s name of
           None \<Rightarrow> (OK, s)
         | Some trx \<Rightarrow>
             (case trx_batch trx of
                None \<Rightarrow> (OK, s\<lparr>null_dereference := True\<rparr>)
              | Some batch \<Rightarrow>
                  (let (st, s) = iterate batch (s\<lparr>log_number_ref := trx_log_number trx\<rparr>);
                       s = s\<lparr>log_number_ref := 0\<rparr>;
                       s = (if ok st then DeleteRecoveredTransaction name s else s)
                   in (st, s\<lparr>has_valid_writes := map_option (\<lambda>_. True) (has_valid_writes s)\<rparr>))))
      else (OK, s))"

definition inserter_MarkRollback :: "('r, 'q) InserterOptions \<Rightarrow> bytes \<Rightarrow> ('r, 'q) MemTableInserter \<Rightarrow> Status \<times> ('r, 'q) MemTableInserter" where
  "inserter_MarkRollback opts name s =
     (if recovering_log_number opts \<noteq> 0 \<and> recovered_transactions s name \<noteq> None
      then (OK, DeleteRecoveredTransaction name s) else (OK, s))"

text \<open>The handler.  A commit nests a replay in a replay; the rebuilt batches hold no markers, so a depth of
  one is enough (lemma \<open>depth_enough\<close>).\<close>

fun inserter :: "nat \<Rightarrow> ('r, 'q) InserterOptions \<Rightarrow> ('r, 'q) MemTableInserter Handler" where
  "inserter depth opts =
     \<lparr>PutCF = inserter_PutCF opts, DeleteCF = inserter_DeleteCF opts, SingleDeleteCF = inserter_SingleDeleteCF opts,
      DeleteRangeCF = inserter_DeleteRangeCF opts, MergeCF = inserter_MergeCF opts, LogData = (\<lambda>_ s. s),
      handle_BeginPrepare = inserter_MarkBeginPrepare opts, handle_EndPrepare = inserter_MarkEndPrepare opts,
      handle_Commit = inserter_MarkCommit opts
        (case depth of 0 \<Rightarrow> (\<lambda>_ s. (OK, s)) | Suc d \<Rightarrow> Iterate (inserter d opts)),
      handle_Rollback = inserter_MarkRollback opts, Continue = (\<lambda>_. True)\<rparr>"

declare inserter.simps [simp del]

section \<open>InsertInto\<close>

text \<open>A writer of a group: its batch, the log its prepared section is in, and whether it goes into the memtables.\<close>

record BatchWriter =
  w_batch :: WriteBatch
  w_log_ref :: u64
  ShouldWriteToMemtable :: bool
  w_status :: Status

fun insert_group :: "('r, 'q) InserterOptions \<Rightarrow> BatchWriter list \<Rightarrow> ('r, 'q) MemTableInserter \<Rightarrow> Status \<times> BatchWriter list \<times> ('r, 'q) MemTableInserter" where
  "insert_group opts [] s = (OK, [], s)"
| "insert_group opts (w # ws) s =
     (if \<not> ShouldWriteToMemtable w
      then (let (st, ws, s) = insert_group opts ws s in (st, w # ws, s))
      else
        (let batch = SetSequence (ins_sequence s) (w_batch w);
             (st, s) = Iterate (inserter 1 opts) batch (set_log_number_ref (w_log_ref w) s);
             w = w\<lparr>w_batch := batch, w_status := st\<rparr>
         in if \<not> ok st then (st, w # ws, s)
            else (let (st, ws, s) = insert_group opts ws s in (st, w # ws, s))))"

definition InsertInto_group :: "('r, 'q) InserterOptions \<Rightarrow> BatchWriter list \<Rightarrow> u64 \<Rightarrow> (u32 \<rightharpoonup> ('r, 'q) CFMem) \<Rightarrow> FlushScheduler option \<Rightarrow>
    (bytes \<rightharpoonup> RecoveredTransaction) \<Rightarrow> PrepLogs \<Rightarrow> Status \<times> BatchWriter list \<times> ('r, 'q) MemTableInserter" where
  "InsertInto_group opts write_group seq memtables fs trxs prep =
     insert_group opts write_group (new_MemTableInserter seq memtables fs None trxs prep)"

definition InsertInto_writer :: "('r, 'q) InserterOptions \<Rightarrow> BatchWriter \<Rightarrow> u64 \<Rightarrow> (u32 \<rightharpoonup> ('r, 'q) CFMem) \<Rightarrow> FlushScheduler option \<Rightarrow>
    (bytes \<rightharpoonup> RecoveredTransaction) \<Rightarrow> PrepLogs \<Rightarrow> Status \<times> ('r, 'q) MemTableInserter" where
  "InsertInto_writer opts writer seq memtables fs trxs prep =
     (let inserter0 = new_MemTableInserter seq memtables fs None trxs prep;
          batch = SetSequence seq (w_batch writer);
          (st, s) = Iterate (inserter 1 opts) batch (set_log_number_ref (w_log_ref writer) inserter0)
      in (st, if concurrent_memtable_writes opts then PostProcess s else s))"

definition InsertInto_batch :: "('r, 'q) InserterOptions \<Rightarrow> WriteBatch \<Rightarrow> (u32 \<rightharpoonup> ('r, 'q) CFMem) \<Rightarrow> FlushScheduler option \<Rightarrow>
    bool option \<Rightarrow> (bytes \<rightharpoonup> RecoveredTransaction) \<Rightarrow> PrepLogs \<Rightarrow> Status \<times> u64 \<times> ('r, 'q) MemTableInserter" where
  "InsertInto_batch opts batch memtables fs valid trxs prep =
     (let (st, s) = Iterate (inserter 1 opts) batch (new_MemTableInserter (Sequence batch) memtables fs valid trxs prep)
      in (st, ins_sequence s, if concurrent_memtable_writes opts then PostProcess s else s))"

section \<open>Pending flushes and prepared sections\<close>

lemma FlushScheduler_Clear_empty: "FlushScheduler_Clear IsDropped head = []"
proof -
  have take: "TakeNextColumnFamily IsDropped head = (None, rest) \<Longrightarrow> rest = []" for head rest
    by (induction head) (auto split: if_splits)
  show ?thesis
  proof (induction head rule: length_induct)
    case (1 head)
    then show ?case
      using take [of head] TakeNext_shorter [of IsDropped head]
      by (subst FlushScheduler_Clear.simps) (auto split: prod.splits option.splits)
  qed
qed

text \<open>How many prepared sections of a log are neither committed nor rolled back.\<close>

definition outstanding :: "u64 list \<Rightarrow> (u64 \<rightharpoonup> u64) \<Rightarrow> u64 \<Rightarrow> int" where
  "outstanding heap completed log =
     int (count_list heap log) - (case completed log of None \<Rightarrow> 0 | Some n \<Rightarrow> int (unat n))"

lemma outstanding_loop_keeps:
  "outstanding_loop heap completed = (m, heap', completed') \<Longrightarrow> outstanding heap' completed' log = outstanding heap completed log"
proof (induction heap arbitrary: completed)
  case (Cons l heap)
  show ?case
  proof (cases "\<exists>n. completed l = Some n \<and> 0 < n")
    case True
    then obtain n where n: "completed l = Some n" "0 < n"
      by blast
    then have "unat (n - 1) = unat n - 1" "0 < unat n"
      by (simp_all add: unat_minus_one unat_gt_0 word_neq_0_conv)
    then have "outstanding heap (completed(l \<mapsto> n - 1)) log = outstanding (l # heap) completed log"
      using n(1) by (auto simp: outstanding_def of_nat_diff)
    moreover have "outstanding_loop heap (completed(l \<mapsto> n - 1)) = (m, heap', completed')"
      using Cons.prems n by simp
    ultimately show ?thesis
      using Cons.IH by metis
  next
    case False
    with Cons.prems show ?thesis
      by (auto split: option.splits if_splits)
  qed
qed simp

lemma outstanding_loop_head:
  assumes "outstanding_loop heap completed = (m, heap', completed')" "sorted heap" "0 \<notin> set heap"
  shows "sorted heap' \<and> (if m = 0 then heap' = [] else heap' \<noteq> [] \<and> hd heap' = m \<and> (completed' m = None \<or> completed' m = Some 0))"
  using assms
proof (induction heap arbitrary: completed)
  case (Cons l heap)
  then show ?case
    by (auto split: option.splits if_splits simp: word_gt_0)
qed simp

text \<open>The log that must be kept is the smallest one with an outstanding section, 0 when there is none.\<close>

lemma FindMinLog_correct:
  assumes "sorted (min_log_with_prep p)" "0 \<notin> set (min_log_with_prep p)"
    and "\<forall>log. 0 \<le> outstanding (min_log_with_prep p) (prepared_section_completed p) log"
    and find: "FindMinLogContainingOutstandingPrep True p = (m, p')"
  shows "if m = 0 then \<forall>log. outstanding (min_log_with_prep p) (prepared_section_completed p) log = 0
    else 0 < outstanding (min_log_with_prep p) (prepared_section_completed p) m
      \<and> (\<forall>log. 0 < outstanding (min_log_with_prep p) (prepared_section_completed p) log \<longrightarrow> m \<le> log)"
proof -
  obtain heap completed where loop: "outstanding_loop (min_log_with_prep p) (prepared_section_completed p) = (m, heap, completed)"
    using find by (auto simp: FindMinLogContainingOutstandingPrep_def split: prod.splits)
  note same = outstanding_loop_keeps [OF loop, symmetric]
  have h: "sorted heap" "if m = 0 then heap = [] else heap \<noteq> [] \<and> hd heap = m \<and> (completed m = None \<or> completed m = Some 0)"
    using outstanding_loop_head [OF loop assms(1,2)] by auto
  show ?thesis
  proof (cases "m = 0")
    case True
    then have "outstanding heap completed log \<le> 0" for log
      using h(2) by (simp add: outstanding_def split: option.splits)
    with True assms(3) show ?thesis
      unfolding same by (simp add: order_antisym)
  next
    case False
    then obtain rest where heap: "heap = m # rest" "completed m = None \<or> completed m = Some 0"
      using h(2) by (cases heap) auto
    have "m \<le> log" if "0 < outstanding heap completed log" for log
    proof -
      have "outstanding heap completed log \<le> int (count_list heap log)"
        by (simp add: outstanding_def split: option.splits)
      with that have "0 < count_list heap log"
        by linarith
      then have "log \<in> set heap"
        using count_notin [of log heap] by fastforce
      with h(1) heap(1) show ?thesis
        by auto
    qed
    with False heap show ?thesis
      unfolding same by (auto simp: outstanding_def)
  qed
qed

end
