(* ===== verification/Inserter_Props.thy ===== *)
theory Inserter_Props
  imports Memtable_Inserter
begin

text \<open>
  What inserting batches does to the memtables: the updates of a batch are numbered in order and each
  memtable holds those of its family.  In recovery the updates of a prepared transaction are kept back until
  its commit is met.
\<close>

section \<open>Numbering updates\<close>

fun op_update :: "nat \<Rightarrow> WriteOp \<Rightarrow> (u32 \<times> update) option" where
  "op_update n (PutOp cf k v) = Some (cf, word_of_nat n, kTypeValue, k, v)"
| "op_update n (DeleteOp cf k) = Some (cf, word_of_nat n, kTypeDeletion, k, [])"
| "op_update n (SingleDeleteOp cf k) = Some (cf, word_of_nat n, kTypeSingleDeletion, k, [])"
| "op_update n (DeleteRangeOp cf k e) = Some (cf, word_of_nat n, kTypeRangeDeletion, k, e)"
| "op_update n (MergeOp cf k v) = Some (cf, word_of_nat n, kTypeMerge, k, v)"
| "op_update n _ = None"

fun numbered :: "nat \<Rightarrow> WriteOp list \<Rightarrow> (u32 \<times> update) list" where
  "numbered n [] = []"
| "numbered n (op # ops) = (case op_update n op of None \<Rightarrow> numbered n ops | Some u \<Rightarrow> u # numbered (Suc n) ops)"

text \<open>The updates that a batch applies when transactions are rebuilt: the next sequence number, the
  operations of the section being read, the prepared transactions, and the updates so far.\<close>

record txn_state =
  tx_seq :: nat
  tx_building :: "WriteOp list option"
  tx_prepared :: "bytes \<rightharpoonup> WriteOp list"
  tx_applied :: "(u32 \<times> update) list"

definition tx_apply :: "WriteOp list \<Rightarrow> txn_state \<Rightarrow> txn_state" where
  "tx_apply ops t = t\<lparr>tx_seq := tx_seq t + ops_count ops, tx_applied := tx_applied t @ numbered (tx_seq t) ops\<rparr>"

fun tx_step :: "bool \<Rightarrow> WriteOp \<Rightarrow> txn_state \<Rightarrow> txn_state" where
  "tx_step recovering BeginPrepareOp t = (if recovering then t\<lparr>tx_building := Some []\<rparr> else t)"
| "tx_step recovering (EndPrepareOp x) t =
     (if recovering then t\<lparr>tx_prepared := (tx_prepared t)(x := tx_building t), tx_building := None\<rparr> else t)"
| "tx_step recovering (CommitOp x) t =
     (if recovering
      then (case tx_prepared t x of
              None \<Rightarrow> t
            | Some ops \<Rightarrow> (tx_apply ops t)\<lparr>tx_prepared := (tx_prepared t)(x := None)\<rparr>)
      else t)"
| "tx_step recovering (RollbackOp x) t = (if recovering then t\<lparr>tx_prepared := (tx_prepared t)(x := None)\<rparr> else t)"
| "tx_step recovering (LogDataOp blob) t = t"
| "tx_step recovering NoopOp t = t"
| "tx_step recovering op t =
     (case tx_building t of
        Some ops \<Rightarrow> t\<lparr>tx_building := Some (ops @ [op])\<rparr>
      | None \<Rightarrow> tx_apply [op] t)"

definition tx_steps :: "bool \<Rightarrow> WriteOp list \<Rightarrow> txn_state \<Rightarrow> txn_state" where
  "tx_steps recovering ops t = fold (tx_step recovering) ops t"

text \<open>Markers come in pairs: a section ends where one was begun, and only updates are inside.\<close>

fun marks_ok :: "bool \<Rightarrow> WriteOp list \<Rightarrow> bool" where
  "marks_ok inside [] \<longleftrightarrow> \<not> inside"
| "marks_ok inside (BeginPrepareOp # ops) \<longleftrightarrow> \<not> inside \<and> marks_ok True ops"
| "marks_ok inside (EndPrepareOp x # ops) \<longleftrightarrow> inside \<and> marks_ok False ops"
| "marks_ok inside (CommitOp x # ops) \<longleftrightarrow> \<not> inside \<and> marks_ok inside ops"
| "marks_ok inside (RollbackOp x # ops) \<longleftrightarrow> \<not> inside \<and> marks_ok inside ops"
| "marks_ok inside (op # ops) \<longleftrightarrow> marks_ok inside ops"

section \<open>The families of an inserter\<close>

text \<open>What does not change of the families, and whether one of them takes an update.\<close>

definition mems_shape :: "(u32 \<rightharpoonup> ('r, 'q) CFMem) \<Rightarrow> u32 \<rightharpoonup> u64 \<times> bool" where
  "mems_shape mems = (\<lambda>cf. map_option (\<lambda>c. (cfm_log_number c, is_delete_range_supported c)) (mems cf))"

definition shape :: "('r, 'q) MemTableInserter \<Rightarrow> u32 \<rightharpoonup> u64 \<times> bool" where
  "shape s = mems_shape (cf_mems s)"

definition accepts :: "('r, 'q) InserterOptions \<Rightarrow> (u32 \<rightharpoonup> u64 \<times> bool) \<Rightarrow> u32 \<Rightarrow> bool" where
  "accepts opts sh cf \<longleftrightarrow>
     (case sh cf of
        None \<Rightarrow> False
      | Some (n, _) \<Rightarrow> recovering_log_number opts = 0 \<or> n \<le> recovering_log_number opts)"

definition family_updates :: "u32 \<Rightarrow> (u32 \<times> update) list \<Rightarrow> update list" where
  "family_updates cf us = map snd (filter (\<lambda>u. fst u = cf) us)"

text \<open>Operations that the inserter does not refuse.\<close>

fun op_fits :: "('r, 'q) InserterOptions \<Rightarrow> (u32 \<rightharpoonup> u64 \<times> bool) \<Rightarrow> WriteOp \<Rightarrow> bool" where
  "op_fits opts sh (PutOp cf k v) \<longleftrightarrow> (sh cf \<noteq> None \<or> ignore_missing_column_families opts) \<and> length k + 8 < 2 ^ 32 \<and> short v"
| "op_fits opts sh (DeleteOp cf k) \<longleftrightarrow> (sh cf \<noteq> None \<or> ignore_missing_column_families opts) \<and> length k + 8 < 2 ^ 32"
| "op_fits opts sh (SingleDeleteOp cf k) \<longleftrightarrow> (sh cf \<noteq> None \<or> ignore_missing_column_families opts) \<and> length k + 8 < 2 ^ 32"
| "op_fits opts sh (DeleteRangeOp cf k e) \<longleftrightarrow> (sh cf \<noteq> None \<or> ignore_missing_column_families opts) \<and> length k + 8 < 2 ^ 32 \<and> short e
     \<and> (has_db opts \<longrightarrow> (\<forall>n. sh cf \<noteq> Some (n, False)))"
| "op_fits opts sh (MergeOp cf k v) \<longleftrightarrow> (sh cf \<noteq> None \<or> ignore_missing_column_families opts) \<and> length k + 8 < 2 ^ 32 \<and> short v"
| "op_fits opts sh op \<longleftrightarrow> op_short op"

lemma op_fits_short: "op_fits opts sh op \<Longrightarrow> op_short op"
  by (cases op) (auto simp: short_def)

text \<open>What no update changes.\<close>

definition keeps :: "('r, 'q) MemTableInserter \<Rightarrow> ('r, 'q) MemTableInserter \<Rightarrow> bool" where
  "keeps s s' \<longleftrightarrow> shape s' = shape s \<and> rebuilding_trx s' = rebuilding_trx s \<and> recovered_transactions s' = recovered_transactions s
     \<and> prep_logs s' = prep_logs s \<and> log_number_ref s' = log_number_ref s \<and> null_dereference s' = null_dereference s"

lemma keeps_refl [simp]: "keeps s s"
  by (simp add: keeps_def)

lemma keeps_trans: "keeps s s' \<Longrightarrow> keeps s' s'' \<Longrightarrow> keeps s s''"
  by (simp add: keeps_def)

lemma shape_simps [simp]:
  "shape (s\<lparr>rebuilding_trx := b\<rparr>) = shape s" "shape (s\<lparr>has_valid_writes := v\<rparr>) = shape s"
  "shape (s\<lparr>recovered_transactions := x\<rparr>) = shape s" "shape (s\<lparr>prep_logs := p\<rparr>) = shape s"
  "shape (s\<lparr>log_number_ref := n\<rparr>) = shape s" "shape (s\<lparr>null_dereference := f\<rparr>) = shape s"
  by (simp_all add: shape_def mems_shape_def)

lemma shape_upd: "cf_mems s cf = Some c \<Longrightarrow> cfm_log_number c' = cfm_log_number c \<Longrightarrow>
    is_delete_range_supported c' = is_delete_range_supported c \<Longrightarrow> cf_mems s' = (cf_mems s)(cf \<mapsto> c') \<Longrightarrow> shape s' = shape s"
  by (auto simp: shape_def mems_shape_def)

section \<open>Rebuilt transactions\<close>

definition batch_of :: "WriteOp list \<Rightarrow> WriteBatch \<Rightarrow> bool" where
  "batch_of ops b \<longleftrightarrow> (\<exists>sp. represents b sp \<and> spec_ops sp = ops) \<and> max_bytes b = 0"

lemma batch_of_new: "batch_of [] (new_WriteBatch 0)"
  using represents_new [of 0] by (auto simp: batch_of_def empty_spec_def new_WriteBatch_def)

lemma batch_of_replay: "batch_of ops b \<Longrightarrow> Iterate h b s = replay_result h ops s"
  using Iterate_replay by (auto simp: batch_of_def represents_def)

lemma rebuild_op:
  assumes "batch_of ops b" "op_counted op" "op_short op" "rebuilding_trx s = Some b"
  shows "\<exists>b'. deliver (inserter d opts) op s = (OK, s\<lparr>rebuilding_trx := Some b'\<rparr>) \<and> batch_of (ops @ [op]) b'"
proof -
  obtain sp where sp: "represents b sp" "spec_ops sp = ops" "max_bytes b = 0"
    using assms(1) by (auto simp: batch_of_def)
  have grows: "batch_of (ops @ [op]) b'" if "run_call c b = (st, b')" "call_ok c sp" "spec_call 0 c sp = spec_limited 0 op sp" for c st b'
    using call_refines [OF sp(1) that(2)] that(1,3) sp(2,3)
    by (auto simp: batch_of_def spec_limited_def spec_add_def)
  show ?thesis
  proof (cases op)
    case (PutOp cf k v)
    then show ?thesis
      using grows [of "CallPut cf k v" "fst (Put cf k v b)" "snd (Put cf k v b)"] assms(3,4)
      by (auto simp: inserter.simps [of d opts] inserter_PutCF_def with_family_def)
  next
    case (DeleteOp cf k)
    then show ?thesis
      using grows [of "CallDelete cf k" "fst (Delete cf k b)" "snd (Delete cf k b)"] assms(3,4)
      by (auto simp: inserter.simps [of d opts] inserter_DeleteCF_def with_family_def)
  next
    case (SingleDeleteOp cf k)
    then show ?thesis
      using grows [of "CallSingleDelete cf k" "fst (SingleDelete cf k b)" "snd (SingleDelete cf k b)"] assms(3,4)
      by (auto simp: inserter.simps [of d opts] inserter_SingleDeleteCF_def with_family_def)
  next
    case (DeleteRangeOp cf k e)
    then show ?thesis
      using grows [of "CallDeleteRange cf k e" "fst (DeleteRange cf k e b)" "snd (DeleteRange cf k e b)"] assms(3,4)
      by (auto simp: inserter.simps [of d opts] inserter_DeleteRangeCF_def with_family_def)
  next
    case (MergeOp cf k v)
    then show ?thesis
      using grows [of "CallMerge cf k v" "fst (Merge cf k v b)" "snd (Merge cf k v b)"] assms(3,4)
      by (auto simp: inserter.simps [of d opts] inserter_MergeCF_def with_family_def)
  qed (use assms(2) in simp_all)
qed

lemma inserter_Continue [simp]: "Continue (inserter d opts) s"
  by (simp add: inserter.simps [of d opts])

text \<open>Rebuilt batches hold updates only, so that the depth of the handler does not matter for them.\<close>

lemma deliver_depth: "op_counted op \<Longrightarrow> deliver (inserter d opts) op s = deliver (inserter d' opts) op s"
  by (cases op) (simp_all add: inserter.simps [of d opts] inserter.simps [of d' opts])

lemma depth_enough:
  assumes "batch_of ops b" "list_all op_counted ops"
  shows "Iterate (inserter d opts) b s = Iterate (inserter d' opts) b s"
proof -
  have "replay (inserter d opts) ops s = replay (inserter d' opts) ops s" for s
    using assms(2)
  proof (induction ops arbitrary: s)
    case (Cons op ops)
    then show ?case
      using deliver_depth [of op d opts s d'] by (simp split: prod.splits)
  qed simp
  then show ?thesis
    by (simp add: batch_of_replay [OF assms(1)] replay_result_def)
qed

text \<open>A memtable that answers every read as a list of updates prescribes.\<close>

definition reads_as :: "('r, 'q) CFMem \<Rightarrow> update list \<Rightarrow> bool" where
  "reads_as c us \<longleftrightarrow>
     (\<forall>k s value status prior seq. length k + 8 < 2 ^ 32 \<longrightarrow> s \<le> kMaxSequenceNumber \<longrightarrow>
        (IsMergeInProgress status \<longrightarrow> status = MergeInProgress) \<longrightarrow>
        (let r = Get (cfm_options c) False (new_LookupKey k s) value status \<lparr>operand_list = prior, operands_reversed = True\<rparr>
                   (RangeDelAggregator_of_snapshot s False) seq (cfm_mem c)
         in (get_found r, get_value r, get_status r)) =
        finish_read (mem_merge_operator (cfm_options c)) k value status (IsMergeInProgress status) prior
          (read_versions (range_covered (user_comparator (cfm_options c)) us s) (visible (user_comparator (cfm_options c)) us k s)))"

section \<open>Lists of operations\<close>

definition taken :: "('r, 'q) InserterOptions \<Rightarrow> (u32 \<rightharpoonup> u64 \<times> bool) \<Rightarrow> (u32 \<times> update) list \<Rightarrow> u32 \<Rightarrow> update list" where
  "taken opts sh us cf = (if accepts opts sh cf then family_updates cf us else [])"

lemma taken_Nil [simp]: "taken opts sh [] cf = []"
  by (simp add: taken_def family_updates_def)

definition updates_only :: "('r, 'q) InserterOptions \<Rightarrow> (u32 \<rightharpoonup> u64 \<times> bool) \<Rightarrow> WriteOp list \<Rightarrow> bool" where
  "updates_only opts sh ops \<longleftrightarrow> list_all (\<lambda>op. op_counted op \<and> op_fits opts sh op) ops"

lemma op_update_counted: "op_counted op \<Longrightarrow> \<exists>cf u. op_update n op = Some (cf, u) \<and> fst u = word_of_nat n"
  by (cases op) auto

lemma tx_apply_Cons: "op_counted op \<Longrightarrow> tx_apply (op # ops) t = tx_apply ops (tx_apply [op] t)"
  using op_update_counted [of op "tx_seq t"] by (auto simp: tx_apply_def)

lemma counted_cases:
  "op_counted op \<or> op = BeginPrepareOp \<or> (\<exists>x. op = EndPrepareOp x) \<or> (\<exists>x. op = CommitOp x) \<or> (\<exists>x. op = RollbackOp x)
    \<or> (\<exists>b. op = LogDataOp b) \<or> op = NoopOp"
  by (cases op) auto

lemma tx_step_counted:
  "op_counted op \<Longrightarrow> tx_step r op t = (case tx_building t of Some ops \<Rightarrow> t\<lparr>tx_building := Some (ops @ [op])\<rparr> | None \<Rightarrow> tx_apply [op] t)"
  by (cases op) auto

lemma replay_result_done: "replay h ops s = (OK, s', []) \<Longrightarrow> replay_result h ops s = (OK, s')"
  by (simp add: replay_result_def)

fun mark_fits :: "bool \<Rightarrow> WriteOp \<Rightarrow> bool" where
  "mark_fits inside BeginPrepareOp \<longleftrightarrow> \<not> inside"
| "mark_fits inside (EndPrepareOp x) \<longleftrightarrow> inside"
| "mark_fits inside (CommitOp x) \<longleftrightarrow> \<not> inside"
| "mark_fits inside (RollbackOp x) \<longleftrightarrow> \<not> inside"
| "mark_fits inside op \<longleftrightarrow> True"

lemma tx_seq_mono: "tx_seq t \<le> tx_seq (tx_step r op t)"
  by (cases op) (auto simp: tx_apply_def split: option.splits)

lemma tx_steps_simps [simp]: "tx_steps r [] t = t" "tx_steps r (op # ops) t = tx_steps r ops (tx_step r op t)"
  "tx_steps r (ops @ ops') t = tx_steps r ops' (tx_steps r ops t)"
  by (simp_all add: tx_steps_def)

lemma tx_seq_steps_mono: "tx_seq t \<le> tx_seq (tx_steps r ops t)"
proof (induction ops arbitrary: t)
  case (Cons op ops)
  show ?case
    using order_trans [OF tx_seq_mono Cons] by simp
qed simp

lemma marks_ok_Cons:
  "marks_ok (tx_building t \<noteq> None) (op # ops) \<Longrightarrow>
    mark_fits (tx_building t \<noteq> None) op \<and> marks_ok (tx_building (tx_step True op t) \<noteq> None) ops"
  by (cases op) (auto simp: tx_apply_def split: option.splits)

lemma tx_building_None: "tx_building t = None \<Longrightarrow> tx_building (tx_step False op t) = None"
  by (cases op) (auto simp: tx_apply_def)

text \<open>Families whose memtables keep the contract of \<open>memtable_order\<close>; \<open>H\<close> is what each of them holds.\<close>

locale families =
  fixes fopts :: "u32 \<Rightarrow> ('r, 'q) MemTableOptions" and rank :: "u32 \<Rightarrow> bytes \<Rightarrow> 'o::linorder"
    and tw :: "u32 \<Rightarrow> 'r \<Rightarrow> bool" and tr :: "u32 \<Rightarrow> 'r \<Rightarrow> bool" and tc :: "u32 \<Rightarrow> 'r \<Rightarrow> bytes set"
    and qw :: "u32 \<Rightarrow> 'q \<Rightarrow> bool" and qr :: "u32 \<Rightarrow> 'q \<Rightarrow> bool" and qc :: "u32 \<Rightarrow> 'q \<Rightarrow> bytes set"
  assumes order: "memtable_order (fopts cf) (rank cf) (tw cf) (tr cf) (tc cf) (qw cf) (qr cf) (qc cf)"
begin

abbreviation mem_holds :: "u32 \<Rightarrow> update list \<Rightarrow> ('r, 'q) MemTable \<Rightarrow> bool" where
  "mem_holds cf \<equiv> memtable_order.holds (tw cf) (tc cf) (qw cf) (qc cf)"

definition fams_hold :: "(u32 \<Rightarrow> update list) \<Rightarrow> (u32 \<rightharpoonup> ('r, 'q) CFMem) \<Rightarrow> bool" where
  "fams_hold H mems \<longleftrightarrow> (\<forall>cf c. mems cf = Some c \<longrightarrow> cfm_options c = fopts cf \<and> mem_holds cf (H cf) (cfm_mem c))"

lemmas holds_def = memtable_order.holds_def [OF order]

lemma holds_same:
  assumes "mem_holds cf us m" "table m' = table m" "range_del_table m' = range_del_table m"
    "is_range_del_table_empty m' = is_range_del_table_empty m" "first_seqno m' = first_seqno m"
  shows "mem_holds cf us m'"
  using assms by (simp add: holds_def)

lemma holds_AddConcurrently:
  assumes "mem_holds cf us m" "update_ok (n, t, k, v)" "n \<notin> fst ` set us"
    "AddConcurrently (fopts cf) n t k v info m = (info', m')"
  shows "mem_holds cf (us @ [(n, t, k, v)]) m'"
proof -
  have "n \<noteq> 0"
    using assms(2) by (auto simp: update_ok_def)
  then obtain f where f: "f \<noteq> 0" "m' = note_range_del t ((add_entry (fopts cf) n t k v m)\<lparr>first_seqno := f\<rparr>)"
    using assms(4) by (auto simp: AddConcurrently_def Let_def concurrent_first_seqno_def concurrent_earliest_seqno_def split: if_splits)
  have "is_range_del_table_empty (add_entry (fopts cf) n t k v m) = is_range_del_table_empty m"
    by (simp add: add_entry_def Let_def)
  then show ?thesis
    using assms(1-3) f(1) by (intro memtable_order.holds_entry [OF order]) (auto simp: f(2) note_range_del_def)
qed

lemma fams_hold_upd:
  assumes "fams_hold H mems" "mem_holds cf us m" "cfm_options c = fopts cf" "cfm_mem c = m"
  shows "fams_hold (H(cf := us)) (mems(cf \<mapsto> c))"
  using assms by (simp add: fams_hold_def)

lemma Seek_accepts:
  assumes "fams_hold H (cf_mems s)" "accepts opts (shape s) cf"
  obtains c s' where "SeekToColumnFamily opts cf s = (Some c, OK, s')" "cf_mems s' cf = Some c" "fams_hold H (cf_mems s')"
    "keeps s s'" "ins_sequence s' = ins_sequence s"
proof -
  obtain c where c: "cf_mems s cf = Some c" "recovering_log_number opts = 0 \<or> cfm_log_number c \<le> recovering_log_number opts"
    using assms(2) by (auto simp: accepts_def shape_def mems_shape_def split: option.splits)
  define c' where "c' = (if 0 < log_number_ref s then c\<lparr>cfm_mem := RefLogContainingPrepSection (log_number_ref s) (cfm_mem c)\<rparr> else c)"
  define s' where "s' = s\<lparr>has_valid_writes := map_option (\<lambda>_. True) (has_valid_writes s), cf_mems := (cf_mems s)(cf \<mapsto> c')\<rparr>"
  have "mem_holds cf (H cf) (cfm_mem c)" "cfm_options c = fopts cf"
    using assms(1) c(1) by (auto simp: fams_hold_def)
  then have "mem_holds cf (H cf) (cfm_mem c')" "cfm_options c' = fopts cf"
    by (auto simp: c'_def RefLogContainingPrepSection_def Let_def elim!: holds_same)
  then have "fams_hold (H(cf := H cf)) (cf_mems s')"
    using fams_hold_upd [OF assms(1), of cf "H cf" "cfm_mem c'" c'] by (simp add: s'_def)
  moreover have "shape s' = shape s"
    using c(1) by (rule shape_upd) (simp_all add: c'_def s'_def)
  moreover have "SeekToColumnFamily opts cf s = (Some c', OK, s')"
    using c by (auto simp: SeekToColumnFamily_def Let_def c'_def s'_def)
  ultimately show thesis
    using that [of c' s'] by (simp add: keeps_def s'_def)
qed

lemma Seek_rejects:
  assumes "\<not> accepts opts (shape s) cf" "shape s cf \<noteq> None \<or> ignore_missing_column_families opts"
  shows "SeekToColumnFamily opts cf s = (None, OK, s)"
  using assms by (auto simp: SeekToColumnFamily_def accepts_def shape_def mems_shape_def split: option.splits)

lemma add_step:
  assumes "fams_hold H (cf_mems s)" "cf_mems s cf = Some c" "update_ok (ins_sequence s, t, k, v)" "ins_sequence s \<notin> fst ` set (H cf)"
    and s': "s' = CheckMemtableFull cf (next_sequence (mem_Add conc cf c t k v s))"
  shows "fams_hold (H(cf := H cf @ [(ins_sequence s, t, k, v)])) (cf_mems s')" "keeps s s'" "ins_sequence s' = ins_sequence s + 1"
proof -
  let ?u = "(ins_sequence s, t, k, v)" and ?s1 = "mem_Add conc cf c t k v s"
  have h: "mem_holds cf (H cf) (cfm_mem c)" "cfm_options c = fopts cf"
    using assms(1,2) by (auto simp: fams_hold_def)
  obtain m info where m: "?s1 = s\<lparr>cf_mems := (cf_mems s)(cf \<mapsto> c\<lparr>cfm_mem := m\<rparr>), mem_post_info_map := info\<rparr>" "mem_holds cf (H cf @ [?u]) m"
  proof (cases conc)
    case True
    obtain i m where "AddConcurrently (fopts cf) (ins_sequence s) t k v (get_post_process_info cf s) (cfm_mem c) = (i, m)"
      by (metis surj_pair)
    with True h holds_AddConcurrently [OF h(1) assms(3,4)] show thesis
      using that by (simp add: mem_Add_def)
  next
    case False
    with h memtable_order.holds_Add [OF order h(1) assms(3,4)] show thesis
      using that [where info = "mem_post_info_map s"] by (simp add: mem_Add_def)
  qed
  obtain m' fs where m': "s' = ?s1\<lparr>ins_sequence := ins_sequence s + 1, cf_mems := (cf_mems s)(cf \<mapsto> c\<lparr>cfm_mem := m'\<rparr>), flush_scheduler := fs\<rparr>"
    "mem_holds cf (H cf @ [?u]) m'"
  proof (cases "flush_scheduler s \<noteq> None \<and> ShouldScheduleFlush m")
    case True
    then have "s' = ?s1\<lparr>ins_sequence := ins_sequence s + 1, cf_mems := (cf_mems s)(cf \<mapsto> c\<lparr>cfm_mem := m\<lparr>flush_state := FLUSH_SCHEDULED\<rparr>\<rparr>),
        flush_scheduler := Some (ScheduleFlush cf (the (flush_scheduler s)))\<rparr>"
      by (auto simp: s' m(1) CheckMemtableFull_def next_sequence_def MarkFlushScheduled_def ShouldScheduleFlush_def)
    moreover have "mem_holds cf (H cf @ [?u]) (m\<lparr>flush_state := FLUSH_SCHEDULED\<rparr>)"
      using m(2) by (rule holds_same) simp_all
    ultimately show thesis
      by (rule that)
  next
    case False
    then have "s' = ?s1\<lparr>ins_sequence := ins_sequence s + 1, cf_mems := (cf_mems s)(cf \<mapsto> c\<lparr>cfm_mem := m\<rparr>), flush_scheduler := flush_scheduler s\<rparr>"
      by (auto simp: s' m(1) CheckMemtableFull_def next_sequence_def split: option.splits)
    then show thesis
      using m(2) by (rule that)
  qed
  show "fams_hold (H(cf := H cf @ [?u])) (cf_mems s')"
    using fams_hold_upd [OF assms(1) m'(2), of "c\<lparr>cfm_mem := m'\<rparr>"] h(2) by (simp add: m'(1) m(1))
  have "shape s' = shape s"
    using assms(2) by (rule shape_upd) (simp_all add: m'(1) m(1))
  then show "keeps s s'" "ins_sequence s' = ins_sequence s + 1"
    by (simp_all add: keeps_def m'(1) m(1))
qed

lemma with_family_step:
  assumes "fams_hold H (cf_mems s)" "rebuilding_trx s = None" "shape s cf \<noteq> None \<or> ignore_missing_column_families opts"
    "update_ok (ins_sequence s, t, k, v)" "ins_sequence s \<notin> fst ` set (H cf)"
    and act: "\<And>c s'. cf_mems s' cf = Some c \<Longrightarrow> cfm_options c = fopts cf \<Longrightarrow> shape s' = shape s \<Longrightarrow>
      act c s' = (OK, CheckMemtableFull cf (next_sequence (mem_Add conc cf c t k v s')))"
  shows "\<exists>s'. with_family opts rebuild cf act s = (OK, s')
    \<and> fams_hold (if accepts opts (shape s) cf then H(cf := H cf @ [(ins_sequence s, t, k, v)]) else H) (cf_mems s')
    \<and> keeps s s' \<and> ins_sequence s' = ins_sequence s + 1"
proof (cases "accepts opts (shape s) cf")
  case True
  obtain c s1 where s1: "SeekToColumnFamily opts cf s = (Some c, OK, s1)" "cf_mems s1 cf = Some c" "fams_hold H (cf_mems s1)"
    "keeps s s1" "ins_sequence s1 = ins_sequence s"
    using Seek_accepts [OF assms(1) True] .
  define s2 where "s2 = CheckMemtableFull cf (next_sequence (mem_Add conc cf c t k v s1))"
  have "cfm_options c = fopts cf" "shape s1 = shape s"
    using s1(2-4) by (auto simp: fams_hold_def keeps_def)
  then have "with_family opts rebuild cf act s = (OK, s2)"
    using assms(2) s1(1,2) act by (simp add: with_family_def s2_def)
  moreover have "fams_hold (H(cf := H cf @ [(ins_sequence s, t, k, v)])) (cf_mems s2)" "keeps s1 s2" "ins_sequence s2 = ins_sequence s + 1"
    using add_step [OF s1(3,2) _ _ s2_def] assms(4,5) s1(5) by auto
  ultimately show ?thesis
    using True s1(4) by (auto intro: keeps_trans)
next
  case False
  then have "with_family opts rebuild cf act s = (OK, next_sequence s)"
    using Seek_rejects [OF False assms(3)] assms(2) by (simp add: with_family_def)
  with False assms(1) show ?thesis
    by (simp add: next_sequence_def keeps_def shape_def mems_shape_def)
qed

definition plain_merges :: "('r, 'q) InserterOptions \<Rightarrow> bool" where
  "plain_merges opts \<longleftrightarrow> (\<forall>cf. max_successive_merges (fopts cf) = 0) \<or> \<not> has_db opts \<or> recovering_log_number opts \<noteq> 0"

lemma data_step:
  assumes "fams_hold H (cf_mems s)" "rebuilding_trx s = None" "op_update n op = Some (cf, u)" "op_fits opts (shape s) op"
    "ins_sequence s = word_of_nat n" "0 < n" "n \<le> unat kMaxSequenceNumber" "fst u \<notin> fst ` set (H cf)" "plain_merges opts"
  shows "\<exists>s'. deliver (inserter d opts) op s = (OK, s')
    \<and> fams_hold (if accepts opts (shape s) cf then H(cf := H cf @ [u]) else H) (cf_mems s')
    \<and> keeps s s' \<and> ins_sequence s' = word_of_nat (Suc n)"
proof -
  have n: "n < 2 ^ 64"
    using assms(7) by (simp add: kMaxSequenceNumber_def)
  have seq: "0 < ins_sequence s" "ins_sequence s \<le> kMaxSequenceNumber" "ins_sequence s + 1 = word_of_nat (Suc n)"
    using assms(5-7) n by (auto simp: word_less_nat_alt word_le_nat_alt unat_of_nat take_bit_nat_eq_self)
  note simps = inserter.simps [of d opts] deliver.simps Handler.simps
  have "fst u = word_of_nat n"
    using assms(3) by (cases op) auto
  then have fresh: "ins_sequence s \<notin> fst ` set (H cf)"
    using assms(5,8) by simp
  note step = with_family_step [OF assms(1,2) _ _ fresh]
  let ?done = "\<lambda>r t k v. \<exists>s'. r = (OK, s')
      \<and> fams_hold (if accepts opts (shape s) cf then H(cf := H cf @ [(ins_sequence s, t, k, v)]) else H) (cf_mems s')
      \<and> keeps s s' \<and> ins_sequence s' = ins_sequence s + 1"
  show ?thesis
  proof (cases op)
    case (PutOp cf' k v)
    have "?done (inserter_PutCF opts cf k v s) kTypeValue k v"
      unfolding inserter_PutCF_def
      by (rule step [OF _ _ refl]) (use assms(3-5) seq PutOp in \<open>auto simp: update_ok_def IsExtendedValueType_def IsValueType_def\<close>)
    moreover have "op = PutOp cf k v" "u = (ins_sequence s, kTypeValue, k, v)"
      using PutOp assms(3,5) by auto
    ultimately show ?thesis
      by (simp only: simps seq(3))
  next
    case (DeleteOp cf' k)
    have "?done (inserter_DeleteCF opts cf k s) kTypeDeletion k []"
      unfolding inserter_DeleteCF_def
      by (rule step [OF _ _ DeleteImpl_def])
        (use assms(3-5) seq DeleteOp in \<open>auto simp: update_ok_def IsExtendedValueType_def IsValueType_def short_def\<close>)
    moreover have "op = DeleteOp cf k" "u = (ins_sequence s, kTypeDeletion, k, [])"
      using DeleteOp assms(3,5) by auto
    ultimately show ?thesis
      by (simp only: simps seq(3))
  next
    case (SingleDeleteOp cf' k)
    have "?done (inserter_SingleDeleteCF opts cf k s) kTypeSingleDeletion k []"
      unfolding inserter_SingleDeleteCF_def
      by (rule step [OF _ _ DeleteImpl_def])
        (use assms(3-5) seq SingleDeleteOp in \<open>auto simp: update_ok_def IsExtendedValueType_def IsValueType_def short_def\<close>)
    moreover have "op = SingleDeleteOp cf k" "u = (ins_sequence s, kTypeSingleDeletion, k, [])"
      using SingleDeleteOp assms(3,5) by auto
    ultimately show ?thesis
      by (simp only: simps seq(3))
  next
    case (DeleteRangeOp cf' k e)
    have "?done (inserter_DeleteRangeCF opts cf k e s) kTypeRangeDeletion k e"
      unfolding inserter_DeleteRangeCF_def
    proof (rule step [where t = kTypeRangeDeletion and k = k and v = e and conc = "concurrent_memtable_writes opts"])
      fix c :: "('r, 'q) CFMem" and s' :: "('r, 'q) MemTableInserter"
      assume "cf_mems s' cf = Some c" "shape s' = shape s"
      then have "shape s cf = Some (cfm_log_number c, is_delete_range_supported c)"
        by (metis (no_types, lifting) option.simps(9) shape_def mems_shape_def)
      then show "(if has_db opts \<and> \<not> is_delete_range_supported c then (NotSupported ''DeleteRange not supported for table type '', s')
          else DeleteImpl opts cf k e kTypeRangeDeletion c s') =
        (OK, CheckMemtableFull cf (next_sequence (mem_Add (concurrent_memtable_writes opts) cf c kTypeRangeDeletion k e s')))"
        using assms(3,4) DeleteRangeOp by (auto simp: DeleteImpl_def)
    qed (use assms(3-5) seq DeleteRangeOp in \<open>auto simp: update_ok_def IsExtendedValueType_def\<close>)
    moreover have "op = DeleteRangeOp cf k e" "u = (ins_sequence s, kTypeRangeDeletion, k, e)"
      using DeleteRangeOp assms(3,5) by auto
    ultimately show ?thesis
      by (simp only: simps seq(3))
  next
    case (MergeOp cf' k v)
    have "?done (inserter_MergeCF opts cf k v s) kTypeMerge k v"
      unfolding inserter_MergeCF_def
    proof (rule step [where t = kTypeMerge and k = k and v = v and conc = False])
      fix c :: "('r, 'q) CFMem" and s' :: "('r, 'q) MemTableInserter"
      assume "cfm_options c = fopts cf"
      then have "perform_merge opts cf k v c (ins_sequence s') = None"
        using assms(9) by (auto simp: perform_merge_def plain_merges_def Let_def)
      then show "(OK, CheckMemtableFull cf (next_sequence (case perform_merge opts cf k v c (ins_sequence s') of
            None \<Rightarrow> mem_Add False cf c kTypeMerge k v s' | Some new_value \<Rightarrow> mem_Add False cf c kTypeValue k new_value s'))) =
        (OK, CheckMemtableFull cf (next_sequence (mem_Add False cf c kTypeMerge k v s')))"
        by simp
    qed (use assms(3-5) seq MergeOp in \<open>auto simp: update_ok_def IsExtendedValueType_def IsValueType_def\<close>)
    moreover have "op = MergeOp cf k v" "u = (ins_sequence s, kTypeMerge, k, v)"
      using MergeOp assms(3,5) by auto
    ultimately show ?thesis
      by (simp only: simps seq(3))
  qed (use assms(3) in simp_all)
qed

section \<open>The inserter follows the operations\<close>

definition simulates :: "('r, 'q) InserterOptions \<Rightarrow> (u32 \<rightharpoonup> u64 \<times> bool) \<Rightarrow> (u32 \<Rightarrow> update list) \<Rightarrow> txn_state \<Rightarrow>
    ('r, 'q) MemTableInserter \<Rightarrow> bool" where
  "simulates opts sh H t s \<longleftrightarrow>
     shape s = sh \<and> ins_sequence s = word_of_nat (tx_seq t) \<and> 0 < tx_seq t \<and> \<not> null_dereference s
     \<and> rel_option (\<lambda>b ops. batch_of ops b \<and> updates_only opts sh ops) (rebuilding_trx s) (tx_building t)
     \<and> (recovering_log_number opts \<noteq> 0 \<longrightarrow>
          (\<forall>x. rel_option (\<lambda>trx ops. (\<exists>b. trx_batch trx = Some b \<and> batch_of ops b) \<and> updates_only opts sh ops)
            (recovered_transactions s x) (tx_prepared t x)))
     \<and> fams_hold (\<lambda>cf. H cf @ taken opts sh (tx_applied t) cf) (cf_mems s)
     \<and> (\<forall>cf. \<forall>u\<in>set (H cf @ taken opts sh (tx_applied t) cf). unat (fst u) < tx_seq t)"

lemma apply_step:
  assumes "simulates opts sh H t s" "tx_building t = None" "op_counted op" "op_fits opts sh op"
    "tx_seq t \<le> unat kMaxSequenceNumber" "plain_merges opts"
  shows "\<exists>s'. deliver (inserter d opts) op s = (OK, s') \<and> simulates opts sh H (tx_apply [op] t) s'"
proof -
  let ?H = "\<lambda>cf. H cf @ taken opts sh (tx_applied t) cf"
  obtain cf u where u: "op_update (tx_seq t) op = Some (cf, u)" "fst u = word_of_nat (tx_seq t)"
    using op_update_counted [OF assms(3)] by blast
  have n: "unat (word_of_nat (tx_seq t) :: u64) = tx_seq t"
    using assms(5) by (simp add: unat_of_nat take_bit_nat_eq_self kMaxSequenceNumber_def)
  have sim: "shape s = sh" "ins_sequence s = word_of_nat (tx_seq t)" "0 < tx_seq t" "\<not> null_dereference s"
    "rebuilding_trx s = None" "fams_hold ?H (cf_mems s)" "\<forall>cf. \<forall>u\<in>set (?H cf). unat (fst u) < tx_seq t"
    using assms(1,2) by (auto simp: simulates_def)
  have "fst u \<notin> fst ` set (?H cf)"
    using sim(7) u(2) n by fastforce
  then obtain s' where s': "deliver (inserter d opts) op s = (OK, s')"
    "fams_hold (if accepts opts sh cf then ?H(cf := ?H cf @ [u]) else ?H) (cf_mems s')" "keeps s s'"
    "ins_sequence s' = word_of_nat (Suc (tx_seq t))"
    using data_step [OF sim(6,5) u(1) _ sim(2,3) assms(5) _ assms(6)] assms(4) sim(1) by auto
  have app: "tx_apply [op] t = t\<lparr>tx_seq := Suc (tx_seq t), tx_applied := tx_applied t @ [(cf, u)]\<rparr>"
    using assms(3) u(1) by (simp add: tx_apply_def)
  have H': "(\<lambda>cf'. H cf' @ taken opts sh (tx_applied t @ [(cf, u)]) cf') = (if accepts opts sh cf then ?H(cf := ?H cf @ [u]) else ?H)"
    by (auto simp: taken_def family_updates_def fun_eq_iff)
  have "\<forall>cf'. \<forall>w\<in>set (H cf' @ taken opts sh (tx_applied t @ [(cf, u)]) cf'). unat (fst w) < Suc (tx_seq t)"
    using sim(7) u(2) n by (auto simp: taken_def family_updates_def less_Suc_eq split: if_splits)
  then have "simulates opts sh H (tx_apply [op] t) s'"
    unfolding simulates_def app using assms(1,2) s'(2-4) by (simp add: H' simulates_def keeps_def)
  with s'(1) show ?thesis
    by blast
qed

lemma apply_steps:
  assumes "simulates opts sh H t s" "tx_building t = None" "updates_only opts sh ops"
    "tx_seq t + ops_count ops \<le> Suc (unat kMaxSequenceNumber)" "plain_merges opts"
  shows "\<exists>s'. replay (inserter d opts) ops s = (OK, s', []) \<and> simulates opts sh H (tx_apply ops t) s'"
  using assms
proof (induction ops arbitrary: t s)
  case Nil
  then show ?case
    by (simp add: tx_apply_def)
next
  case (Cons op ops)
  have op: "op_counted op" "op_fits opts sh op" "updates_only opts sh ops"
    using Cons.prems(3) by (simp_all add: updates_only_def)
  obtain s1 where s1: "deliver (inserter d opts) op s = (OK, s1)" "simulates opts sh H (tx_apply [op] t) s1"
    using apply_step [OF Cons.prems(1,2) op(1,2) _ Cons.prems(5)] Cons.prems(4) op(1) by auto
  obtain s2 where "replay (inserter d opts) ops s1 = (OK, s2, [])" "simulates opts sh H (tx_apply ops (tx_apply [op] t)) s2"
    using Cons.IH [OF s1(2) _ op(3) _ Cons.prems(5)] Cons.prems(2,4) op(1) by (auto simp: tx_apply_def)
  with s1(1) show ?case
    by (simp add: tx_apply_Cons [OF op(1), of ops t])
qed

lemma simulates_same:
  assumes "simulates opts sh H t s" "cf_mems s' = cf_mems s" "ins_sequence s' = ins_sequence s" "null_dereference s' = null_dereference s"
    "rebuilding_trx s' = rebuilding_trx s" "recovered_transactions s' = recovered_transactions s"
  shows "simulates opts sh H t s'"
  using assms by (simp add: simulates_def shape_def mems_shape_def)

lemma commit_step:
  assumes "simulates opts sh H t s" "tx_building t = None" "recovering_log_number opts \<noteq> 0" "plain_merges opts"
    "tx_prepared t x = Some ops" "tx_seq t + ops_count ops \<le> Suc (unat kMaxSequenceNumber)"
  shows "\<exists>s'. deliver (inserter (Suc d) opts) (CommitOp x) s = (OK, s')
    \<and> simulates opts sh H ((tx_apply ops t)\<lparr>tx_prepared := (tx_prepared t)(x := None)\<rparr>) s'"
proof -
  obtain trx b where trx: "recovered_transactions s x = Some trx" "trx_batch trx = Some b" "batch_of ops b" "updates_only opts sh ops"
    using assms(1,3,5) by (auto simp: simulates_def rel_option_iff dest!: spec [of _ x] split: option.splits)
  let ?s0 = "s\<lparr>log_number_ref := trx_log_number trx\<rparr>"
  have "simulates opts sh H t ?s0"
    using assms(1) by (rule simulates_same) simp_all
  from apply_steps [OF this assms(2) trx(4) assms(6,4), of d]
  obtain s1 where s1: "replay (inserter d opts) ops ?s0 = (OK, s1, [])" "simulates opts sh H (tx_apply ops t) s1"
    by blast
  have it: "Iterate (inserter d opts) b ?s0 = (OK, s1)"
    by (simp only: batch_of_replay [OF trx(3)] replay_result_done [OF s1(1)])
  define s2 where "s2 = (DeleteRecoveredTransaction x (s1\<lparr>log_number_ref := 0\<rparr>))"
  have "simulates opts sh H ((tx_apply ops t)\<lparr>tx_prepared := (tx_prepared t)(x := None)\<rparr>)
      (s2\<lparr>has_valid_writes := map_option (\<lambda>_. True) (has_valid_writes s2)\<rparr>)"
    using s1(2) by (auto simp: simulates_def s2_def DeleteRecoveredTransaction_def shape_def mems_shape_def tx_apply_def split: option.splits)
  moreover have "deliver (inserter (Suc d) opts) (CommitOp x) s = (OK, s2\<lparr>has_valid_writes := map_option (\<lambda>_. True) (has_valid_writes s2)\<rparr>)"
    using assms(3) trx(1,2) it by (simp add: inserter.simps [of "Suc d" opts] inserter_MarkCommit_def s2_def Let_def)
  ultimately show ?thesis
    by blast
qed

lemma op_step:
  assumes "simulates opts sh H t s" "op_fits opts sh op" "plain_merges opts" "r \<longleftrightarrow> recovering_log_number opts \<noteq> 0"
    "r \<longrightarrow> allow_2pc opts \<and> mark_fits (tx_building t \<noteq> None) op" "\<not> r \<longrightarrow> tx_building t = None"
    "tx_seq (tx_step r op t) \<le> Suc (unat kMaxSequenceNumber)"
  shows "\<exists>s'. deliver (inserter (Suc d) opts) op s = (OK, s') \<and> simulates opts sh H (tx_step r op t) s'"
proof -
  note h = inserter.simps [of "Suc d" opts]
  consider "op_counted op" "tx_building t = None" | ops where "op_counted op" "tx_building t = Some ops" | "op = BeginPrepareOp"
    | x where "op = EndPrepareOp x" | x where "op = CommitOp x" | x where "op = RollbackOp x" | "op = NoopOp \<or> (\<exists>b. op = LogDataOp b)"
    using counted_cases [of op] by (cases "tx_building t") auto
  then show ?thesis
  proof cases
    case 1
    then show ?thesis
      using apply_step [OF assms(1) 1(2,1) assms(2) _ assms(3)] assms(7) by (simp add: tx_step_counted tx_apply_def)
  next
    case (2 ops)
    obtain b where b: "rebuilding_trx s = Some b" "batch_of ops b" "updates_only opts sh ops"
      using assms(1) 2(2) by (auto simp: simulates_def rel_option_iff split: option.splits)
    then obtain b' where "deliver (inserter (Suc d) opts) op s = (OK, s\<lparr>rebuilding_trx := Some b'\<rparr>)" "batch_of (ops @ [op]) b'"
      using rebuild_op [OF b(2) 2(1) op_fits_short [OF assms(2)] b(1)] by blast
    moreover have "updates_only opts sh (ops @ [op])"
      using b(3) 2(1) assms(2) by (simp add: updates_only_def)
    ultimately show ?thesis
      using assms(1) 2 by (auto simp: simulates_def tx_step_counted)
  next
    case 3
    then show ?thesis
      using assms(1,4-6) batch_of_new by (cases r) (simp_all add: h inserter_MarkBeginPrepare_def simulates_def updates_only_def)
  next
    case (4 x)
    then show ?thesis
      using assms(1,4-6) by (cases r; cases "tx_building t"; cases "rebuilding_trx s")
        (auto simp: h inserter_MarkEndPrepare_def InsertRecoveredTransaction_def simulates_def)
  next
    case (5 x)
    show ?thesis
    proof (cases "r \<and> tx_prepared t x \<noteq> None")
      case True
      then obtain ops where "tx_prepared t x = Some ops"
        by auto
      with 5 True assms commit_step [OF assms(1) _ _ assms(3), of x ops d] show ?thesis
        by (auto simp: tx_apply_def)
    next
      case False
      then have "r \<longrightarrow> recovered_transactions s x = None"
        using assms(1,4) by (auto simp: simulates_def rel_option_iff dest!: spec [of _ x] split: option.splits)
      with 5 False assms(1,4) show ?thesis
        by (auto simp: h inserter_MarkCommit_def)
    qed
  next
    case (6 x)
    have "r \<Longrightarrow> recovered_transactions s x = None \<Longrightarrow> tx_prepared t x = None"
      using assms(1,4) by (auto simp: simulates_def rel_option_iff dest!: spec [of _ x] split: option.splits)
    then have "r \<Longrightarrow> recovered_transactions s x = None \<Longrightarrow> (tx_prepared t)(x := None) = tx_prepared t"
      by auto
    with 6 assms(1,4) show ?thesis
      by (auto simp: h inserter_MarkRollback_def DeleteRecoveredTransaction_def simulates_def split: option.splits)
  next
    case 7
    then show ?thesis
      using assms(1) by (auto simp: h)
  qed
qed

lemma replay_step:
  assumes "simulates opts sh H t s" "list_all (op_fits opts sh) ops" "plain_merges opts" "r \<longleftrightarrow> recovering_log_number opts \<noteq> 0"
    "r \<longrightarrow> allow_2pc opts \<and> marks_ok (tx_building t \<noteq> None) ops" "\<not> r \<longrightarrow> tx_building t = None"
    "tx_seq (tx_steps r ops t) \<le> Suc (unat kMaxSequenceNumber)"
  shows "\<exists>s'. replay (inserter (Suc d) opts) ops s = (OK, s', []) \<and> simulates opts sh H (tx_steps r ops t) s'"
  using assms
proof (induction ops arbitrary: t s)
  case (Cons op ops)
  have le: "tx_seq (tx_step r op t) \<le> Suc (unat kMaxSequenceNumber)"
    using order_trans [OF tx_seq_steps_mono] Cons.prems(7) by (metis tx_steps_simps(2))
  have marks: "r \<longrightarrow> allow_2pc opts \<and> mark_fits (tx_building t \<noteq> None) op \<and> marks_ok (tx_building (tx_step r op t) \<noteq> None) ops"
    using Cons.prems(5) marks_ok_Cons [of t op ops] by (cases r) auto
  then have m1: "r \<longrightarrow> allow_2pc opts \<and> mark_fits (tx_building t \<noteq> None) op"
    and m2: "r \<longrightarrow> allow_2pc opts \<and> marks_ok (tx_building (tx_step r op t) \<noteq> None) ops"
    by auto
  have fits: "op_fits opts sh op" "list_all (op_fits opts sh) ops"
    using Cons.prems(2) by simp_all
  obtain s1 where s1: "deliver (inserter (Suc d) opts) op s = (OK, s1)" "simulates opts sh H (tx_step r op t) s1"
    using op_step [OF Cons.prems(1) fits(1) Cons.prems(3,4) m1 Cons.prems(6) le, of d] by blast
  have none: "\<not> r \<longrightarrow> tx_building (tx_step r op t) = None"
    using Cons.prems(6) tx_building_None by (cases r) auto
  obtain s2 where "replay (inserter (Suc d) opts) ops s1 = (OK, s2, [])" "simulates opts sh H (tx_steps r ops (tx_step r op t)) s2"
    using Cons.IH [OF s1(2) fits(2) Cons.prems(3,4) m2 none] Cons.prems(7) by auto
  with s1(1) show ?case
    by simp
qed simp

lemma Iterate_step:
  assumes "simulates opts sh H t s" "list_all (op_fits opts sh) ops" "plain_merges opts" "r \<longleftrightarrow> recovering_log_number opts \<noteq> 0"
    "r \<longrightarrow> allow_2pc opts \<and> marks_ok (tx_building t \<noteq> None) ops" "\<not> r \<longrightarrow> tx_building t = None"
    "tx_seq (tx_steps r ops t) \<le> Suc (unat kMaxSequenceNumber)" "rep b = batch_bytes seq ops"
  shows "\<exists>s'. Iterate (inserter (Suc d) opts) b s = (OK, s') \<and> simulates opts sh H (tx_steps r ops t) s'"
proof -
  have short: "list_all op_short ops"
    using assms(2) op_fits_short by (auto simp: list_all_iff)
  obtain s' where s': "replay (inserter (Suc d) opts) ops s = (OK, s', [])" "simulates opts sh H (tx_steps r ops t) s'"
    using replay_step [OF assms(1-7), of d] by blast
  have "Iterate (inserter (Suc d) opts) b s = (OK, s')"
    by (simp only: Iterate_replay [OF assms(8) short] replay_result_done [OF s'(1)])
  with s'(2) show ?thesis
    by blast
qed

lemma fams_hold_reads: "fams_hold H mems \<Longrightarrow> mems cf = Some c \<Longrightarrow> reads_as c (H cf)"
  using memtable_order.Get_holds [OF order _ _ _ _ refl] by (simp add: fams_hold_def reads_as_def Let_def)

definition fresh_families :: "(u32 \<rightharpoonup> ('r, 'q) CFMem) \<Rightarrow> bool" where
  "fresh_families mems \<longleftrightarrow> (\<forall>cf c. mems cf = Some c \<longrightarrow> cfm_options c = fopts cf \<and> (\<exists>q. cfm_mem c = new_MemTable (fopts cf) q))"

lemma fams_hold_fresh: "fresh_families mems \<Longrightarrow> fams_hold (\<lambda>_. []) mems"
  using memtable_order.holds_new [OF order] by (fastforce simp: fresh_families_def fams_hold_def)

end

section \<open>Writing\<close>

lemma tx_steps_plain:
  assumes "tx_building t = None"
  shows "tx_steps False ops t = t\<lparr>tx_seq := tx_seq t + ops_count ops, tx_applied := tx_applied t @ numbered (tx_seq t) ops\<rparr>"
  using assms
proof (induction ops arbitrary: t)
  case (Cons op ops)
  then show ?case
    by (cases op) (simp_all add: tx_apply_def)
qed simp

lemma SetSequence_rep: "rep b = batch_bytes q ops \<Longrightarrow> rep (SetSequence seq b) = batch_bytes seq ops"
  by (simp add: SetSequence_def memcpy_header)

context families
begin

lemma simulates_new:
  assumes "fams_hold H mems" "0 < n" "\<forall>cf. \<forall>u\<in>set (H cf). unat (fst u) < n" "recovering_log_number opts = 0"
  shows "simulates opts (mems_shape mems) H \<lparr>tx_seq = n, tx_building = None, tx_prepared = prepared, tx_applied = []\<rparr>
    (new_MemTableInserter (word_of_nat n) mems fs valid trxs prep)"
  using assms by (simp add: simulates_def new_MemTableInserter_def shape_def)

lemma insert_group_step:
  assumes "simulates opts sh H t s" "\<forall>w\<in>set ws. (\<exists>q. rep (w_batch w) = batch_bytes q (ops_of w)) \<and> list_all (op_fits opts sh) (ops_of w)"
    "plain_merges opts" "recovering_log_number opts = 0" "tx_building t = None"
    "tx_seq (tx_steps False (concat (map ops_of (filter ShouldWriteToMemtable ws))) t) \<le> Suc (unat kMaxSequenceNumber)"
  shows "\<exists>ws' s'. insert_group opts ws s = (OK, ws', s')
    \<and> simulates opts sh H (tx_steps False (concat (map ops_of (filter ShouldWriteToMemtable ws))) t) s'"
  using assms
proof (induction ws arbitrary: t s)
  case (Cons w ws)
  let ?rest = "concat (map ops_of (filter ShouldWriteToMemtable ws))"
  have ws: "\<forall>w\<in>set ws. (\<exists>q. rep (w_batch w) = batch_bytes q (ops_of w)) \<and> list_all (op_fits opts sh) (ops_of w)"
    using Cons.prems(2) by simp
  show ?case
  proof (cases "ShouldWriteToMemtable w")
    case False
    then obtain ws' s' where "insert_group opts ws s = (OK, ws', s')" "simulates opts sh H (tx_steps False ?rest t) s'"
      using Cons.IH [OF Cons.prems(1) ws Cons.prems(3-5)] Cons.prems(6) by auto
    with False show ?thesis
      by simp
  next
    case True
    obtain q where q: "rep (w_batch w) = batch_bytes q (ops_of w)" "list_all (op_fits opts sh) (ops_of w)"
      using Cons.prems(2) by auto
    let ?b = "SetSequence (ins_sequence s) (w_batch w)" and ?s = "set_log_number_ref (w_log_ref w) s"
    have "tx_seq (tx_steps False (ops_of w) t) \<le> Suc (unat kMaxSequenceNumber)"
      using True tx_seq_steps_mono [of "tx_steps False (ops_of w) t" False ?rest] Cons.prems(6) by simp
    moreover have "simulates opts sh H t ?s"
      using Cons.prems(1) by (rule simulates_same) (simp_all add: set_log_number_ref_def)
    ultimately obtain s1 where s1: "Iterate (inserter 1 opts) ?b ?s = (OK, s1)" "simulates opts sh H (tx_steps False (ops_of w) t) s1"
      using Iterate_step [OF _ q(2) Cons.prems(3), of H t ?s False ?b "ins_sequence s" 0] Cons.prems(4,5) SetSequence_rep [OF q(1)]
      by auto
    have "tx_building (tx_steps False (ops_of w) t) = None"
      using Cons.prems(5) by (simp add: tx_steps_plain)
    then obtain ws' s' where "insert_group opts ws s1 = (OK, ws', s')" "simulates opts sh H (tx_steps False ?rest (tx_steps False (ops_of w) t)) s'"
      using Cons.IH [OF s1(2) ws Cons.prems(3,4)] Cons.prems(6) True by auto
    with True s1(1) show ?thesis
      by simp
  qed
qed simp

end


text \<open>Families over vectors.\<close>

interpretation vector_families: families "\<lambda>_. vector_options mop 0 flush" "\<lambda>_ k. k"
  "\<lambda>_. vector_writable" "\<lambda>_. vector_ok (entry_rank (\<lambda>k. k))" "\<lambda>_ r. set (bucket r)"
  "\<lambda>_. vector_writable" "\<lambda>_. vector_ok (entry_rank (\<lambda>k. k))" "\<lambda>_ r. set (bucket r)"
  by unfold_locales

definition example_family :: "(VectorRep, VectorRep) CFMem" where
  "example_family = \<lparr>cfm_mem = new_MemTable (vector_options None 0 (\<lambda>_. True)) 0, cfm_options = vector_options None 0 (\<lambda>_. True),
     cfm_log_number = 0, is_delete_range_supported = True\<rparr>"

definition example_inserter_options :: "(VectorRep, VectorRep) InserterOptions" where
  "example_inserter_options = \<lparr>ignore_missing_column_families = False, recovering_log_number = 0, has_db = True, allow_2pc = True,
     concurrent_memtable_writes = False, db_Get = \<lambda>_ _ _ _. []\<rparr>"

definition example_writer :: "u64 \<Rightarrow> bytes \<Rightarrow> BatchWriter" where
  "example_writer log_ref v = \<lparr>w_batch = WriteBatch_of_rep (batch_bytes 0 [PutOp 0 [7] v]), w_log_ref = log_ref,
     ShouldWriteToMemtable = True, w_status = OK\<rparr>"


section \<open>Rebuilding transactions\<close>

text \<open>C6: Recovery applies what is committed. A batch that is replayed from a log adds to each memtable, in
  order and numbered from the batch's sequence number on, its updates outside prepared sections and, where a
  transaction is committed, the updates of its section, possibly prepared by an earlier batch. Families whose
  data of this log are already in files are left alone. Sections that are prepared and neither committed nor
  rolled back are kept with exactly their operations and are not read.\<close>

theorem InsertInto_batch_recovers:
  assumes "families fopts rank tw tr tc qw qr qc" "families.fams_hold fopts tw tc qw qc H mems"
    and "\<forall>cf. \<forall>u\<in>set (H cf). unat (fst u) < unat (Sequence b)"
    and "recovering_log_number opts \<noteq> 0" "allow_2pc opts" "\<not> concurrent_memtable_writes opts" "Sequence b \<noteq> 0"
    and "\<forall>x. rel_option (\<lambda>trx ops. (\<exists>b. trx_batch trx = Some b \<and> batch_of ops b) \<and> updates_only opts (mems_shape mems) ops)
      (trxs x) (prepared x)"
    and "rep b = batch_bytes q ops" "list_all (op_fits opts (mems_shape mems)) ops" "marks_ok False ops"
    and "t = tx_steps True ops \<lparr>tx_seq = unat (Sequence b), tx_building = None, tx_prepared = prepared, tx_applied = []\<rparr>"
    and "tx_seq t \<le> Suc (unat kMaxSequenceNumber)"
  shows "\<exists>s'. InsertInto_batch opts b mems fs valid trxs prep = (OK, word_of_nat (tx_seq t), s') \<and> \<not> null_dereference s'
    \<and> mems_shape (cf_mems s') = mems_shape mems
    \<and> (\<forall>x. rel_option (\<lambda>trx ops. \<exists>b. trx_batch trx = Some b \<and> batch_of ops b) (recovered_transactions s' x) (tx_prepared t x))
    \<and> (\<forall>cf c. cf_mems s' cf = Some c \<longrightarrow> reads_as c (H cf @ taken opts (mems_shape mems) (tx_applied t) cf))"
proof -
  note fam = assms(1)
  let ?t = "\<lparr>tx_seq = unat (Sequence b), tx_building = None, tx_prepared = prepared, tx_applied = []\<rparr>"
  let ?s = "new_MemTableInserter (Sequence b) mems fs valid trxs prep"
  have init: "families.simulates fopts tw tc qw qc opts (mems_shape mems) H ?t ?s"
    using assms(2,3,7,8) by (simp add: families.simulates_def [OF fam] new_MemTableInserter_def shape_def unat_gt_0)
  have merges: "families.plain_merges fopts opts"
    using assms(4) by (simp add: families.plain_merges_def [OF fam])
  have r: "True \<longleftrightarrow> recovering_log_number opts \<noteq> 0" "True \<longrightarrow> allow_2pc opts \<and> marks_ok (tx_building ?t \<noteq> None) ops"
    "\<not> True \<longrightarrow> tx_building ?t = None"
    using assms(4,5,11) by simp_all
  obtain s' where s': "Iterate (inserter (Suc 0) opts) b ?s = (OK, s')" "families.simulates fopts tw tc qw qc opts (mems_shape mems) H t s'"
    using families.Iterate_step [OF fam init assms(10) merges r assms(13) [unfolded assms(12)] assms(9), of 0]
    unfolding assms(12) by blast
  have sim: "mems_shape (cf_mems s') = mems_shape mems" "ins_sequence s' = word_of_nat (tx_seq t)" "\<not> null_dereference s'"
    "\<And>x. rel_option (\<lambda>trx ops. (\<exists>b. trx_batch trx = Some b \<and> batch_of ops b) \<and> updates_only opts (mems_shape mems) ops)
      (recovered_transactions s' x) (tx_prepared t x)"
    "families.fams_hold fopts tw tc qw qc (\<lambda>cf. H cf @ taken opts (mems_shape mems) (tx_applied t) cf) (cf_mems s')"
    using s'(2) assms(4) by (simp_all add: families.simulates_def [OF fam] shape_def)
  have "rel_option (\<lambda>trx ops. \<exists>b. trx_batch trx = Some b \<and> batch_of ops b) (recovered_transactions s' x) (tx_prepared t x)" for x
    using sim(4) [of x] by (rule option.rel_mono_strong) blast
  moreover have "reads_as c (H cf @ taken opts (mems_shape mems) (tx_applied t) cf)" if "cf_mems s' cf = Some c" for cf c
    by (rule families.fams_hold_reads [OF fam sim(5) that])
  ultimately show ?thesis
    using s'(1) assms(6) sim(1-3) by (auto simp: InsertInto_batch_def)
qed

text \<open>A batch that prepares the put of a key, puts the same key and commits: the committed value is the
  newer one.\<close>

definition example_recovery :: "(VectorRep, VectorRep) InserterOptions" where
  "example_recovery = example_inserter_options\<lparr>recovering_log_number := 4\<rparr>"

definition example_log_record :: WriteBatch where
  "example_log_record = WriteBatch_of_rep (batch_bytes 5
     [BeginPrepareOp, PutOp 0 [7] [1], EndPrepareOp [9], PutOp 0 [7] [2], CommitOp [9]])"

theorem InsertInto_batch_recovers_witness:
  "\<exists>s' c. InsertInto_batch example_recovery example_log_record [0 \<mapsto> example_family] None None Map.empty
      \<lparr>min_log_with_prep = [], prepared_section_completed = Map.empty\<rparr> = (OK, 7, s')
    \<and> recovered_transactions s' [9] = None \<and> cf_mems s' 0 = Some c
    \<and> reads_as c [(5, kTypeValue, [7], [2]), (6, kTypeValue, [7], [1])]"
proof -
  let ?m = "[0 \<mapsto> example_family]"
  let ?ops = "[BeginPrepareOp, PutOp 0 [7] [1], EndPrepareOp [9], PutOp 0 [7] [2], CommitOp [9]]"
  let ?t = "\<lparr>tx_seq = 7, tx_building = None, tx_prepared = Map.empty,
    tx_applied = [(0, 5, kTypeValue, [7], [2]), (0, 6, kTypeValue, [7], [1])]\<rparr>"
  have rep: "rep example_log_record = batch_bytes 5 ?ops"
    by (simp add: example_log_record_def WriteBatch_of_rep_def)
  have seq: "Sequence example_log_record = 5"
    by code_simp
  have fresh: "families.fresh_families (\<lambda>_. vector_options None 0 (\<lambda>_. True)) ?m"
    by (auto simp: vector_families.fresh_families_def example_family_def)
  have t: "?t = tx_steps True ?ops \<lparr>tx_seq = unat (Sequence example_log_record), tx_building = None, tx_prepared = Map.empty, tx_applied = []\<rparr>"
    by (simp add: seq tx_steps_def tx_apply_def)
  have "\<exists>s'. InsertInto_batch example_recovery example_log_record ?m None None Map.empty
      \<lparr>min_log_with_prep = [], prepared_section_completed = Map.empty\<rparr> = (OK, word_of_nat (tx_seq ?t), s') \<and> \<not> null_dereference s'
    \<and> mems_shape (cf_mems s') = mems_shape ?m
    \<and> (\<forall>x. rel_option (\<lambda>trx ops. \<exists>b. trx_batch trx = Some b \<and> batch_of ops b) (recovered_transactions s' x) (tx_prepared ?t x))
    \<and> (\<forall>cf c. cf_mems s' cf = Some c \<longrightarrow> reads_as c ([] @ taken example_recovery (mems_shape ?m) (tx_applied ?t) cf))"
    by (rule InsertInto_batch_recovers [OF vector_families.families_axioms vector_families.fams_hold_fresh [OF fresh] _ _ _ _ _ _ rep _ _ t])
      (simp_all add: example_recovery_def example_inserter_options_def seq mems_shape_def short_def kMaxSequenceNumber_def)
  then obtain s' where s': "InsertInto_batch example_recovery example_log_record ?m None None Map.empty
      \<lparr>min_log_with_prep = [], prepared_section_completed = Map.empty\<rparr> = (OK, 7, s')"
    "mems_shape (cf_mems s') = mems_shape ?m" "recovered_transactions s' [9] = None"
    "\<And>cf c. cf_mems s' cf = Some c \<Longrightarrow> reads_as c (taken example_recovery (mems_shape ?m) (tx_applied ?t) cf)"
    by auto
  have "mems_shape (cf_mems s') 0 \<noteq> None"
    unfolding s'(2) by (simp add: mems_shape_def)
  then obtain c where "cf_mems s' 0 = Some c"
    by (auto simp: mems_shape_def)
  moreover have "reads_as c [(5, kTypeValue, [7], [2]), (6, kTypeValue, [7], [1])]"
    using s'(4) [OF calculation]
    by (simp add: taken_def accepts_def mems_shape_def example_family_def example_recovery_def family_updates_def)
  ultimately show ?thesis
    using s'(1,3) by blast
qed

section \<open>Prepared sections without two-phase commit\<close>



end
