(* ===== verification/Spec2Isabelle.thy ===== *)
theory Spec2Isabelle
  imports Version_Set_Props Silk_Controller Inserter_Props
begin

text \<open>
  A verification development for SILK, an extension of the RocksDB key-value store (version 5.7) that
  keeps the latency of client operations low by steering the bandwidth and the schedule of flushes and
  compactions.  The theories translate the C++ sources under src/ into HOL functions and prove what makes
  them correct, and where they do not do what their comments say.

  \<^bold>\<open>The program and its parts.\<close>  A write is serialised into a write batch, appended to the
  write-ahead log and inserted into a memtable.  Full memtables are flushed into sorted table files, and
  compactions merge table files into lower levels; both run in background thread pools, and the write
  controller stalls writers that are too fast for them.  Every change of the set of files is an edit that is
  written to the manifest, a log from which a restart rebuilds the versions of all column families.  SILK
  adds a scheduler that pauses and resumes compactions and gives flushes and compactions into level 0
  priority, and a controller that measures the load of clients and sets the rate limit of the background
  work accordingly.

  \<^bold>\<open>Theories.\<close>
  \<^item> Prelude: names of the machine types, \<open>Status\<close>, generic lemmas.
  \<^item> Coding (util/coding): fixed and variable-length integers and length-prefixed strings; every reader
    inverts its writer and consumes exactly what was written.
  \<^item> Comparator, Key_Order (util/comparator.cc) and Dbformat (db/dbformat): user keys, internal keys,
    lookup keys and their orders.  The locales \<open>comparator\<close>, \<open>ranked\<close> and \<open>user_order\<close> state
    what the other components need of an order; the bytewise and the reverse comparator and the internal-key
    order over any user order provide it.
  \<^item> Crc32c (util/crc32c): the table-driven checksum equals the bit-by-bit definition.
  \<^item> Log_Writer, Log_Reader, Log_Props (db/log_writer, db/log_reader): the log format of the write-ahead
    log and the manifest; a log cut at any byte yields exactly the records that are completely in it.
  \<^item> Write_Batch (db/write_batch.cc): batches refine lists of operations, with save points, limits and
    appending; replaying delivers exactly these operations to a handler, which is a record of its virtual
    functions.
  \<^item> Range_Del_Aggregator (db/range_del_aggregator.cc): range tombstones in snapshot stripes; the
    collapsed form decides as the scan does.
  \<^item> Memtable, Memtable_Props (db/memtable, db/merge_context.h, memtable/vectorrep.cc): entries, adding and
    reading.  A representation is a record of its virtual functions with the contract \<open>memtable_rep\<close>,
    which the vector representation provides; a read returns what the updates prescribe.
  \<^item> Memtable_Inserter, Inserter_Props (\<open>MemTableInserter\<close> and \<open>InsertInto\<close> of
    db/write_batch.cc, db/flush_scheduler.cc, the prepared sections of db/db_impl_files.cc): batches go into
    the memtables of their families.  A group of writers is numbered in order and then read as its updates
    prescribe; in recovery the updates of a transaction are applied at its commit.  The contract
    \<open>families\<close> is an indexed family of memtables, provided by vectors.
  \<^item> Version_Edit, Version_Builder, Version_Set, Version_Set_Props (db/version_edit, db/version_builder.cc,
    db/version_set.cc): edits and their encoding, applying them to a version, \<open>LogAndApply\<close> with
    group commits, new manifests and failures, and recovery; what \<open>LogAndApply\<close> reported as done
    survives a restart.
  \<^item> Thread_Pool (util/threadpool_imp.cc), Write_Controller (db/write_controller and
    \<open>RecalculateWriteStallConditions\<close>), Random_Gen (util/random.h), Rate_Limiter
    (util/rate_limiter): the queues of the background threads, write stalls, and the token bucket that limits
    their I/O.
  \<^item> Silk_State, Silk_Scheduler, Silk_Steps, Silk_Invariant, Silk_Props
    (db/db_impl_compaction_flush.cc, db/db_impl.cc): the state of \<open>DBImpl\<close> that decides which
    background work runs, every critical section as a function, the database as a transition system
    (\<open>db_step\<close>) and its invariant.
  \<^item> Silk_Controller (tools/db_bench_tool.cc): the measuring thread of SILK, composed with the
    scheduler and the rate limiter.

  \<^bold>\<open>Conventions.\<close>  Objects are records and methods take and return them; a routine that releases a
  mutex is split where it does, so that other steps can come between.  Virtual classes are records of
  functions.  Failing calls return a \<open>Status\<close> or an option.  Integers of the sources are words where
  they can wrap around; sizes of buffers are natural numbers.  System calls, clocks and table files are
  arguments of the definitions, with what is relied on as hypotheses.

  \<^bold>\<open>Termination and bounds.\<close>  Loops that always end are total functions with a measure.  The loop
  of \<open>ReadRecord\<close> is a partial function: in the mode that skips corrupted records it does not end on a
  recycled file, and the theorem \<open>read_log_terminates\<close> says when it ends.  Other loops over threads and clocks are steps of transition systems, so no
  fuel is needed.  The only fuel is the depth of \<open>inserter\<close>, the nesting of a replay inside a commit:
  rebuilt batches hold no commits, so 1 is enough (\<open>depth_enough\<close>).  Keys and values are assumed to be shorter than 4 GiB where the sources store a length in 32
  bits, and sequence numbers to fit in 56 bits, as dbformat.h demands.

  \<^bold>\<open>Not modelled.\<close>  Interleavings inside lock-free structures (the queue of writers, skip lists,
  concurrent arenas), because their correctness rests on memory orders that functions on values do not
  express.  The file system, compression and clocks, which are system calls.  Table files beyond their
  interfaces, caches and iterators over tables.  The choice of compaction inputs, which computes scores in
  floating point.  Option parsing, statistics and logging, which the modelled code only feeds.  The Java and C
  bindings, the utilities over the public interface, the command-line tools except the SILK controller, and
  third-party code.
\<close>

end
